(* ===== verification/Prelude.thy ===== *)
theory Prelude
  imports Main "HOL-Library.Word"
begin

text \<open>
  Shared vocabulary of the development: the machine integers and byte strings of the Rust
  sources, the big- and little-endian readings of byte strings, what a call of a stateful
  handler can end in, and the parts of the Rust standard library (slices, UTF-8 validation,
  string trimming) that several components use.

  The collections \<open>byte_simps\<close> and \<open>outcome_simps\<close> gather the rewrite rules that the
  component theories pass to the simplifier.
\<close>

named_theorems byte_simps \<open>lengths and round trips of the byte encodings\<close>
named_theorems outcome_simps \<open>rewriting of sequenced handler outcomes\<close>

section \<open>Integers and byte strings\<close>

type_synonym u8 = "8 word"
type_synonym u16 = "16 word"
type_synonym u32 = "32 word"
type_synonym u64 = "64 word"
type_synonym bytes = "u8 list"

text \<open>
  \<open>to_be n v\<close> is the \<open>n\<close>-byte big-endian form of \<open>v\<close> (Rust's \<open>to_be_bytes\<close>), \<open>from_be\<close> its
  inverse (\<open>from_be_bytes\<close>); \<open>to_le\<close> and \<open>from_le\<close> are the little-endian forms.
\<close>

fun to_be :: "nat \<Rightarrow> nat \<Rightarrow> bytes" where
  "to_be 0 v = []"
| "to_be (Suc n) v = to_be n (v div 256) @ [of_nat v]"

definition from_be :: "bytes \<Rightarrow> nat" where
  "from_be bs = foldl (\<lambda>a b. a * 256 + unat b) 0 bs"

definition to_le :: "nat \<Rightarrow> nat \<Rightarrow> bytes" where
  "to_le n v = rev (to_be n v)"

definition from_le :: "bytes \<Rightarrow> nat" where
  "from_le bs = from_be (rev bs)"

definition u16_be :: "u16 \<Rightarrow> bytes" where "u16_be w = to_be 2 (unat w)"
definition u32_be :: "u32 \<Rightarrow> bytes" where "u32_be w = to_be 4 (unat w)"
definition u64_be :: "u64 \<Rightarrow> bytes" where "u64_be w = to_be 8 (unat w)"

definition be_u16 :: "bytes \<Rightarrow> u16" where "be_u16 bs = of_nat (from_be bs)"
definition be_u32 :: "bytes \<Rightarrow> u32" where "be_u32 bs = of_nat (from_be bs)"
definition be_u64 :: "bytes \<Rightarrow> u64" where "be_u64 bs = of_nat (from_be bs)"

lemma length_to_be [simp, byte_simps]: "length (to_be n v) = n"
  by (induction n arbitrary: v) auto

lemma length_to_le [simp, byte_simps]: "length (to_le n v) = n"
  by (simp add: to_le_def)

lemma length_u16_be [simp, byte_simps]: "length (u16_be a) = 2"
  and length_u32_be [simp, byte_simps]: "length (u32_be b) = 4"
  and length_u64_be [simp, byte_simps]: "length (u64_be c) = 8"
  by (simp_all add: u16_be_def u32_be_def u64_be_def)

lemma from_be_Nil [simp]: "from_be [] = 0"
  by (simp add: from_be_def)

lemma from_be_snoc: "from_be (bs @ [b]) = from_be bs * 256 + unat b"
  by (simp add: from_be_def)

lemma unat_u8_less [simp]: "unat (b :: u8) < 256"
  using unsigned_less [of b, where ?'a = nat] by simp

lemma unat_of_nat_u8 [simp]: "unat (of_nat v :: u8) = v mod 256"
  by (simp add: unat_of_nat)

lemma from_to_be: "from_be (to_be n v) = v mod 256 ^ n"
proof (induction n arbitrary: v)
  case 0
  then show ?case by simp
next
  case (Suc n)
  have "v mod (256 * 256 ^ n) = 256 * (v div 256 mod 256 ^ n) + v mod 256"
    by (rule mod_mult2_eq)
  then show ?case by (simp add: from_be_snoc Suc)
qed

lemma from_be_less: "from_be bs < 256 ^ length bs"
proof (induction bs rule: rev_induct)
  case Nil
  then show ?case by simp
next
  case (snoc b bs)
  have "from_be bs + 1 \<le> 256 ^ length bs" using snoc by simp
  then have "(from_be bs + 1) * 256 \<le> 256 ^ length bs * 256" by (rule mult_le_mono1)
  with unat_u8_less [of b] show ?case
    by (simp add: from_be_snoc algebra_simps del: unat_u8_less)
qed

lemma u8_of_nat_shift: "of_nat (a * 256 + unat b) = (b :: u8)"
proof -
  have z: "(256 :: u8) = 0" by simp
  show ?thesis unfolding of_nat_add of_nat_mult of_nat_numeral z by simp
qed

lemma to_from_be: "to_be (length bs) (from_be bs) = bs"
proof (induction bs rule: rev_induct)
  case Nil
  then show ?case by simp
next
  case (snoc b bs)
  have "unat b < 256" by simp
  then have "(from_be bs * 256 + unat b) div 256 = from_be bs" by simp
  with snoc show ?case
    by (simp only: length_append_singleton to_be.simps from_be_snoc u8_of_nat_shift)
qed

lemma to_from_be_len: "length bs = n \<Longrightarrow> to_be n (from_be bs) = bs"
  using to_from_be [of bs] by simp

lemma from_to_le: "from_le (to_le n v) = v mod 256 ^ n"
  by (simp add: from_le_def to_le_def from_to_be)

lemma unat_less_2p: "unat (w :: 'a::len word) < 2 ^ LENGTH('a)"
  by (rule unsigned_less)

lemma be_u16_u16_be [simp, byte_simps]: "be_u16 (u16_be w) = w"
  using unat_less_2p [of w] by (simp add: be_u16_def u16_be_def from_to_be)

lemma be_u32_u32_be [simp, byte_simps]: "be_u32 (u32_be w) = w"
  using unat_less_2p [of w] by (simp add: be_u32_def u32_be_def from_to_be)

lemma be_u64_u64_be [simp, byte_simps]: "be_u64 (u64_be w) = w"
  using unat_less_2p [of w] by (simp add: be_u64_def u64_be_def from_to_be)

lemma u16_be_be_u16: "length bs = 2 \<Longrightarrow> u16_be (be_u16 bs) = bs"
  using from_be_less [of bs] by (simp add: be_u16_def u16_be_def unat_of_nat to_from_be_len)

lemma u32_be_be_u32: "length bs = 4 \<Longrightarrow> u32_be (be_u32 bs) = bs"
  using from_be_less [of bs] by (simp add: be_u32_def u32_be_def unat_of_nat to_from_be_len)

lemma u64_be_be_u64: "length bs = 8 \<Longrightarrow> u64_be (be_u64 bs) = bs"
  using from_be_less [of bs] by (simp add: be_u64_def u64_be_def unat_of_nat to_from_be_len)

lemma unat_be_u16: "length bs = 2 \<Longrightarrow> unat (be_u16 bs) = from_be bs"
  using from_be_less [of bs] by (simp add: be_u16_def unat_of_nat)

lemma unat_be_u32: "length bs = 4 \<Longrightarrow> unat (be_u32 bs) = from_be bs"
  using from_be_less [of bs] by (simp add: be_u32_def unat_of_nat)

section \<open>Slices\<close>

text \<open>
  \<open>slice a b xs\<close> is Rust's \<open>&xs[a..b]\<close> where it does not panic (\<open>a \<le> b \<le> length xs\<close>);
  definitions that use it check the bounds first, as the code does.
\<close>

definition slice :: "nat \<Rightarrow> nat \<Rightarrow> 'a list \<Rightarrow> 'a list" where
  "slice a b xs = take (b - a) (drop a xs)"

lemma length_slice [simp]: "b \<le> length xs \<Longrightarrow> length (slice a b xs) = b - a"
  by (simp add: slice_def)

lemma slice_append [simp]: "b \<le> length xs \<Longrightarrow> slice a b (xs @ ys) = slice a b xs"
  by (cases "a \<le> b") (simp_all add: slice_def)

lemma starts_with_append:
  "length p \<le> length xs \<Longrightarrow> take (length p) (xs @ ys) = take (length p) xs"
  by simp

section \<open>Outcomes of handlers\<close>

text \<open>
  What a call of a stateful handler ends in: it returns \<open>Ok\<close>, it returns \<open>Err\<close>, the thread
  panics, or the call never returns.
\<close>

datatype ('e, 'a) outcome = Done 'a | Fail 'e | Panic | Hang

fun bind_outcome ::
  "('e, 'a) outcome \<times> 's \<Rightarrow> ('a \<Rightarrow> 's \<Rightarrow> ('e, 'b) outcome \<times> 's) \<Rightarrow> ('e, 'b) outcome \<times> 's" where
  "bind_outcome (Done a, s) k = k a s"
| "bind_outcome (Fail e, s) k = (Fail e, s)"
| "bind_outcome (Panic, s) k = (Panic, s)"
| "bind_outcome (Hang, s) k = (Hang, s)"

lemmas bind_outcome_rules [outcome_simps] = bind_outcome.simps

lemma bind_outcome_assoc:
  "bind_outcome (bind_outcome r f) g = bind_outcome r (\<lambda>a s. bind_outcome (f a s) g)"
proof -
  obtain o' s where "r = (o', s)" by (cases r)
  then show ?thesis by (cases o') simp_all
qed

section \<open>Machine-size arithmetic\<close>

text \<open>A \<open>usize\<close> has 64 bits, and the released program is built without overflow checks.\<close>

definition usize_add :: "nat \<Rightarrow> nat \<Rightarrow> nat" where
  "usize_add a b = (a + b) mod 2 ^ 64"

lemma usize_add_exact: "a + b < 2 ^ 64 \<Longrightarrow> usize_add a b = a + b"
  by (simp add: usize_add_def)

section \<open>Strings\<close>

text \<open>
  A Rust \<open>String\<close> is its UTF-8 bytes, here a \<open>string\<close> (Isabelle's characters are bytes);
  \<open>as_bytes\<close> and \<open>bytes_str\<close> convert. \<open>utf8_valid\<close> is the check of \<open>str::from_utf8\<close> (the
  well-formed byte sequences of the Unicode standard), \<open>trim_end_matches\<close> drops a trailing
  run of one character, \<open>starts_with\<close> is the prefix test of slices and strings.
\<close>

definition as_bytes :: "string \<Rightarrow> bytes" where
  "as_bytes s = map (\<lambda>c. of_nat (of_char c)) s"

definition bytes_str :: "bytes \<Rightarrow> string" where
  "bytes_str bs = map (\<lambda>b. char_of (unat b)) bs"

definition cont_byte :: "u8 \<Rightarrow> bool" where
  "cont_byte b \<longleftrightarrow> 0x80 \<le> b \<and> b \<le> 0xBF"

fun utf8_valid :: "bytes \<Rightarrow> bool" where
  "utf8_valid [] = True"
| "utf8_valid (a # xs) =
     (if a < 0x80 then utf8_valid xs
      else case xs of
        [] \<Rightarrow> False
      | b # ys \<Rightarrow>
          if 0xC2 \<le> a \<and> a \<le> 0xDF then cont_byte b \<and> utf8_valid ys
          else (case ys of
            [] \<Rightarrow> False
          | c # zs \<Rightarrow>
              if 0xE0 \<le> a \<and> a \<le> 0xEF then
                (if a = 0xE0 then 0xA0 \<le> b \<and> b \<le> 0xBF
                 else if a = 0xED then 0x80 \<le> b \<and> b \<le> 0x9F
                 else cont_byte b) \<and> cont_byte c \<and> utf8_valid zs
              else (case zs of
                [] \<Rightarrow> False
              | d # ws \<Rightarrow>
                  (0xF0 \<le> a \<and> a \<le> 0xF4) \<and>
                  (if a = 0xF0 then 0x90 \<le> b \<and> b \<le> 0xBF
                   else if a = 0xF4 then 0x80 \<le> b \<and> b \<le> 0x8F
                   else cont_byte b) \<and> cont_byte c \<and> cont_byte d \<and> utf8_valid ws)))"

definition trim_end_matches :: "'a \<Rightarrow> 'a list \<Rightarrow> 'a list" where
  "trim_end_matches c s = rev (dropWhile (\<lambda>x. x = c) (rev s))"

definition starts_with :: "'a list \<Rightarrow> 'a list \<Rightarrow> bool" where
  "starts_with p xs \<longleftrightarrow> take (length p) xs = p"

lemma starts_with_length: "starts_with p s \<Longrightarrow> p \<noteq> [] \<Longrightarrow> length s - length p < length s"
  by (cases s) (auto simp: starts_with_def)

lemma starts_with_extend: "starts_with p xs \<Longrightarrow> starts_with p (xs @ ys)"
  unfolding starts_with_def by (metis append_take_drop_id append_assoc append_eq_conv_conj)

lemma starts_with_extendD:
  "length p \<le> length xs \<Longrightarrow> starts_with p (xs @ ys) \<Longrightarrow> starts_with p xs"
  by (simp add: starts_with_def)

lemma length_as_bytes [simp]: "length (as_bytes s) = length s"
  by (simp add: as_bytes_def)

lemma bytes_str_as_bytes [simp]: "bytes_str (as_bytes s) = s"
  by (induction s) (simp_all add: as_bytes_def bytes_str_def unat_of_nat)

lemma as_bytes_bytes_str [simp]: "as_bytes (bytes_str bs) = bs"
  by (induction bs) (simp_all add: as_bytes_def bytes_str_def)

lemma as_bytes_append: "as_bytes (s @ t) = as_bytes s @ as_bytes t"
  by (simp add: as_bytes_def)

lemma utf8_valid_ascii: "\<forall>b \<in> set xs. b < 0x80 \<Longrightarrow> utf8_valid xs"
  by (induction xs) auto

end
