(* ===== verification/Framing.thy ===== *)
theory Framing
  imports Prelude
begin

text \<open>
  Length-prefixed framing of a byte stream, the pattern that the accumulators of
  \<open>connection/\<close> share (\<open>noise::ChunkState\<close>, \<open>yamux::acc\<close>, \<open>mplex::acc\<close>,
  \<open>accumulator::State\<close>, \<open>multistream_select::ll\<close>): a decoder looks at the start of the
  buffered bytes and either finds a complete frame of some length or asks for more data.

  The locale \<open>framing\<close> states what such a decoder promises. From it follow, once for all
  layers: cutting frames off a buffer ends, it does not depend on how the stream was cut into
  chunks, no byte is lost (\<open>lossless_framing\<close>), and a stream of well-formed frames is cut into
  exactly those frames (\<open>frame_codec\<close>).
\<close>

section \<open>Cutting frames off a buffer\<close>

text \<open>
  \<open>f bs = Some (m, n)\<close>: the first \<open>n\<close> bytes of \<open>bs\<close> are the frame \<open>m\<close>. \<open>drain\<close> cuts frames as
  long as there are any and returns them with the bytes that are left.
\<close>

function drain :: "(bytes \<Rightarrow> ('m \<times> nat) option) \<Rightarrow> bytes \<Rightarrow> 'm list \<times> bytes" where
  "drain f bs =
     (case f bs of
        None \<Rightarrow> ([], bs)
      | Some (m, n) \<Rightarrow>
          if 0 < n \<and> n \<le> length bs
          then (let (ms, r) = drain f (drop n bs) in (m # ms, r))
          else ([], bs))"
  by pat_completeness auto
termination
  by (relation "measure (\<lambda>(f, bs). length bs)") auto

declare drain.simps [simp del]

text \<open>Feeding a stream chunk by chunk, keeping the undecoded rest between the chunks.\<close>

fun feed :: "(bytes \<Rightarrow> ('m \<times> nat) option) \<Rightarrow> bytes \<Rightarrow> bytes list \<Rightarrow> 'm list \<times> bytes" where
  "feed f r [] = ([], r)"
| "feed f r (c # cs) =
     (let (ms, r') = drain f (r @ c); (ms', r'') = feed f r' cs in (ms @ ms', r''))"

text \<open>A machine that consumes frames one by one and emits one output for each.\<close>

fun mealy :: "('s \<Rightarrow> 'm \<Rightarrow> 'o \<times> 's) \<Rightarrow> 's \<Rightarrow> 'm list \<Rightarrow> 'o list \<times> 's" where
  "mealy step s [] = ([], s)"
| "mealy step s (m # ms) =
     (let (out, s') = step s m; (outs, s'') = mealy step s' ms in (out # outs, s''))"

lemma mealy_append:
  "mealy step s (xs @ ys) =
     (let (o1, s1) = mealy step s xs; (o2, s2) = mealy step s1 ys in (o1 @ o2, s2))"
  by (induction xs arbitrary: s) (auto simp: Let_def split: prod.splits)

lemma length_mealy: "length (fst (mealy step s ms)) = length ms"
  by (induction ms arbitrary: s) (simp_all add: Let_def split_beta)

lemma mealy_invariant:
  assumes "\<And>s m. I s \<Longrightarrow> I (snd (step s m))"
  shows "I s \<Longrightarrow> I (snd (mealy step s ms))"
proof (induction ms arbitrary: s)
  case Nil
  then show ?case by simp
next
  case (Cons m ms)
  then have "I (snd (mealy step (snd (step s m)) ms))" using assms by blast
  then show ?case by (simp add: Let_def split_beta)
qed

lemma drain_None: "f bs = None \<Longrightarrow> drain f bs = ([], bs)"
  by (subst drain.simps) simp

section \<open>The interface of a frame decoder\<close>

locale framing =
  fixes next_frame :: "bytes \<Rightarrow> ('m \<times> nat) option"
  assumes frame_bounds: "next_frame bs = Some (m, n) \<Longrightarrow> 0 < n \<and> n \<le> length bs"
    and frame_extend: "next_frame bs = Some (m, n) \<Longrightarrow> next_frame (bs @ ys) = Some (m, n)"
begin

lemma drain_Some:
  assumes "next_frame bs = Some (m, n)"
  shows "drain next_frame bs =
    (m # fst (drain next_frame (drop n bs)), snd (drain next_frame (drop n bs)))"
  using assms frame_bounds [OF assms] by (subst drain.simps) (simp add: split_beta)

lemma drain_rest: "next_frame (snd (drain next_frame bs)) = None"
proof (induction bs rule: length_induct)
  case (1 bs)
  show ?case
  proof (cases "next_frame bs")
    case None
    then show ?thesis by (simp add: drain_None)
  next
    case (Some mn)
    obtain m n where mn: "mn = (m, n)" by (cases mn)
    with Some have f: "next_frame bs = Some (m, n)" by simp
    from frame_bounds [OF f] have "length (drop n bs) < length bs" by auto
    with 1 have "next_frame (snd (drain next_frame (drop n bs))) = None" by blast
    then show ?thesis by (simp add: drain_Some [OF f])
  qed
qed

lemma drain_Nil: "drain next_frame bs = ([], r) \<longleftrightarrow> next_frame bs = None \<and> r = bs"
proof (cases "next_frame bs")
  case (Some mn)
  then show ?thesis using drain_Some by (cases mn) simp
qed (auto simp: drain_None)

lemma drain_append:
  "drain next_frame (a @ b) =
     (let (ms, r) = drain next_frame a; (ms', r') = drain next_frame (r @ b) in (ms @ ms', r'))"
proof (induction a rule: length_induct)
  case (1 a)
  show ?case
  proof (cases "next_frame a")
    case None
    then show ?thesis by (simp add: drain_None split_beta)
  next
    case (Some mn)
    obtain m n where mn: "mn = (m, n)" by (cases mn)
    with Some have f: "next_frame a = Some (m, n)" by simp
    note nb = frame_bounds [OF f]
    have "length (drop n a) < length a" using nb by auto
    with 1 have IH: "drain next_frame (drop n a @ b) =
      (let (ms, r) = drain next_frame (drop n a); (ms', r') = drain next_frame (r @ b)
       in (ms @ ms', r'))" by blast
    have "drop n (a @ b) = drop n a @ b" using nb by simp
    then show ?thesis
      using drain_Some [OF frame_extend [OF f, of b]] IH
      by (simp add: drain_Some [OF f] Let_def split_beta)
  qed
qed

lemma drain_idem: "drain next_frame (snd (drain next_frame bs)) = ([], snd (drain next_frame bs))"
  by (simp add: drain_None drain_rest)

lemma feed_concat:
  "next_frame r = None \<Longrightarrow> feed next_frame r cs = drain next_frame (r @ concat cs)"
proof (induction cs arbitrary: r)
  case Nil
  then show ?case by (simp add: drain_None)
next
  case (Cons c cs)
  obtain ms r' where d: "drain next_frame (r @ c) = (ms, r')" by fastforce
  have "next_frame r' = None" using drain_rest [of "r @ c"] by (simp add: d)
  from Cons.IH [OF this] drain_append [of "r @ c" "concat cs"] show ?case
    by (simp add: d split_beta)
qed

lemma feed_chunking:
  assumes "concat cs = concat cs'" and "next_frame r = None"
  shows "feed next_frame r cs = feed next_frame r cs'"
  using assms by (simp add: feed_concat)

end

text \<open>A decoder whose frames can be written back: nothing of the stream is dropped.\<close>

locale lossless_framing = framing +
  fixes emit :: "'a \<Rightarrow> bytes"
  assumes emit_frame: "next_frame bs = Some (m, n) \<Longrightarrow> emit m = take n bs"
begin

lemma drain_lossless:
  "concat (map emit (fst (drain next_frame bs))) @ snd (drain next_frame bs) = bs"
proof (induction bs rule: length_induct)
  case (1 bs)
  show ?case
  proof (cases "next_frame bs")
    case None
    then show ?thesis by (simp add: drain_None)
  next
    case (Some mn)
    obtain m n where mn: "mn = (m, n)" by (cases mn)
    with Some have f: "next_frame bs = Some (m, n)" by simp
    from frame_bounds [OF f] have "length (drop n bs) < length bs" by auto
    with 1 have "concat (map emit (fst (drain next_frame (drop n bs)))) @
      snd (drain next_frame (drop n bs)) = drop n bs" by blast
    then show ?thesis by (simp add: drain_Some [OF f] emit_frame [OF f])
  qed
qed

end

text \<open>A decoder and an encoder that agree on the valid frames.\<close>

locale frame_codec = lossless_framing +
  fixes valid :: "'a \<Rightarrow> bool"
  assumes parse_emit: "valid m \<Longrightarrow> next_frame (emit m @ r) = Some (m, length (emit m))"
begin

lemma drain_emit:
  assumes "\<forall>m \<in> set ms. valid m" and "next_frame r = None"
  shows "drain next_frame (concat (map emit ms) @ r) = (ms, r)"
  using assms(1)
proof (induction ms)
  case Nil
  then show ?case by (simp add: drain_None assms(2))
next
  case (Cons m ms)
  then have f: "next_frame (emit m @ concat (map emit ms) @ r) = Some (m, length (emit m))"
    by (simp add: parse_emit)
  show ?case using Cons by (simp add: drain_Some [OF f])
qed

end

end
