(* ===== verification/Types.thy ===== *)
theory Types
  imports Prelude
begin

text \<open>
  The data that the layers of the recorder pass around: addresses and times
  (\<open>std::net\<close>, \<open>std::time\<close>), the identity of an event (\<open>mina-recorder/src/event.rs\<close>), streams and
  their kinds (\<open>mina-recorder/src/database/types.rs\<close>), and the database operations that a
  protocol layer calls through its \<open>DbGroup\<close>. Lemmas: the textual and numeric names of streams
  and stream kinds can be read back.
\<close>

section \<open>Addresses, times, events\<close>

datatype ip_addr = V4 u32 | V6 "128 word"

record socket_addr =
  ip :: ip_addr
  port :: u16

text \<open>A \<open>Duration\<close>; a \<open>SystemTime\<close> is its distance from the Unix epoch.\<close>

record duration =
  as_secs :: u64
  subsec_nanos :: u32

definition duration_zero :: duration where
  "duration_zero = \<lparr>as_secs = 0, subsec_nanos = 0\<rparr>"

text \<open>\<open>duration_since\<close> of two times, and \<open>checked_sub\<close> of two durations.\<close>

definition dur_nanos :: "duration \<Rightarrow> nat" where
  "dur_nanos d = unat (as_secs d) * 1000000000 + unat (subsec_nanos d)"

definition dur_of_nanos :: "nat \<Rightarrow> duration" where
  "dur_of_nanos n = \<lparr>as_secs = of_nat (n div 1000000000), subsec_nanos = of_nat (n mod 1000000000)\<rparr>"

definition duration_since :: "duration \<Rightarrow> duration \<Rightarrow> duration option" where
  "duration_since a b = (if dur_nanos b \<le> dur_nanos a then Some (dur_of_nanos (dur_nanos a - dur_nanos b)) else None)"

record connection_info =
  ci_addr :: socket_addr
  ci_pid :: u32
  ci_fd :: u32

record event_metadata =
  md_id :: connection_info
  md_time :: duration
  md_better_time :: duration
  md_duration :: duration

record directed_id =
  metadata :: event_metadata
  did_alias :: string
  incoming :: bool
  buffered :: nat

section \<open>The database as a protocol layer sees it\<close>

text \<open>
  A layer holds a \<open>DbGroup\<close> and a context \<open>Cx\<close>; both are part of a world \<open>'w\<close>. The fields are
  the calls that a layer makes: \<open>db_add\<close> is \<open>db.get(stream).add(did, kind, bytes)\<close>, \<open>db_add_raw\<close>
  is \<open>db.add_raw(status, incoming, time, bytes)\<close>, \<open>db_update\<close> is \<open>db.update(stats, incoming)\<close>,
  and \<open>db_drop\<close> is what dropping a clone of the group does (\<open>Drop for DbGroup\<close>), which every
  handle obtained by \<open>db.get\<close> causes at the end of its scope.
\<close>

datatype encryption_status = Raw | DecryptedPnet | DecryptedNoise

record connection_stats =
  total_bytes :: u64
  decrypted_bytes :: u64
  decrypted_chunks :: u64
  stat_messages :: u64

definition connection_stats_default :: connection_stats where
  "connection_stats_default =
     \<lparr>total_bytes = 0, decrypted_bytes = 0, decrypted_chunks = 0, stat_messages = 0\<rparr>"

definition connection_stats_add_assign ::
  "connection_stats \<Rightarrow> connection_stats \<Rightarrow> connection_stats" where
  "connection_stats_add_assign a b =
     \<lparr>total_bytes = total_bytes a + total_bytes b,
      decrypted_bytes = decrypted_bytes a + decrypted_bytes b,
      decrypted_chunks = decrypted_chunks a + decrypted_chunks b,
      stat_messages = stat_messages a + stat_messages b\<rparr>"

section \<open>Streams\<close>

datatype stream_id = Handshake | Forward u64 | Backward u64

datatype stream_kind =
    Kind_Unknown | Kind_Handshake | Kind_Kad | Kind_IpfsId | Kind_IpfsPush | Kind_IpfsDelta
  | Kind_PeerExchange | Kind_BitswapExchange | Kind_NodeStatus | Kind_Meshsub | Kind_Rpc
  | Kind_Select | Kind_Mplex | Kind_Yamux

record ('e, 'w) db_ops =
  db_add :: "stream_id \<Rightarrow> directed_id \<Rightarrow> stream_kind \<Rightarrow> bytes \<Rightarrow> 'w \<Rightarrow> ('e, u64) outcome \<times> 'w"
  db_add_raw ::
    "encryption_status \<Rightarrow> bool \<Rightarrow> duration \<Rightarrow> bytes \<Rightarrow> 'w \<Rightarrow> ('e, u64) outcome \<times> 'w"
  db_update :: "connection_stats \<Rightarrow> bool \<Rightarrow> 'w \<Rightarrow> ('e, unit) outcome \<times> 'w"
  db_drop :: "'w \<Rightarrow> 'w"

text \<open>\<open>HandleData::on_data\<close> of a layer with state \<open>'i\<close>.\<close>

type_synonym ('e, 'i, 'w) on_data = "directed_id \<Rightarrow> bytes \<Rightarrow> 'i \<Rightarrow> 'w \<Rightarrow> ('e, unit) outcome \<times> 'i \<times> 'w"

section \<open>What the multiplexers share\<close>

text \<open>
  \<open>std::task::Poll\<close>, and the status of a multiplexed stream: \<open>mplex::Status\<close> and
  \<open>yamux::Status\<close> are the same type.
\<close>

datatype 'a poll = Pending | Ready 'a

datatype 'i status = Duplex 'i | IncomingOnly 'i | OutgoingOnly 'i

primrec as_mut :: "'i status \<Rightarrow> 'i" where
  "as_mut (Duplex i) = i"
| "as_mut (IncomingOnly i) = i"
| "as_mut (OutgoingOnly i) = i"

text \<open>What a write through \<open>as_mut\<close> leaves in the map.\<close>

primrec set_status :: "'i \<Rightarrow> 'i status \<Rightarrow> 'i status" where
  "set_status j (Duplex i) = Duplex j"
| "set_status j (IncomingOnly i) = IncomingOnly j"
| "set_status j (OutgoingOnly i) = OutgoingOnly j"

section \<open>Names and numbers of stream kinds\<close>

text \<open>Small instances for examples: a database that lists what is added, and an event.\<close>

definition list_db :: "(string, (stream_id \<times> stream_kind \<times> bytes) list) db_ops" where
  "list_db = \<lparr>db_add = (\<lambda>s did k bs w. (Done (of_nat (length w)), w @ [(s, k, bs)])),
     db_add_raw = (\<lambda>e inc t bs w. (Done (of_nat (length w)), w)),
     db_update = (\<lambda>st inc w. (Done (), w)), db_drop = (\<lambda>w. w)\<rparr>"

definition sample_did :: "bool \<Rightarrow> directed_id" where
  "sample_did inc =
     \<lparr>metadata = \<lparr>md_id = \<lparr>ci_addr = \<lparr>ip = V4 0x0a000001, port = 8302\<rparr>, ci_pid = 1, ci_fd = 7\<rparr>,
        md_time = \<lparr>as_secs = 10, subsec_nanos = 0\<rparr>,
        md_better_time = \<lparr>as_secs = 10, subsec_nanos = 0\<rparr>, md_duration = duration_zero\<rparr>,
      did_alias = ''node'', incoming = inc, buffered = 0\<rparr>"

definition stream_kind_u16 :: "stream_kind \<Rightarrow> u16" where
  "stream_kind_u16 k = (case k of
     Kind_Unknown \<Rightarrow> 0xffff
   | Kind_Handshake \<Rightarrow> 0x0001
   | Kind_Kad \<Rightarrow> 0x0100
   | Kind_IpfsId \<Rightarrow> 0x0200
   | Kind_IpfsPush \<Rightarrow> 0x0201
   | Kind_IpfsDelta \<Rightarrow> 0x0202
   | Kind_PeerExchange \<Rightarrow> 0x0300
   | Kind_BitswapExchange \<Rightarrow> 0x0301
   | Kind_NodeStatus \<Rightarrow> 0x0302
   | Kind_Meshsub \<Rightarrow> 0x0400
   | Kind_Rpc \<Rightarrow> 0x0500
   | Kind_Select \<Rightarrow> 0x0600
   | Kind_Mplex \<Rightarrow> 0x0700
   | Kind_Yamux \<Rightarrow> 0x0701)"

definition stream_kind_display :: "stream_kind \<Rightarrow> string" where
  "stream_kind_display k = (case k of
     Kind_Handshake \<Rightarrow> ''/noise''
   | Kind_Kad \<Rightarrow> ''/coda/kad/1.0.0''
   | Kind_IpfsId \<Rightarrow> ''/ipfs/id/1.0.0''
   | Kind_IpfsPush \<Rightarrow> ''/ipfs/id/push/1.0.0''
   | Kind_IpfsDelta \<Rightarrow> ''/p2p/id/delta/1.0.0''
   | Kind_PeerExchange \<Rightarrow> ''/mina/peer-exchange''
   | Kind_BitswapExchange \<Rightarrow> ''/mina/bitswap-exchange''
   | Kind_NodeStatus \<Rightarrow> ''/mina/node-status''
   | Kind_Meshsub \<Rightarrow> ''/meshsub/1.1.0''
   | Kind_Rpc \<Rightarrow> ''coda/rpcs/0.0.1''
   | Kind_Select \<Rightarrow> ''/multistream/1.0.0''
   | Kind_Mplex \<Rightarrow> ''/coda/mplex/1.0.0''
   | Kind_Yamux \<Rightarrow> ''/coda/yamux/1.0.0''
   | Kind_Unknown \<Rightarrow> ''unknown'')"

definition stream_kind_from_str :: "string \<Rightarrow> stream_kind" where
  "stream_kind_from_str s =
     (if s = ''/noise'' then Kind_Handshake
      else if s = ''/coda/kad/1.0.0'' then Kind_Kad
      else if s = ''/ipfs/id/1.0.0'' then Kind_IpfsId
      else if s = ''/ipfs/id/push/1.0.0'' then Kind_IpfsPush
      else if s = ''/p2p/id/delta/1.0.0'' then Kind_IpfsDelta
      else if s = ''/mina/peer-exchange'' then Kind_PeerExchange
      else if s = ''/mina/bitswap-exchange'' then Kind_BitswapExchange
      else if s = ''/mina/node-status'' then Kind_NodeStatus
      else if s = ''/meshsub/1.1.0'' then Kind_Meshsub
      else if s = ''coda/rpcs/0.0.1'' then Kind_Rpc
      else if s = ''/multistream/1.0.0'' then Kind_Select
      else if s = ''/coda/mplex/1.0.0'' then Kind_Mplex
      else if s = ''/coda/yamux/1.0.0'' then Kind_Yamux
      else Kind_Unknown)"

definition stream_kind_iter :: "stream_kind list" where
  "stream_kind_iter =
     [Kind_Handshake, Kind_Kad, Kind_IpfsId, Kind_IpfsPush, Kind_IpfsDelta, Kind_PeerExchange,
      Kind_BitswapExchange, Kind_NodeStatus, Kind_Meshsub, Kind_Rpc, Kind_Select, Kind_Mplex,
      Kind_Yamux, Kind_Unknown]"

text \<open>The loop over \<open>StreamKind::iter()\<close> in \<open>Absorb for StreamKind\<close>.\<close>

definition stream_kind_of_u16 :: "u16 \<Rightarrow> stream_kind" where
  "stream_kind_of_u16 d =
     (case find (\<lambda>k. d = stream_kind_u16 k) stream_kind_iter of
        Some k \<Rightarrow> k | None \<Rightarrow> Kind_Unknown)"

lemma stream_kind_from_display: "stream_kind_from_str (stream_kind_display k) = k"
  by (cases k) (simp_all add: stream_kind_display_def stream_kind_from_str_def)

lemma stream_kind_of_u16_u16: "stream_kind_of_u16 (stream_kind_u16 k) = k"
  by (cases k) (simp_all add: stream_kind_of_u16_def stream_kind_iter_def stream_kind_u16_def)

section \<open>Stream ids as text\<close>

text \<open>
  \<open>{a:08x}\<close>: lower-case hexadecimal, padded with zeros to eight digits.
\<close>

definition hex_digit :: "nat \<Rightarrow> char" where
  "hex_digit d = (if d < 10 then char_of (48 + d) else char_of (87 + d))"

fun hex_digits :: "nat \<Rightarrow> string" where
  "hex_digits n = (if n < 16 then [hex_digit n] else hex_digits (n div 16) @ [hex_digit (n mod 16)])"

declare hex_digits.simps [simp del]

definition hex08 :: "u64 \<Rightarrow> string" where
  "hex08 a = (let s = hex_digits (unat a) in replicate (8 - length s) CHR ''0'' @ s)"

definition stream_id_display :: "stream_id \<Rightarrow> string" where
  "stream_id_display s = (case s of
     Handshake \<Rightarrow> ''handshake''
   | Forward a \<Rightarrow> ''forward_'' @ hex08 a
   | Backward a \<Rightarrow> ''backward_'' @ hex08 a)"

text \<open>
  \<open>u64::from_str_radix(_, 16)\<close>: an optional plus sign, then at least one digit; every digit
  must be hexadecimal, and the value must fit (checked digit by digit).
\<close>

datatype parse_int_error = PieEmpty | PieInvalidDigit | PiePosOverflow

definition parse_int_error_display :: "parse_int_error \<Rightarrow> string" where
  "parse_int_error_display e = (case e of
     PieEmpty \<Rightarrow> ''cannot parse integer from empty string''
   | PieInvalidDigit \<Rightarrow> ''invalid digit found in string''
   | PiePosOverflow \<Rightarrow> ''number too large to fit in target type'')"

definition hex_val :: "char \<Rightarrow> nat option" where
  "hex_val c = (let v = of_char c in
     if 48 \<le> v \<and> v \<le> 57 then Some (v - 48)
     else if 97 \<le> v \<and> v \<le> 102 then Some (v - 87)
     else if 65 \<le> v \<and> v \<le> 70 then Some (v - 55)
     else (None :: nat option))"

fun hex_accum :: "nat \<Rightarrow> string \<Rightarrow> parse_int_error + nat" where
  "hex_accum acc [] = Inr acc"
| "hex_accum acc (c # cs) =
     (case hex_val c of
        None \<Rightarrow> Inl PieInvalidDigit
      | Some d \<Rightarrow> if acc * 16 + d < 2 ^ 64 then hex_accum (acc * 16 + d) cs
                  else Inl PiePosOverflow)"

definition u64_from_str_radix16 :: "string \<Rightarrow> parse_int_error + u64" where
  "u64_from_str_radix16 s =
     (if s = [] then Inl PieEmpty
      else if s = ''+'' \<or> s = ''-'' then Inl PieInvalidDigit
      else map_sum id of_nat (hex_accum 0 (if hd s = CHR ''+'' then tl s else s)))"

text \<open>\<open>trim_start_matches\<close> with a string pattern removes every leading copy of it.\<close>

function trim_start_matches :: "'a list \<Rightarrow> 'a list \<Rightarrow> 'a list" where
  "trim_start_matches p s =
     (if p \<noteq> [] \<and> starts_with p s then trim_start_matches p (drop (length p) s) else s)"
  by pat_completeness auto
termination
  by (relation "measure (\<lambda>(p, s). length s)") (auto dest: starts_with_length)

declare trim_start_matches.simps [simp del]

definition stream_id_from_str :: "string \<Rightarrow> string + stream_id" where
  "stream_id_from_str s =
     (if s = ''handshake'' then Inr Handshake
      else if starts_with ''forward_'' s then
        map_sum parse_int_error_display Forward
          (u64_from_str_radix16 (trim_start_matches ''forward_'' s))
      else if starts_with ''backward_'' s then
        map_sum parse_int_error_display Backward
          (u64_from_str_radix16 (trim_start_matches ''backward_'' s))
      else Inl s)"

text \<open>
  \<open>Emit\<close> and \<open>Absorb\<close> of a stream id go through a signed 64-bit number: \<open>i64::MIN\<close> is the
  handshake, the non-negative numbers are forward and the negative ones backward streams.
\<close>

definition stream_id_code :: "stream_id \<Rightarrow> u64" where
  "stream_id_code s = (case s of
     Handshake \<Rightarrow> 0x8000000000000000
   | Forward a \<Rightarrow> a
   | Backward a \<Rightarrow> - (a + 1))"

definition stream_id_of_code :: "u64 \<Rightarrow> stream_id" where
  "stream_id_of_code d =
     (if d = 0x8000000000000000 then Handshake
      else if 0 \<le> sint d then Forward d
      else Backward (- d - 1))"

definition stream_id_ok :: "stream_id \<Rightarrow> bool" where
  "stream_id_ok s = (case s of
     Handshake \<Rightarrow> True
   | Forward a \<Rightarrow> a < 0x8000000000000000
   | Backward a \<Rightarrow> a < 0x7fffffffffffffff)"

lemma sint_nonneg_iff: "0 \<le> sint (d :: u64) \<longleftrightarrow> d < 0x8000000000000000"
proof -
  have "unat d < 2 ^ 64" using unsigned_less [of d, where ?'a = nat] by simp
  moreover have "bit d 63 \<longleftrightarrow> odd (unat d div 2 ^ 63)"
    by (metis bit_iff_odd bit_unsigned_iff possible_bit_nat)
  moreover have "bit d 63 \<longleftrightarrow> sint d < 0"
    using bit_last_iff [of d] by simp
  moreover have "odd (n div 2 ^ 63) \<longleftrightarrow> \<not> n < 2 ^ 63" if "n < 2 ^ 64" for n :: nat
  proof -
    have "n div 2 ^ 63 = (if n < 2 ^ 63 then 0 else 1)" using that by auto
    thus ?thesis by simp
  qed
  ultimately show ?thesis by (auto simp: word_less_nat_alt not_less)
qed

lemma unat_backward: "unat (- (a + 1) :: u64) = 2 ^ 64 - 1 - unat a"
proof -
  have e: "- (a + 1) = - 1 - a" by simp
  have "unat (- 1 :: u64) = 2 ^ 64 - 1" by (simp add: unsigned_minus_1_eq_mask mask_eq_exp_minus_1)
  thus ?thesis unfolding e by (simp only: unat_sub word_order.extremum)
qed

lemma backward_code:
  "(- (a + 1) :: u64) = 0x8000000000000000 \<longleftrightarrow> a = 0x7fffffffffffffff"
  "(- (a + 1) :: u64) < 0x8000000000000000 \<longleftrightarrow> 0x7fffffffffffffff < a"
  using unsigned_less [of a, where ?'a = nat]
  by (auto simp only: word_unat_eq_iff word_less_nat_alt unat_backward) simp_all

lemma stream_id_code_roundtrip:
  "stream_id_of_code (stream_id_code s) = s \<longleftrightarrow> stream_id_ok s"
proof (cases s)
  case (Backward a)
  have "- (- (a + 1)) - 1 = a" by simp
  with Backward show ?thesis
    using backward_code [of a]
    by (auto simp: stream_id_of_code_def stream_id_code_def stream_id_ok_def sint_nonneg_iff
        simp del: minus_add_distrib)
qed (auto simp: stream_id_of_code_def stream_id_code_def stream_id_ok_def sint_nonneg_iff)

lemma hex_val_digit: "d < 16 \<Longrightarrow> hex_val (hex_digit d) = Some d"
  by (auto simp: hex_val_def hex_digit_def Let_def)

lemma hex_accum_append:
  "hex_accum a (s @ t) = (case hex_accum a s of Inl e \<Rightarrow> Inl e | Inr b \<Rightarrow> hex_accum b t)"
  by (induction s arbitrary: a) (auto split: option.splits)

lemma hex_accum_digits: "n < 2 ^ 64 \<Longrightarrow> hex_accum 0 (hex_digits n) = Inr n"
proof (induction n rule: hex_digits.induct)
  case (1 n)
  show ?case
  proof (cases "n < 16")
    case True thus ?thesis by (simp add: hex_digits.simps [of n] hex_val_digit)
  next
    case False
    with 1 have "hex_accum 0 (hex_digits (n div 16)) = Inr (n div 16)" by simp
    with False 1 show ?thesis
      by (simp add: hex_digits.simps [of n] hex_accum_append hex_val_digit)
  qed
qed

lemma hex_accum_zeros: "hex_accum 0 (replicate k CHR ''0'' @ s) = hex_accum 0 s"
  by (induction k) (simp_all add: hex_val_def Let_def)

definition is_hex :: "string \<Rightarrow> bool" where
  "is_hex s = (s \<noteq> [] \<and> list_all (\<lambda>c. hex_val c \<noteq> None) s)"

lemma hex_val_zero: "hex_val CHR ''0'' = Some 0"
  by (simp add: hex_val_def)

lemma is_hex_digits: "is_hex (hex_digits n)"
  by (induction n rule: hex_digits.induct)
    (subst hex_digits.simps, auto simp: is_hex_def hex_val_digit)

lemma is_hex08: "is_hex (hex08 a)"
  using is_hex_digits [of "unat a"]
  by (auto simp: hex08_def Let_def is_hex_def hex_val_zero list_all_iff)

lemma is_hex_hd: "is_hex s \<Longrightarrow> s \<noteq> [] \<and> hex_val (hd s) \<noteq> None"
  by (cases s) (simp_all add: is_hex_def)

lemma u64_from_hex08: "u64_from_str_radix16 (hex08 a) = Inr a"
proof -
  have "hex_accum 0 (hex08 a) = Inr (unat a)"
    using unsigned_less [of a, where ?'a = nat]
    by (simp add: hex08_def Let_def hex_accum_zeros hex_accum_digits)
  moreover have "hex08 a \<noteq> []" "hd (hex08 a) \<noteq> CHR ''+''" "hex08 a \<noteq> ''+''" "hex08 a \<noteq> ''-''"
    using is_hex08 [of a] is_hex_hd [of "hex08 a"] by (auto simp: hex_val_def)
  ultimately show ?thesis by (simp add: u64_from_str_radix16_def)
qed

lemma trim_start_prefix:
  "p \<noteq> [] \<Longrightarrow> \<not> starts_with p s \<Longrightarrow> trim_start_matches p (p @ s) = s"
  by (subst trim_start_matches.simps, subst trim_start_matches.simps)
    (simp add: starts_with_def)

lemma hex_no_prefix:
  assumes "is_hex s" and "\<exists>c \<in> set p. hex_val c = None"
  shows "\<not> starts_with p s"
proof
  assume "starts_with p s"
  hence "set p \<subseteq> set s" by (metis set_take_subset starts_with_def)
  with assms show False by (fastforce simp: is_hex_def list_all_iff)
qed

lemma hex08_no_prefix:
  "\<not> starts_with ''forward_'' (hex08 a)" "\<not> starts_with ''backward_'' (hex08 a)"
  by (rule hex_no_prefix [OF is_hex08]; simp add: hex_val_def)+

lemma stream_id_from_display: "stream_id_from_str (stream_id_display s) = Inr s"
proof (cases s)
  case (Forward a)
  have "trim_start_matches ''forward_'' (''forward_'' @ hex08 a) = hex08 a"
    by (rule trim_start_prefix) (simp_all add: hex08_no_prefix)
  with Forward show ?thesis
    by (simp add: stream_id_from_str_def stream_id_display_def starts_with_def u64_from_hex08)
next
  case (Backward a)
  have "trim_start_matches ''backward_'' (''backward_'' @ hex08 a) = hex08 a"
    by (rule trim_start_prefix) (simp_all add: hex08_no_prefix)
  with Backward show ?thesis
    by (simp add: stream_id_from_str_def stream_id_display_def starts_with_def u64_from_hex08)
qed (simp add: stream_id_from_str_def stream_id_display_def)

end
