(* ===== verification/Yamux.thy ===== *)
theory Yamux
  imports Framing Types
begin

text \<open>
  The yamux multiplexer (\<open>mina-recorder/src/connection/yamux.rs\<close>): the frame header and its
  byte form, the accumulator that cuts frames out of a chunked byte stream, the bookkeeping
  of open, half-closed and recently reset streams, and the handler that delivers the payload
  of data frames to the protocol of their stream and stores every other frame in the database.
\<close>

section \<open>Headers\<close>

datatype header_parse_error =
  NotSupportedVersion u8 | HeaderTypeError u8 | FlagsError u16 | UnknownErrorCode u32

datatype yamux_error = Protocol | Internal

text \<open>\<open>delta\<close> is an \<open>i32\<close>, here its bits. \<open>GoAway None\<close> is \<open>GoAway(Ok(()))\<close>.\<close>

datatype header_type =
  Data u32 | WindowUpdate u32 | Ping u32 | GoAway "yamux_error option"

definition SYN :: u16 where "SYN = 1"
definition ACK :: u16 where "ACK = 2"
definition FIN :: u16 where "FIN = 4"
definition RST :: u16 where "RST = 8"

definition header_flags_from_bits :: "u16 \<Rightarrow> u16 option" where
  "header_flags_from_bits b = (if and b (not (or (or SYN ACK) (or FIN RST))) = 0 then Some b else None)"

definition contains_flag :: "u16 \<Rightarrow> u16 \<Rightarrow> bool" where
  "contains_flag fs f = (and fs f = f)"

record header =
  h_version :: u8
  h_ty :: header_type
  h_flags :: u16
  h_stream_id :: u32

definition header_try_from :: "bytes \<Rightarrow> header_parse_error + header" where
  "header_try_from v =
     (let version = v ! 0 in
      if version \<noteq> 0 then Inl (NotSupportedVersion version)
      else
        let last = slice 8 12 v;
            ty = (if v ! 1 = 0 then Inr (Data (be_u32 last))
                  else if v ! 1 = 1 then Inr (WindowUpdate (be_u32 last))
                  else if v ! 1 = 2 then Inr (Ping (be_u32 last))
                  else if v ! 1 = 3 then
                    (let code = be_u32 last in
                     if code = 0 then Inr (GoAway None)
                     else if code = 1 then Inr (GoAway (Some Protocol))
                     else if code = 2 then Inr (GoAway (Some Internal))
                     else Inl (UnknownErrorCode code))
                  else Inl (HeaderTypeError (v ! 1)))
        in case ty of
             Inl e \<Rightarrow> Inl e
           | Inr t \<Rightarrow>
               (let bits = be_u16 (slice 2 4 v) in
                case header_flags_from_bits bits of
                  None \<Rightarrow> Inl (FlagsError bits)
                | Some f \<Rightarrow>
                    Inr \<lparr>h_version = version, h_ty = t, h_flags = f,
                         h_stream_id = be_u32 (slice 4 8 v)\<rparr>))"

definition header_to_bytes :: "header \<Rightarrow> bytes" where
  "header_to_bytes h =
     (let (t, last) = (case h_ty h of
            Data n \<Rightarrow> (0, u32_be n)
          | WindowUpdate d \<Rightarrow> (1, u32_be d)
          | Ping p \<Rightarrow> (2, u32_be p)
          | GoAway None \<Rightarrow> (3, u32_be 0)
          | GoAway (Some Protocol) \<Rightarrow> (3, u32_be 1)
          | GoAway (Some Internal) \<Rightarrow> (3, u32_be 2))
      in [h_version h, t] @ u16_be (h_flags h) @ u32_be (h_stream_id h) @ last)"

definition payload_length :: "header \<Rightarrow> nat" where
  "payload_length h = (case h_ty h of Data n \<Rightarrow> unat n | _ \<Rightarrow> 0)"

text \<open>The headers that the yamux wire format can express.\<close>

definition header_wf :: "header \<Rightarrow> bool" where
  "header_wf h = (h_version h = 0 \<and> header_flags_from_bits (h_flags h) \<noteq> None)"

section \<open>The accumulator\<close>

type_synonym yamux_output = "header_parse_error + (header \<times> bytes)"

definition yamux_accumulate :: "bytes \<Rightarrow> bytes \<Rightarrow> yamux_output poll \<times> bytes" where
  "yamux_accumulate acc bytes =
     (let offset = 12 in
      if acc = [] then
        (if offset \<le> length bytes then
           (case header_try_from (take offset bytes) of
              Inl err \<Rightarrow> (Ready (Inl err), acc)
            | Inr header \<Rightarrow>
                (let stop = offset + payload_length header in
                 if length bytes < stop then (Pending, acc @ bytes)
                 else if length bytes = stop then (Ready (Inr (header, drop offset bytes)), acc)
                 else (Ready (Inr (header, drop offset (take stop bytes))), drop stop bytes)))
         else (Pending, acc @ bytes))
      else
        (let acc = acc @ bytes in
         if offset \<le> length acc then
           (case header_try_from (take offset acc) of
              Inl err \<Rightarrow> (Ready (Inl err), acc)
            | Inr header \<Rightarrow>
                (let stop = offset + payload_length header in
                 if length acc < stop then (Pending, acc)
                 else if length acc = stop then (Ready (Inr (header, drop offset acc)), [])
                 else (Ready (Inr (header, slice offset stop acc)), drop stop acc)))
         else (Pending, acc)))"

section \<open>The state of a connection\<close>

record 'i yamux_state =
  y_incoming :: bytes
  y_outgoing :: bytes
  y_error :: bool
  y_inners :: "stream_id \<rightharpoonup> 'i status"
  y_recent_reset :: "stream_id list"

definition yamux_new :: "'i yamux_state" where
  "yamux_new = \<lparr>y_incoming = [], y_outgoing = [], y_error = False, y_inners = Map.empty,
     y_recent_reset = []\<rparr>"

definition yamux_from_name :: "string \<Rightarrow> 'i yamux_state option" where
  "yamux_from_name name = (if name = ''/coda/yamux/1.0.0'' then Some yamux_new else None)"

definition yamux_stream_id :: "u32 \<Rightarrow> stream_id" where
  "yamux_stream_id n =
     (if n = 0 then Handshake
      else if n mod 2 = 0 then Forward (ucast (n div 2))
      else Backward (ucast (n div 2)))"

definition yamux_acc :: "bool \<Rightarrow> 'i yamux_state \<Rightarrow> bytes" where
  "yamux_acc inc st = (if inc then y_incoming st else y_outgoing st)"

definition yamux_set_acc :: "bool \<Rightarrow> bytes \<Rightarrow> 'i yamux_state \<Rightarrow> 'i yamux_state" where
  "yamux_set_acc inc acc st = (if inc then st\<lparr>y_incoming := acc\<rparr> else st\<lparr>y_outgoing := acc\<rparr>)"

text \<open>The part of the loop body of \<open>process\<close> that reads the flags of one frame.\<close>

definition yamux_control :: "(stream_id \<Rightarrow> 'i) \<Rightarrow> bool \<Rightarrow> header \<Rightarrow> 'i yamux_state \<Rightarrow> 'i yamux_state" where
  "yamux_control mk inc h st =
     (let s = yamux_stream_id (h_stream_id h); fl = h_flags h in
      if contains_flag fl SYN then st\<lparr>y_inners := (y_inners st)(s \<mapsto> Duplex (mk s))\<rparr>
      else if contains_flag fl FIN then
        st\<lparr>y_inners :=
          (case y_inners st s of
             Some (Duplex i) \<Rightarrow>
               (y_inners st)(s \<mapsto> (if inc then OutgoingOnly i else IncomingOnly i))
           | _ \<Rightarrow> (y_inners st)(s := None))\<rparr>
      else if contains_flag fl RST then
        st\<lparr>y_recent_reset :=
             (if length (y_recent_reset st) = 512 then tl (y_recent_reset st)
              else y_recent_reset st) @ [s],
           y_inners := (y_inners st)(s := None)\<rparr>
      else st)"

text \<open>
  One turn of the loop of \<open>process\<close>, and the loop. It is a partial function: a header error
  leaves the accumulator as it is, so the same error may come up forever.
\<close>

definition yamux_turn ::
  "(stream_id \<Rightarrow> 'i) \<Rightarrow> bool \<Rightarrow> 'i yamux_state \<Rightarrow> bytes \<Rightarrow> yamux_output poll \<times> 'i yamux_state" where
  "yamux_turn mk inc st bytes =
     (let (p, acc) = yamux_accumulate (yamux_acc inc st) bytes;
          st1 = yamux_set_acc inc acc st
      in (p, case p of Ready (Inr (h, b)) \<Rightarrow> yamux_control mk inc h st1 | _ \<Rightarrow> st1))"

partial_function (option) yamux_loop ::
  "(stream_id \<Rightarrow> 'i) \<Rightarrow> bool \<Rightarrow> 'i yamux_state \<Rightarrow> bytes \<Rightarrow> yamux_output list
     \<Rightarrow> (yamux_output list \<times> 'i yamux_state) option" where
  "yamux_loop mk inc st bytes out =
     (let t = yamux_turn mk inc st bytes in
      if fst t = Pending then Some (out, snd t)
      else yamux_loop mk inc (snd t) [] (out @ (case fst t of Ready r \<Rightarrow> [r] | Pending \<Rightarrow> [])))"

definition yamux_process ::
  "(stream_id \<Rightarrow> 'i) \<Rightarrow> bool \<Rightarrow> 'i yamux_state \<Rightarrow> bytes \<Rightarrow> (yamux_output list \<times> 'i yamux_state) option" where
  "yamux_process mk inc st bytes = yamux_loop mk inc st bytes []"

section \<open>The handler\<close>

definition yamux_deliver ::
  "('e, 'w) db_ops \<Rightarrow> (stream_id \<Rightarrow> 'i) \<Rightarrow> ('e, 'i, 'w) on_data \<Rightarrow> directed_id \<Rightarrow> header \<Rightarrow> bytes
     \<Rightarrow> 'i yamux_state \<Rightarrow> 'w \<Rightarrow> ('e, unit) outcome \<times> 'i yamux_state \<times> 'w" where
  "yamux_deliver db mk inner did h bytes st w =
     (let s = yamux_stream_id (h_stream_id h) in
      case h_ty h of
        Data _ \<Rightarrow>
          (case y_inners st s of
             Some x \<Rightarrow>
               (let (r, i, w) = inner did bytes (as_mut x) w
                in (r, st\<lparr>y_inners := (y_inners st)(s \<mapsto> set_status i x)\<rparr>, db_drop db w))
           | None \<Rightarrow>
               if s \<notin> set (y_recent_reset st) then
                 (let (r, i, w) = inner did bytes (mk s) w
                  in (r, (case r of
                            Done _ \<Rightarrow> st\<lparr>y_inners := (y_inners st)(s \<mapsto> Duplex i)\<rparr>
                          | _ \<Rightarrow> st), db_drop db w))
               else (Done (), st, db_drop db w))
      | _ \<Rightarrow>
          (let (r, w) = db_add db s did Kind_Yamux (header_to_bytes h) w
           in (map_outcome id (\<lambda>_. ()) r, st, db_drop db w)))"

fun yamux_deliver_all ::
  "('e, 'w) db_ops \<Rightarrow> (stream_id \<Rightarrow> 'i) \<Rightarrow> ('e, 'i, 'w) on_data \<Rightarrow> directed_id \<Rightarrow> yamux_output list
     \<Rightarrow> 'i yamux_state \<Rightarrow> 'w \<Rightarrow> ('e, unit) outcome \<times> 'i yamux_state \<times> 'w" where
  "yamux_deliver_all db mk inner did [] st w = (Done (), st, w)"
| "yamux_deliver_all db mk inner did (Inl e # rs) st w = (Done (), st\<lparr>y_error := True\<rparr>, w)"
| "yamux_deliver_all db mk inner did (Inr (h, bs) # rs) st w =
     (let (r, st, w) = yamux_deliver db mk inner did h bs st w in
      case r of Done _ \<Rightarrow> yamux_deliver_all db mk inner did rs st w | _ \<Rightarrow> (r, st, w))"

definition yamux_on_data ::
  "('e, 'w) db_ops \<Rightarrow> (stream_id \<Rightarrow> 'i) \<Rightarrow> ('e, 'i, 'w) on_data \<Rightarrow> ('e, 'i yamux_state, 'w) on_data" where
  "yamux_on_data db mk inner did bytes st w =
     (if y_error st then (Done (), st, w)
      else case yamux_process mk (incoming did) st bytes of
             None \<Rightarrow> (Hang, st, w)
           | Some (rs, st) \<Rightarrow> yamux_deliver_all db mk inner did rs st w)"

section \<open>Headers can be written and read back\<close>

lemma flags_from_bits_eq: "header_flags_from_bits b = Some f \<Longrightarrow> f = b"
  by (simp add: header_flags_from_bits_def split: if_splits)

lemma flags_from_bits_idem: "header_flags_from_bits b = Some f \<Longrightarrow> header_flags_from_bits f = Some f"
  by (simp add: header_flags_from_bits_def split: if_splits)

lemma length_header_to_bytes [simp]: "length (header_to_bytes h) = 12"
  by (simp add: header_to_bytes_def Let_def split: header_type.split option.split yamux_error.split)

lemma header_parse_print:
  assumes "header_wf h"
  shows "header_try_from (header_to_bytes h @ r) = Inr h"
proof -
  from assms have v: "h_version h = 0" and "header_flags_from_bits (h_flags h) = Some (h_flags h)"
    by (auto simp: header_wf_def dest: flags_from_bits_eq)
  moreover obtain vv t f s where "h = \<lparr>h_version = vv, h_ty = t, h_flags = f, h_stream_id = s\<rparr>"
    by (cases h)
  ultimately show ?thesis
    by (simp add: header_try_from_def header_to_bytes_def slice_def Let_def
        split: header_type.split option.split yamux_error.split)
qed

lemma header_slices: 
  assumes "length bs = 12"
  shows "bs = [bs ! 0, bs ! 1] @ slice 2 4 bs @ slice 4 8 bs @ slice 8 12 bs"
proof -
  from assms obtain a b c d e f g h i j k l where "bs = [a,b,c,d,e,f,g,h,i,j,k,l]"
    by (auto simp: length_Suc_conv numeral_eq_Suc)
  thus ?thesis by (simp add: slice_def)
qed

lemma header_print_parse:
  assumes "length bs = 12" and "header_try_from bs = Inr h"
  shows "header_to_bytes h = bs"
proof -
  have "length (slice 2 4 bs) = 2" "length (slice 4 8 bs) = 4" "length (slice 8 12 bs) = 4"
    using assms(1) by simp_all
  hence "u16_be (be_u16 (slice 2 4 bs)) = slice 2 4 bs" "u32_be (be_u32 (slice 4 8 bs)) = slice 4 8 bs"
    "u32_be (be_u32 (slice 8 12 bs)) = slice 8 12 bs"
    by (simp_all add: u16_be_be_u16 u32_be_be_u32)
  with assms(2) show ?thesis
    by (subst header_slices [OF assms(1)])
      (auto simp: header_try_from_def header_to_bytes_def Let_def
        split: if_splits option.splits sum.splits dest: flags_from_bits_eq sym)
qed

lemma header_try_from_wf: "header_try_from bs = Inr h \<Longrightarrow> header_wf h"
  by (auto simp: header_try_from_def header_wf_def Let_def
      split: if_splits option.splits sum.splits dest: flags_from_bits_idem)

section \<open>Frames\<close>

text \<open>The frame at the start of a buffer, and the error that the header there has.\<close>

definition yamux_frame :: "bytes \<Rightarrow> ((header \<times> bytes) \<times> nat) option" where
  "yamux_frame bs =
     (if length bs < 12 then None
      else case header_try_from (take 12 bs) of
             Inl e \<Rightarrow> None
           | Inr h \<Rightarrow>
               if length bs < 12 + payload_length h then None
               else Some ((h, slice 12 (12 + payload_length h) bs), 12 + payload_length h))"

definition yamux_bad_header :: "bytes \<Rightarrow> header_parse_error option" where
  "yamux_bad_header bs =
     (if length bs < 12 then None
      else case header_try_from (take 12 bs) of Inl e \<Rightarrow> Some e | Inr h \<Rightarrow> None)"

definition yamux_emit :: "header \<times> bytes \<Rightarrow> bytes" where
  "yamux_emit m = header_to_bytes (fst m) @ snd m"

definition yamux_frame_wf :: "header \<times> bytes \<Rightarrow> bool" where
  "yamux_frame_wf m = (header_wf (fst m) \<and> length (snd m) = payload_length (fst m))"

lemma yamux_frame_SomeD:
  "yamux_frame bs = Some ((h, p), n) \<Longrightarrow>
     12 \<le> length bs \<and> header_try_from (take 12 bs) = Inr h \<and> n = 12 + payload_length h \<and>
     n \<le> length bs \<and> p = slice 12 n bs"
  by (auto simp: yamux_frame_def split: if_splits sum.splits)

interpretation yx: frame_codec yamux_frame yamux_emit yamux_frame_wf
proof unfold_locales
  fix bs ys r :: bytes and m :: "header \<times> bytes" and n
  obtain h p where m: "m = (h, p)" by (cases m)
  show "0 < n \<and> n \<le> length bs" if "yamux_frame bs = Some (m, n)"
    using yamux_frame_SomeD [of bs h p n] that m by auto
  show "yamux_frame (bs @ ys) = Some (m, n)" if "yamux_frame bs = Some (m, n)"
    using yamux_frame_SomeD [of bs h p n] that m by (simp add: yamux_frame_def)
  show "yamux_emit m = take n bs" if "yamux_frame bs = Some (m, n)"
    using yamux_frame_SomeD [of bs h p n] that m header_print_parse [of "take 12 bs" h]
    by (simp add: yamux_emit_def slice_def take_add [symmetric])
  show "yamux_frame (yamux_emit m @ r) = Some (m, length (yamux_emit m))" if "yamux_frame_wf m"
    using that m header_parse_print [of h "[]"]
    by (simp add: yamux_frame_def yamux_frame_wf_def yamux_emit_def slice_def)
qed

section \<open>What \<open>process\<close> computes\<close>

text \<open>The accumulator on the buffered and the new bytes together.\<close>

lemma yamux_accumulate_eq:
  "yamux_accumulate acc bytes =
     (case yamux_bad_header (acc @ bytes) of
        Some e \<Rightarrow> (Ready (Inl e), if acc = [] then [] else acc @ bytes)
      | None \<Rightarrow>
          (case yamux_frame (acc @ bytes) of
             Some (m, n) \<Rightarrow> (Ready (Inr m), drop n (acc @ bytes))
           | None \<Rightarrow> (Pending, acc @ bytes)))"
  by (cases "acc = []")
    (auto simp: yamux_accumulate_def yamux_bad_header_def yamux_frame_def slice_def Let_def drop_take
      split: sum.split)

lemma yamux_control_set_acc:
  "yamux_control mk inc h (yamux_set_acc inc' a st) = yamux_set_acc inc' a (yamux_control mk inc h st)"
  by (simp add: yamux_control_def yamux_set_acc_def Let_def split: option.split status.split)

lemma yamux_acc_simps [simp]:
  "yamux_acc inc (yamux_set_acc inc a st) = a"
  "yamux_set_acc inc a (yamux_set_acc inc b st) = yamux_set_acc inc a st"
  "yamux_set_acc inc (yamux_acc inc st) st = st"
  by (simp_all add: yamux_acc_def yamux_set_acc_def)

definition yamux_controls ::
  "(stream_id \<Rightarrow> 'i) \<Rightarrow> bool \<Rightarrow> (header \<times> bytes) list \<Rightarrow> 'i yamux_state \<Rightarrow> 'i yamux_state" where
  "yamux_controls mk inc fs = fold (\<lambda>(h, b). yamux_control mk inc h) fs"

lemma yamux_controls_Cons:
  "yamux_controls mk inc ((h, p) # fs) st = yamux_controls mk inc fs (yamux_control mk inc h st)"
  by (simp add: yamux_controls_def)

lemma yamux_controls_set_acc:
  "yamux_controls mk inc fs (yamux_set_acc inc' a st) = yamux_set_acc inc' a (yamux_controls mk inc fs st)"
  by (induction fs arbitrary: st) (auto simp: yamux_controls_def yamux_control_set_acc)

lemma yamux_turn_frame:
  assumes "drain yamux_frame (yamux_acc inc st @ bytes) = ((h, p) # fs, r)"
  obtains r' where
    "yamux_turn mk inc st bytes =
       (Ready (Inr (h, p)), yamux_set_acc inc r' (yamux_control mk inc h st))"
    and "drain yamux_frame r' = (fs, r)"
proof -
  let ?buf = "yamux_acc inc st @ bytes"
  from assms obtain n where f: "yamux_frame ?buf = Some ((h, p), n)"
    and d: "drain yamux_frame (drop n ?buf) = (fs, r)"
    by (auto simp: drain.simps [of yamux_frame ?buf] split: option.splits prod.splits if_splits)
  from f have "yamux_bad_header ?buf = None"
    by (auto simp: yamux_frame_def yamux_bad_header_def split: if_splits sum.splits)
  with f have "yamux_turn mk inc st bytes =
      (Ready (Inr (h, p)), yamux_set_acc inc (drop n ?buf) (yamux_control mk inc h st))"
    by (simp add: yamux_turn_def yamux_accumulate_eq yamux_control_set_acc)
  with d that show thesis by blast
qed

lemma yamux_loop_good:
  assumes "drain yamux_frame (yamux_acc inc st @ bytes) = (fs, r)" and "yamux_bad_header r = None"
  shows "yamux_loop mk inc st bytes out =
    Some (out @ map Inr fs, yamux_set_acc inc r (yamux_controls mk inc fs st))"
  using assms
proof (induction fs arbitrary: st bytes out)
  case Nil
  hence "yamux_frame (yamux_acc inc st @ bytes) = None" and r: "r = yamux_acc inc st @ bytes"
    by (simp_all add: yx.drain_Nil)
  with Nil.prems(2) show ?case
    by (subst yamux_loop.simps)
      (simp add: yamux_turn_def yamux_accumulate_eq yamux_controls_def Let_def)
next
  case (Cons m fs)
  obtain h p where m: "m = (h, p)" by (cases m)
  from yamux_turn_frame [OF Cons.prems(1) [unfolded m], of mk] obtain r' where
    t: "yamux_turn mk inc st bytes = (Ready (Inr m), yamux_set_acc inc r' (yamux_control mk inc h st))"
    and d: "drain yamux_frame r' = (fs, r)" by (auto simp: m)
  have "drain yamux_frame (yamux_acc inc (snd (yamux_turn mk inc st bytes)) @ []) = (fs, r)"
    using d by (simp add: t)
  from Cons.IH [OF this Cons.prems(2), of "out @ [Inr m]"] show ?case
    by (subst yamux_loop.simps) (simp add: t m yamux_controls_Cons yamux_controls_set_acc Let_def)
qed

text \<open>A bad header behind buffered bytes comes up again in every turn.\<close>

lemma yamux_loop_stuck:
  assumes "yamux_loop mk inc st bytes out = Some y"
  shows "\<not> (yamux_acc inc st \<noteq> [] \<and> yamux_bad_header (yamux_acc inc st @ bytes) \<noteq> None)"
proof (rule yamux_loop.raw_induct [where P = "\<lambda>mk inc st bytes out y.
    \<not> (yamux_acc inc st \<noteq> [] \<and> yamux_bad_header (yamux_acc inc st @ bytes) \<noteq> None)", OF _ assms])
  fix loop mk inc and st :: "'a yamux_state" and bytes out y
  assume IH: "\<And>(mk :: stream_id \<Rightarrow> 'a) inc st bytes out y. loop mk inc st bytes out = Some y \<Longrightarrow>
      \<not> (yamux_acc inc st \<noteq> [] \<and> yamux_bad_header (yamux_acc inc st @ bytes) \<noteq> None)"
    and step: "(let t = yamux_turn mk inc st bytes in
      if fst t = Pending then Some (out, snd t)
      else loop mk inc (snd t) [] (out @ (case fst t of Pending \<Rightarrow> [] | Ready r \<Rightarrow> [r]))) = Some y"
  show "\<not> (yamux_acc inc st \<noteq> [] \<and> yamux_bad_header (yamux_acc inc st @ bytes) \<noteq> None)"
  proof
    assume bad: "yamux_acc inc st \<noteq> [] \<and> yamux_bad_header (yamux_acc inc st @ bytes) \<noteq> None"
    then obtain e where e: "yamux_bad_header (yamux_acc inc st @ bytes) = Some e" by auto
    hence "yamux_turn mk inc st bytes =
        (Ready (Inl e), yamux_set_acc inc (yamux_acc inc st @ bytes) st)"
      using bad by (simp add: yamux_turn_def yamux_accumulate_eq)
    with step have "loop mk inc (yamux_set_acc inc (yamux_acc inc st @ bytes) st) [] (out @ [Inl e]) = Some y"
      by simp
    from IH [OF this] bad show False by simp
  qed
qed

lemma yamux_loop_bad:
  assumes "drain yamux_frame (yamux_acc inc st @ bytes) = (fs, r)" and "yamux_bad_header r \<noteq> None"
    and "yamux_acc inc st \<noteq> [] \<or> fs \<noteq> []"
  shows "yamux_loop mk inc st bytes out = None"
  using assms
proof (induction fs arbitrary: st bytes out)
  case Nil
  hence "r = yamux_acc inc st @ bytes" by (simp add: yx.drain_Nil)
  with Nil yamux_loop_stuck [of mk inc st bytes out] show ?case by (cases "yamux_loop mk inc st bytes out") auto
next
  case (Cons m fs)
  obtain h p where m: "m = (h, p)" by (cases m)
  from yamux_turn_frame [OF Cons.prems(1) [unfolded m], of mk] obtain r' where
    t: "yamux_turn mk inc st bytes = (Ready (Inr m), yamux_set_acc inc r' (yamux_control mk inc h st))"
    and d: "drain yamux_frame r' = (fs, r)" by (auto simp: m)
  let ?st = "snd (yamux_turn mk inc st bytes)"
  have d': "drain yamux_frame (yamux_acc inc ?st @ []) = (fs, r)" using d by (simp add: t)
  have "yamux_acc inc ?st \<noteq> [] \<or> fs \<noteq> []"
  proof (rule ccontr)
    assume "\<not> ?thesis"
    with d' have "r = []" by (simp add: drain.simps yamux_frame_def)
    with Cons.prems(2) show False by (simp add: yamux_bad_header_def)
  qed
  from Cons.IH [OF d' Cons.prems(2) this] show ?case
    by (subst yamux_loop.simps) (simp add: t Let_def)
qed

lemma yamux_process_eq:
  "yamux_process mk inc st bytes =
     (case drain yamux_frame (yamux_acc inc st @ bytes) of
        (fs, r) \<Rightarrow>
          (case yamux_bad_header r of
             None \<Rightarrow> Some (map Inr fs, yamux_set_acc inc r (yamux_controls mk inc fs st))
           | Some e \<Rightarrow>
               if yamux_acc inc st = [] \<and> fs = [] then Some ([Inl e], st) else None))"
proof -
  obtain fs r where d: "drain yamux_frame (yamux_acc inc st @ bytes) = (fs, r)" by fastforce
  show ?thesis
  proof (cases "yamux_bad_header r")
    case None
    thus ?thesis using yamux_loop_good [OF d None] d by (simp add: yamux_process_def)
  next
    case (Some e)
    show ?thesis
    proof (cases "yamux_acc inc st = [] \<and> fs = []")
      case True
      hence r: "r = bytes" using d by (simp add: yx.drain_Nil)
      with True Some have t: "yamux_turn mk inc st bytes = (Ready (Inl e), yamux_set_acc inc [] st)"
        by (simp add: yamux_turn_def yamux_accumulate_eq)
      have "yamux_set_acc inc [] st = st" using yamux_acc_simps(3) [of inc st] True by simp
      moreover have "drain yamux_frame (yamux_acc inc st @ []) = ([], [])"
        using True by (simp add: drain.simps yamux_frame_def)
      hence "yamux_loop mk inc st [] [Inl e] = Some ([Inl e], st)"
        using yamux_loop_good [of inc st "[]" "[]" "[]" mk "[Inl e]"] calculation
        by (simp add: yamux_bad_header_def yamux_controls_def)
      ultimately show ?thesis using True Some d
        by (simp add: yamux_process_def yamux_loop.simps [of mk inc st bytes] t)
    next
      case False
      with yamux_loop_bad [OF d] Some d show ?thesis by (simp add: yamux_process_def)
    qed
  qed
qed

section \<open>The invariant of a connection\<close>

text \<open>
  At most 512 recently reset streams are remembered, and between two calls neither buffer
  holds a complete frame.
\<close>

definition yamux_inv :: "'i yamux_state \<Rightarrow> bool" where
  "yamux_inv st = (length (y_recent_reset st) \<le> 512 \<and>
     yamux_frame (y_incoming st) = None \<and> yamux_frame (y_outgoing st) = None)"

lemma yamux_control_inv: "yamux_inv st \<Longrightarrow> yamux_inv (yamux_control mk inc h st)"
  by (auto simp: yamux_inv_def yamux_control_def yamux_acc_def Let_def
      split: if_splits option.split status.split)

lemma yamux_controls_inv: "yamux_inv st \<Longrightarrow> yamux_inv (yamux_controls mk inc fs st)"
  by (induction fs arbitrary: st) (auto simp: yamux_controls_def yamux_control_inv)

lemma yamux_set_acc_inv: "yamux_inv st \<Longrightarrow> yamux_frame a = None \<Longrightarrow> yamux_inv (yamux_set_acc inc a st)"
  by (auto simp: yamux_inv_def yamux_set_acc_def yamux_acc_def)

lemma yamux_process_inv:
  "yamux_process mk inc st bytes = Some (rs, st') \<Longrightarrow> yamux_inv st \<Longrightarrow> yamux_inv st'"
  using yx.drain_rest [of "yamux_acc inc st @ bytes"]
  by (auto simp: yamux_process_eq yamux_set_acc_inv yamux_controls_inv
      split: prod.splits option.splits if_splits)

lemma yamux_deliver_frame:
  "\<exists>m. fst (snd (yamux_deliver db mk inner did h bs st w)) = st\<lparr>y_inners := m\<rparr>"
proof -
  have [simp]: "\<exists>m. st = st\<lparr>y_inners := m\<rparr>" by (rule exI [of _ "y_inners st"]) simp
  have [simp]: "\<exists>m. st\<lparr>y_inners := k\<rparr> = st\<lparr>y_inners := m\<rparr>" for k by blast
  show ?thesis
    by (cases "h_ty h"; cases "y_inners st (yamux_stream_id (h_stream_id h))")
      (simp_all add: yamux_deliver_def split_beta Let_def split: outcome.split)
qed

lemma yamux_deliver_inv: "yamux_inv st \<Longrightarrow> yamux_inv (fst (snd (yamux_deliver db mk inner did h bs st w)))"
  using yamux_deliver_frame [of db mk inner did h bs st w] by (auto simp: yamux_inv_def)

lemma yamux_deliver_all_inv:
  "yamux_inv st \<Longrightarrow> yamux_inv (fst (snd (yamux_deliver_all db mk inner did rs st w)))"
proof (induction db mk inner did rs st w rule: yamux_deliver_all.induct)
  case (3 db mk inner did h bs rs st w)
  thus ?case using yamux_deliver_inv [OF 3(2), of db mk inner did h bs w]
    by (auto split: prod.splits outcome.splits)
qed (auto simp: yamux_inv_def yamux_acc_def)

section \<open>Chunks\<close>

fun yamux_process_chunks ::
  "(stream_id \<Rightarrow> 'i) \<Rightarrow> bool \<Rightarrow> 'i yamux_state \<Rightarrow> bytes list \<Rightarrow> (yamux_output list \<times> 'i yamux_state) option" where
  "yamux_process_chunks mk inc st [] = Some ([], st)"
| "yamux_process_chunks mk inc st (c # cs) =
     (case yamux_process mk inc st c of
        None \<Rightarrow> None
      | Some (o1, st) \<Rightarrow>
          (case yamux_process_chunks mk inc st cs of
             None \<Rightarrow> None
           | Some (o2, st) \<Rightarrow> Some (o1 @ o2, st)))"

lemma yamux_bad_header_extend:
  assumes "yamux_bad_header r = Some e"
  shows "drain yamux_frame (r @ b) = ([], r @ b) \<and> yamux_bad_header (r @ b) = Some e"
proof -
  have "yamux_bad_header (r @ b) = Some e" and "yamux_frame (r @ b) = None"
    using assms by (auto simp: yamux_bad_header_def yamux_frame_def split: if_splits sum.splits)
  thus ?thesis by (simp add: drain_None)
qed

lemma yamux_controls_append:
  "yamux_controls mk inc (fs @ gs) st = yamux_controls mk inc gs (yamux_controls mk inc fs st)"
  by (simp add: yamux_controls_def)

lemma yamux_chunks_eq:
  assumes "yamux_frame (yamux_acc inc st) = None"
    and "drain yamux_frame (yamux_acc inc st @ concat cs) = (fs, r)" and "yamux_bad_header r = None"
  shows "yamux_process_chunks mk inc st cs =
    Some (map Inr fs, yamux_set_acc inc r (yamux_controls mk inc fs st))"
  using assms
proof (induction cs arbitrary: st fs)
  case Nil
  thus ?case using yamux_acc_simps(3) [of inc st] by (auto simp: drain_None yamux_controls_def)
next
  case (Cons c cs)
  obtain f1 r1 where d1: "drain yamux_frame (yamux_acc inc st @ c) = (f1, r1)" by fastforce
  obtain f2 r2 where d2: "drain yamux_frame (r1 @ concat cs) = (f2, r2)" by fastforce
  from yx.drain_append [of "yamux_acc inc st @ c" "concat cs"] Cons.prems(2) d1 d2
  have fs: "fs = f1 @ f2" "r = r2" by simp_all
  have "yamux_bad_header r1 = None"
    using yamux_bad_header_extend [of r1] d2 fs Cons.prems(3) by (cases "yamux_bad_header r1") auto
  hence p: "yamux_process mk inc st c = Some (map Inr f1, yamux_set_acc inc r1 (yamux_controls mk inc f1 st))"
    by (simp add: yamux_process_eq d1)
  have "yamux_frame r1 = None" using yx.drain_rest [of "yamux_acc inc st @ c"] d1 by simp
  with Cons.IH [of "yamux_set_acc inc r1 (yamux_controls mk inc f1 st)" f2] Cons.prems(3) d2 fs
  show ?case by (simp add: p yamux_controls_set_acc yamux_controls_append)
qed

section \<open>Frame by frame\<close>

text \<open>
  The reference: every frame takes effect when its turn comes, first its flags, then its
  payload. The code reads the flags of all frames of a chunk before it delivers the first
  payload, which makes no difference when no flag comes late: after a data frame of a stream
  no later frame of the same chunk opens, closes or resets that stream, and no later frame
  resets any stream.
\<close>

fun yamux_sequential ::
  "('e, 'w) db_ops \<Rightarrow> (stream_id \<Rightarrow> 'i) \<Rightarrow> ('e, 'i, 'w) on_data \<Rightarrow> directed_id \<Rightarrow> (header \<times> bytes) list
     \<Rightarrow> 'i yamux_state \<Rightarrow> 'w \<Rightarrow> ('e, unit) outcome \<times> 'i yamux_state \<times> 'w" where
  "yamux_sequential db mk inner did [] st w = (Done (), st, w)"
| "yamux_sequential db mk inner did ((h, bs) # fs) st w =
     (let (r, st, w) = yamux_deliver db mk inner did h bs (yamux_control mk (incoming did) h st) w in
      case r of Done _ \<Rightarrow> yamux_sequential db mk inner did fs st w | _ \<Rightarrow> (r, st, w))"

definition is_data :: "header \<Rightarrow> bool" where
  "is_data h = (case h_ty h of Data _ \<Rightarrow> True | _ \<Rightarrow> False)"

definition no_flag :: "header \<Rightarrow> bool" where
  "no_flag h = (\<not> contains_flag (h_flags h) SYN \<and> \<not> contains_flag (h_flags h) FIN \<and>
     \<not> contains_flag (h_flags h) RST)"

definition not_late :: "header \<Rightarrow> header \<Rightarrow> bool" where
  "not_late h h' = (is_data h \<longrightarrow> no_flag h' \<or>
     (yamux_stream_id (h_stream_id h) \<noteq> yamux_stream_id (h_stream_id h') \<and>
      (contains_flag (h_flags h') SYN \<or> contains_flag (h_flags h') FIN)))"

fun no_late_flag :: "(header \<times> bytes) list \<Rightarrow> bool" where
  "no_late_flag [] = True"
| "no_late_flag ((h, bs) # fs) = (list_all (\<lambda>(h', _). not_late h h') fs \<and> no_late_flag fs)"

lemma yamux_control_upd:
  assumes "contains_flag (h_flags h) SYN \<or> contains_flag (h_flags h) FIN"
  obtains g where
    "\<And>st. yamux_control mk inc h st =
       st\<lparr>y_inners := (y_inners st)(yamux_stream_id (h_stream_id h) :=
         g (y_inners st (yamux_stream_id (h_stream_id h))))\<rparr>"
proof (cases "contains_flag (h_flags h) SYN")
  case True
  show thesis by (rule that [of "\<lambda>_. Some (Duplex (mk (yamux_stream_id (h_stream_id h))))"])
      (simp add: yamux_control_def True Let_def)
next
  case False
  show thesis
    by (rule that [of "\<lambda>x. case x of Some (Duplex i) \<Rightarrow>
          Some (if inc then OutgoingOnly i else IncomingOnly i) | _ \<Rightarrow> None"])
      (use False assms in \<open>simp add: yamux_control_def Let_def split: option.split status.split\<close>)
qed

lemma yamux_deliver_control:
  assumes "not_late h h'"
  shows "yamux_deliver db mk inner did h bs (yamux_control mk inc h' st) w =
    (let (r, st, w) = yamux_deliver db mk inner did h bs st w in (r, yamux_control mk inc h' st, w))"
proof -
  let ?s = "yamux_stream_id (h_stream_id h)" and ?s' = "yamux_stream_id (h_stream_id h')"
  consider (nodata) "\<not> is_data h" | (noflag) "no_flag h'"
    | (other) "?s \<noteq> ?s'" "contains_flag (h_flags h') SYN \<or> contains_flag (h_flags h') FIN"
    using assms by (auto simp: not_late_def)
  thus ?thesis
  proof cases
    case nodata
    thus ?thesis by (cases "h_ty h") (simp_all add: is_data_def yamux_deliver_def Let_def split_beta)
  next
    case noflag
    hence "yamux_control mk inc h' x = x" for x
      by (simp add: no_flag_def yamux_control_def Let_def)
    thus ?thesis by (simp add: split_beta)
  next
    case other
    from yamux_control_upd [OF other(2), of mk inc] obtain g where
      g: "\<And>st. yamux_control mk inc h' st = st\<lparr>y_inners := (y_inners st)(?s' := g (y_inners st ?s'))\<rparr>"
      by blast
    show ?thesis
      using other(1) unfolding g
      by (cases "h_ty h"; cases "y_inners st ?s")
        (simp_all add: yamux_deliver_def Let_def split_beta fun_upd_twist split: outcome.split)
  qed
qed

lemma yamux_deliver_controls:
  "list_all (\<lambda>(h', _). not_late h h') fs \<Longrightarrow>
   yamux_deliver db mk inner did h bs (yamux_controls mk inc fs st) w =
    (let (r, st, w) = yamux_deliver db mk inner did h bs st w in (r, yamux_controls mk inc fs st, w))"
  by (induction fs arbitrary: st)
    (auto simp: yamux_controls_def yamux_deliver_control split_beta Let_def)

lemma yamux_deliver_set_acc:
  "yamux_deliver db mk inner did h bs (yamux_set_acc inc a st) w =
    (let (r, st, w) = yamux_deliver db mk inner did h bs st w in (r, yamux_set_acc inc a st, w))"
  by (cases "h_ty h"; cases "y_inners st (yamux_stream_id (h_stream_id h))"; cases inc)
    (simp_all add: yamux_deliver_def yamux_set_acc_def Let_def split_beta split: outcome.split)

lemma yamux_deliver_all_sequential:
  assumes "no_late_flag fs" and "yamux_sequential db mk inner did fs st w = (Done (), st', w')"
  shows "yamux_deliver_all db mk inner did (map Inr fs)
    (yamux_set_acc inc r (yamux_controls mk (incoming did) fs st)) w = (Done (), yamux_set_acc inc r st', w')"
  using assms
proof (induction fs arbitrary: st w)
  case Nil
  thus ?case by (simp add: yamux_controls_def)
next
  case (Cons m fs)
  obtain h p where m: "m = (h, p)" by (cases m)
  obtain o1 st1 w1 where d: "yamux_deliver db mk inner did h p
      (yamux_control mk (incoming did) h st) w = (o1, st1, w1)"
    by (cases "yamux_deliver db mk inner did h p (yamux_control mk (incoming did) h st) w")
  with Cons.prems(2) m have o1: "o1 = Done ()"
    and "yamux_sequential db mk inner did fs st1 w1 = (Done (), st', w')"
    by (auto split: outcome.splits)
  with Cons m have "yamux_deliver_all db mk inner did (map Inr fs)
    (yamux_set_acc inc r (yamux_controls mk (incoming did) fs st1)) w1 = (Done (), yamux_set_acc inc r st', w')"
    by simp
  with Cons.prems(1) m d o1 show ?case
    by (simp add: yamux_controls_Cons yamux_deliver_set_acc yamux_deliver_controls)
qed

section \<open>Properties\<close>

text \<open>C33: A 12-byte block parses to a header exactly when the header is well formed (version 0, no
  unknown flag) and is written as these bytes: parsing and printing of yamux headers are inverse
  to each other.\<close>

theorem yamux_header_codec:
  assumes "length bs = 12"
  shows "header_try_from bs = Inr h \<longleftrightarrow> header_wf h \<and> header_to_bytes h = bs"
  using assms header_try_from_wf header_print_parse header_parse_print [of h "[]"] by auto

theorem yamux_header_codec_witness:
  "header_try_from [0, 0, 0, 1, 0, 0, 0, 5, 0, 0, 1, 2] =
     Inr \<lparr>h_version = 0, h_ty = Data 258, h_flags = SYN, h_stream_id = 5\<rparr>"
  by (subst yamux_header_codec) code_simp+

text \<open>C2: \<open>process\<close> completely: it cuts all complete frames off the buffered and the new bytes,
  applies their flags in order and keeps the rest. A header that cannot be parsed is reported
  once when it is the very start of a chunk and nothing is buffered; in any other position the
  loop never ends.\<close>

theorem yamux_process_spec:
  "yamux_process mk inc st bytes =
     (case drain yamux_frame (yamux_acc inc st @ bytes) of
        (fs, r) \<Rightarrow>
          (case yamux_bad_header r of
             None \<Rightarrow> Some (map Inr fs, yamux_set_acc inc r (yamux_controls mk inc fs st))
           | Some e \<Rightarrow>
               if yamux_acc inc st = [] \<and> fs = [] then Some ([Inl e], st) else None))"
  by (rule yamux_process_eq)

text \<open>C3: However the byte stream of a sequence of well-formed frames is cut into chunks, the
  calls of \<open>process\<close> on a new connection return, and together they give exactly these frames in
  order, with nothing left in the buffer.\<close>

theorem yamux_process_roundtrip:
  fixes mk :: "stream_id \<Rightarrow> 'i"
  assumes "\<forall>m \<in> set fs. yamux_frame_wf m" and "concat cs = concat (map yamux_emit fs)"
  shows "yamux_process_chunks mk inc yamux_new cs =
    Some (map Inr fs, yamux_controls mk inc fs yamux_new)"
proof -
  have "yamux_acc inc (yamux_new :: 'i yamux_state) = []" by (simp add: yamux_new_def yamux_acc_def)
  moreover have "yamux_frame [] = None" "yamux_bad_header [] = None"
    by (simp_all add: yamux_frame_def yamux_bad_header_def)
  moreover have "drain yamux_frame (concat (map yamux_emit fs)) = (fs, [])"
    using yx.drain_emit [OF assms(1), of "[]"] calculation by simp
  moreover have "yamux_set_acc inc [] (yamux_controls mk inc fs yamux_new) = yamux_controls mk inc fs yamux_new"
    by (metis calculation(1) yamux_acc_simps(3) yamux_controls_set_acc)
  ultimately show ?thesis using yamux_chunks_eq [of inc yamux_new cs fs "[]" mk] assms(2) by simp
qed

theorem yamux_process_roundtrip_witness:
  "yamux_process_chunks (\<lambda>s. ()) True yamux_new
     [[0, 2, 0, 1, 0, 0, 0, 0, 0, 0, 0], [9, 0, 0, 0, 1, 0, 0, 0, 2, 0], [0, 0, 2, 7, 8]] =
   Some ([Inr (\<lparr>h_version = 0, h_ty = Ping 9, h_flags = 1, h_stream_id = 0\<rparr>, []),
          Inr (\<lparr>h_version = 0, h_ty = Data 2, h_flags = 1, h_stream_id = 2\<rparr>, [7, 8])],
     yamux_controls (\<lambda>s. ()) True
       [(\<lparr>h_version = 0, h_ty = Ping 9, h_flags = 1, h_stream_id = 0\<rparr>, []),
        (\<lparr>h_version = 0, h_ty = Data 2, h_flags = 1, h_stream_id = 2\<rparr>, [7, 8])] yamux_new)"
  by (subst yamux_process_roundtrip
      [of "[(\<lparr>h_version = 0, h_ty = Ping 9, h_flags = 1, h_stream_id = 0\<rparr>, []),
        (\<lparr>h_version = 0, h_ty = Data 2, h_flags = 1, h_stream_id = 2\<rparr>, [7, 8])]"])
    (code_simp, code_simp, simp)

text \<open>C4: When no flag comes late in a chunk, the handler does what the frame-by-frame reference
  does: same calls of the inner protocols and of the database in the same order, same streams
  afterwards.\<close>

theorem yamux_on_data_sequential:
  assumes "\<not> y_error st"
    and "drain yamux_frame (yamux_acc (incoming did) st @ bytes) = (fs, r)"
    and "yamux_bad_header r = None"
    and "no_late_flag fs"
    and "yamux_sequential db mk inner did fs st w = (Done (), st', w')"
  shows "yamux_on_data db mk inner did bytes st w = (Done (), yamux_set_acc (incoming did) r st', w')"
  using assms by (simp add: yamux_on_data_def yamux_process_eq yamux_deliver_all_sequential)

theorem yamux_on_data_sequential_witness:
  "yamux_on_data list_db (\<lambda>s. []) (\<lambda>did bs i w. (Done (), i @ bs, w)) (sample_did True)
     [0, 0, 0, 1, 0, 0, 0, 2, 0, 0, 0, 2, 7, 8, 0, 1, 0, 0, 0, 0, 0, 2, 0, 0, 0, 9, 0]
     yamux_new [] =
   (Done (), (yamux_new :: bytes yamux_state)
      \<lparr>y_incoming := [0], y_inners := [Forward 1 \<mapsto> Duplex [7, 8]]\<rparr>,
    [(Forward 1, Kind_Yamux, [0, 1, 0, 0, 0, 0, 0, 2, 0, 0, 0, 9])])"
proof -
  let ?h = "\<lparr>h_version = 0, h_ty = Data 2, h_flags = 1, h_stream_id = 2\<rparr>"
    and ?k = "\<lparr>h_version = 0, h_ty = WindowUpdate 9, h_flags = 0, h_stream_id = 2\<rparr>"
  let ?fs = "[(?h, [7, 8]), (?k, [])]"
  have "\<forall>m \<in> set ?fs. yamux_frame_wf m" by code_simp
  moreover have "yamux_frame [0] = None" by code_simp
  moreover have "concat (map yamux_emit ?fs) @ [0] =
      [0, 0, 0, 1, 0, 0, 0, 2, 0, 0, 0, 2, 7, 8, 0, 1, 0, 0, 0, 0, 0, 2, 0, 0, 0, 9, 0]" by code_simp
  ultimately have d: "drain yamux_frame (yamux_acc (incoming (sample_did True)) (yamux_new :: bytes yamux_state) @
      [0, 0, 0, 1, 0, 0, 0, 2, 0, 0, 0, 2, 7, 8, 0, 1, 0, 0, 0, 0, 0, 2, 0, 0, 0, 9, 0]) = (?fs, [0])"
    using yx.drain_emit [of ?fs "[0]"] by (simp add: yamux_acc_def sample_did_def yamux_new_def)
  have s: "yamux_sequential list_db (\<lambda>s. []) (\<lambda>did bs i w. (Done (), i @ bs, w)) (sample_did True) ?fs
      yamux_new [] = (Done (), (yamux_new :: bytes yamux_state)
        \<lparr>y_inners := [Forward 1 \<mapsto> Duplex [7, 8]]\<rparr>,
        [(Forward 1, Kind_Yamux, header_to_bytes ?k)])"
    by (simp add: yamux_deliver_def yamux_control_def yamux_new_def sample_did_def list_db_def
        yamux_stream_id_def contains_flag_def SYN_def FIN_def RST_def Let_def)
  have h: "header_to_bytes ?k = [0, 1, 0, 0, 0, 0, 0, 2, 0, 0, 0, 9]" by code_simp
  have l: "no_late_flag ?fs" "yamux_bad_header [0] = None" by code_simp+
  show ?thesis
    using yamux_on_data_sequential [OF _ d l(2) l(1) s]
    by (simp add: yamux_new_def yamux_set_acc_def sample_did_def h)
qed

text \<open>C32: Whatever arrives, the handler keeps at most 512 recently reset streams and leaves no
  complete frame in its buffers (a call that never returns leaves the state as it is).\<close>

theorem yamux_on_data_inv:
  assumes "yamux_inv st"
  shows "yamux_inv (fst (snd (yamux_on_data db mk inner did bytes st w)))"
  using assms yamux_process_inv [of mk "incoming did" st bytes]
  by (auto simp: yamux_on_data_def yamux_deliver_all_inv split: option.split)

theorem yamux_on_data_inv_witness:
  "yamux_inv (fst (snd (yamux_on_data list_db (\<lambda>s. []) (\<lambda>did bs i w. (Done (), i @ bs, w))
     (sample_did True) [0, 0, 0, 8] (yamux_new :: bytes yamux_state) [])))"
  by (rule yamux_on_data_inv) (simp add: yamux_inv_def yamux_new_def yamux_frame_def)

end
