(* ===== verification/Varint.thy ===== *)
theory Varint
  imports Prelude
begin

text \<open>
  Unsigned variable-length integers. The decoder is the crate \<open>unsigned_varint\<close>; the layers that
  use it (\<open>mplex\<close>, \<open>multistream_select\<close>, \<open>meshsub\<close>) take \<open>decode::u64\<close> as a parameter. The locale
  \<open>varint\<close> is what they rely on, \<open>varint_codec\<close> adds the encoder of the same crate. \<open>leb128\<close> is a
  concrete instance.
\<close>

section \<open>The interface\<close>

text \<open>
  \<open>vdec bs = Some (v, r)\<close> is \<open>decode::u64(bs) = Ok((v, r))\<close>: at least one byte is read, \<open>r\<close> is
  the rest of the input, and bytes behind the number do not matter. A byte below 128 stands
  for itself.
\<close>

type_synonym varint_decoder = "bytes \<Rightarrow> (u64 \<times> bytes) option"

locale varint =
  fixes vdec :: varint_decoder
  assumes dec_suffix: "vdec bs = Some (v, r) \<Longrightarrow> \<exists>p. p \<noteq> [] \<and> bs = p @ r"
    and dec_extend: "vdec bs = Some (v, r) \<Longrightarrow> vdec (bs @ ys) = Some (v, r @ ys)"
    and dec_small: "unat b < 128 \<Longrightarrow> vdec (b # bs) = Some (of_nat (unat b), bs)"
begin

lemma dec_length: "vdec bs = Some (v, r) \<Longrightarrow> length r < length bs"
  using dec_suffix by fastforce

lemma dec_drop: "vdec bs = Some (v, r) \<Longrightarrow> r = drop (length bs - length r) bs"
  using dec_suffix by fastforce

end

text \<open>Encodings are minimal, so that a number has exactly one.\<close>

locale varint_codec = varint +
  fixes venc :: "u64 \<Rightarrow> bytes"
  assumes dec_enc: "vdec (venc v @ r) = Some (v, r)"
    and enc_dec: "vdec bs = Some (v, r) \<Longrightarrow> bs = venc v @ r"

section \<open>LEB128\<close>

fun leb_read :: "nat \<Rightarrow> bytes \<Rightarrow> (nat \<times> bytes) option" where
  "leb_read 0 bs = None"
| "leb_read (Suc k) [] = None"
| "leb_read (Suc k) (b # bs) =
     (if unat b < 128 then Some (unat b, bs)
      else case leb_read k bs of
             None \<Rightarrow> None
           | Some (v, r) \<Rightarrow> if v = 0 then None else Some (unat b - 128 + 128 * v, r))"

fun leb_write :: "nat \<Rightarrow> bytes" where
  "leb_write n = (if n < 128 then [of_nat n] else of_nat (n mod 128 + 128) # leb_write (n div 128))"

declare leb_write.simps [simp del]

definition leb_u64 :: varint_decoder where
  "leb_u64 bs = (case leb_read 10 bs of
     Some (v, r) \<Rightarrow> if v < 2 ^ 64 then Some (of_nat v, r) else None | None \<Rightarrow> None)"

definition leb_enc_u64 :: "u64 \<Rightarrow> bytes" where
  "leb_enc_u64 v = leb_write (unat v)"

lemma leb_read_write: "n < 128 ^ Suc k \<Longrightarrow> leb_read (Suc k) (leb_write n @ r) = Some (n, r)"
proof (induction k arbitrary: n)
  case 0
  thus ?case by (simp add: leb_write.simps [of n])
next
  case (Suc k)
  show ?case
  proof (cases "n < 128")
    case True
    thus ?thesis by (simp add: leb_write.simps [of n])
  next
    case False
    hence "n div 128 < 128 ^ Suc k" using Suc.prems by (simp add: less_mult_imp_div_less mult.commute)
    hence IH: "leb_read (Suc k) (leb_write (n div 128) @ r) = Some (n div 128, r)" by (rule Suc.IH)
    define c :: u8 where "c = of_nat (n mod 128 + 128)"
    have "n mod 128 < 128" by simp
    hence c: "unat c = n mod 128 + 128" by (simp add: c_def del: of_nat_add)
    have w: "leb_write n = c # leb_write (n div 128)"
      using False by (simp add: leb_write.simps [of n] c_def)
    have "n div 128 \<noteq> 0" using False by auto
    thus ?thesis unfolding w append_Cons leb_read.simps(3) [of "Suc k"] IH by (simp add: c)
  qed
qed

lemma leb_write_read: "leb_read k bs = Some (n, r) \<Longrightarrow> bs = leb_write n @ r"
proof (induction k bs arbitrary: n rule: leb_read.induct)
  case (3 k b bs)
  show ?case
  proof (cases "unat b < 128")
    case True
    thus ?thesis using 3 by (auto simp: leb_write.simps)
  next
    case False
    with 3(2) obtain v where v: "leb_read k bs = Some (v, r)" "v \<noteq> 0" "n = unat b - 128 + 128 * v"
      by (auto split: option.splits if_splits)
    define d where "d = unat b - 128"
    have "unat b < 256" by simp
    hence d: "unat b = d + 128" "d < 128" using False unfolding d_def by linarith+
    hence "n div 128 = v" "n mod 128 + 128 = unat b" "\<not> n < 128" using v by auto
    with 3(1) [OF False v(1)] show ?thesis by (simp add: leb_write.simps [of n])
  qed
qed simp_all

lemma leb_read_extend: "leb_read k bs = Some (n, r) \<Longrightarrow> leb_read k (bs @ ys) = Some (n, r @ ys)"
  by (induction k bs arbitrary: n rule: leb_read.induct) (auto split: if_splits option.splits)

lemma leb_write_not_Nil: "leb_write n \<noteq> []"
  by (subst leb_write.simps) simp

lemma leb_u64_small: "unat b < 128 \<Longrightarrow> leb_u64 (b # bs) = Some (of_nat (unat b), bs)"
  using leb_read.simps(3) [of 9 b bs] unat_u8_less [of b] by (simp add: leb_u64_def)

lemma leb_u64_Nil: "leb_u64 [] = None"
  using leb_read.simps(2) [of 9] by (simp add: leb_u64_def)

lemma leb_enc_u64_small: "unat v < 128 \<Longrightarrow> leb_enc_u64 v = [of_nat (unat v)]"
  by (simp add: leb_enc_u64_def leb_write.simps)

interpretation leb128: varint_codec leb_u64 leb_enc_u64
proof unfold_locales
  fix bs r ys :: bytes and v
  show "\<exists>p. p \<noteq> [] \<and> bs = p @ r" if "leb_u64 bs = Some (v, r)"
    using that by (auto simp: leb_u64_def leb_write_not_Nil split: option.splits if_splits dest!: leb_write_read)
  show "leb_u64 (bs @ ys) = Some (v, r @ ys)" if "leb_u64 bs = Some (v, r)"
    using that leb_read_extend [of 10 bs _ r ys] by (auto simp: leb_u64_def split: option.splits if_splits)
  show "leb_u64 (b # bs) = Some (of_nat (unat b), bs)" if "unat b < 128" for b
    using that by (rule leb_u64_small)
  have "unat v < 2 ^ 64" using unsigned_less [of v, where ?'a = nat] by simp
  thus "leb_u64 (leb_enc_u64 v @ r) = Some (v, r)"
    using leb_read_write [of "unat v" 9 r] by (simp add: leb_u64_def leb_enc_u64_def)
  show "bs = leb_enc_u64 v @ r" if "leb_u64 bs = Some (v, r)"
    using that by (auto simp: leb_u64_def leb_enc_u64_def unat_of_nat split: option.splits if_splits dest!: leb_write_read)
qed

end
