(* ===== verification/Mplex.thy ===== *)
theory Mplex
  imports Framing Types Varint
begin

text \<open>
  The mplex multiplexer (\<open>mina-recorder/src/connection/mplex.rs\<close>): frames with a varint header
  and a varint length, the status of the streams, and the handler. The varint decoder and the
  hexadecimal encoder of a stream name that is not UTF-8 (crate \<open>hex\<close>) are parameters.
\<close>

section \<open>The accumulator\<close>

datatype tag = New | Msg | Close | Reset

text \<open>
  The closure \<open>r\<close> of \<open>accumulate\<close>: tag, stream, payload length and offset of the payload.
  Tag 7 panics.
\<close>

definition mplex_r ::
  "varint_decoder \<Rightarrow> bool \<Rightarrow> bytes \<Rightarrow> (unit, (tag \<times> stream_id \<times> nat \<times> nat) option) outcome" where
  "mplex_r vdec inc bytes =
     (case vdec bytes of
        None \<Rightarrow> Done None
      | Some (v, remaining) \<Rightarrow>
          (let initiator = (v mod 2 = 0);
               k = and v 7;
               stream_id = (if initiator = inc then Forward (drop_bit 3 v) else Backward (drop_bit 3 v))
           in if k = 7 then Panic
              else
                let tag = (if k = 0 then New else if k = 1 \<or> k = 2 then Msg
                           else if k = 3 \<or> k = 4 then Close else Reset)
                in case vdec remaining of
                     None \<Rightarrow> Done None
                   | Some (len, remaining) \<Rightarrow>
                       Done (Some (tag, stream_id, unat len, length bytes - length remaining))))"

text \<open>
  \<open>end = offset + len\<close> is a \<open>usize\<close>. When it wraps it lies before \<open>offset\<close>, and the slice
  \<open>[offset..end]\<close> panics.
\<close>

definition mplex_accumulate ::
  "varint_decoder \<Rightarrow> bool \<Rightarrow> bytes \<Rightarrow> bytes \<Rightarrow> (unit, (tag \<times> stream_id \<times> bytes) poll) outcome \<times> bytes" where
  "mplex_accumulate vdec inc acc bytes =
     (if acc = [] then
        (case mplex_r vdec inc bytes of
           Done (Some (tag, stream_id, len, offset)) \<Rightarrow>
             (let stop = usize_add offset len in
              if length bytes < stop then (Done Pending, acc @ bytes)
              else if length bytes = stop then (Done (Ready (tag, stream_id, drop offset bytes)), acc)
              else if stop < offset then (Panic, drop stop bytes)
              else (Done (Ready (tag, stream_id, drop offset (take stop bytes))), drop stop bytes))
         | Done None \<Rightarrow> (Done Pending, acc @ bytes)
         | _ \<Rightarrow> (Panic, acc))
      else
        (let acc = acc @ bytes in
         case mplex_r vdec inc acc of
           Done (Some (tag, stream_id, len, offset)) \<Rightarrow>
             (let stop = usize_add offset len in
              if length acc < stop then (Done Pending, acc)
              else if length acc = stop then (Done (Ready (tag, stream_id, drop offset acc)), [])
              else if stop < offset then (Panic, acc)
              else (Done (Ready (tag, stream_id, slice offset stop acc)), drop stop acc))
         | Done None \<Rightarrow> (Done Pending, acc)
         | _ \<Rightarrow> (Panic, acc)))"

section \<open>Frames and their effect\<close>

datatype close_error = OnlyOutgoing | OnlyIncoming | DoesntExist bool

datatype output_variant =
    NewOut u64 string bool
  | MsgOut bytes bool
  | CloseOut u64 "close_error option"
  | ResetOut u64

type_synonym mplex_output = "stream_id \<times> output_variant"

record 'i mplex_state =
  m_incoming :: bytes
  m_outgoing :: bytes
  m_inners :: "stream_id \<rightharpoonup> 'i status"

definition mplex_new :: "'i mplex_state" where
  "mplex_new = \<lparr>m_incoming = [], m_outgoing = [], m_inners = Map.empty\<rparr>"

definition mplex_from_name :: "string \<Rightarrow> 'i mplex_state option" where
  "mplex_from_name name = (if name = ''/coda/mplex/1.0.0'' then Some mplex_new else None)"

definition mplex_acc :: "bool \<Rightarrow> 'i mplex_state \<Rightarrow> bytes" where
  "mplex_acc inc st = (if inc then m_incoming st else m_outgoing st)"

definition mplex_set_acc :: "bool \<Rightarrow> bytes \<Rightarrow> 'i mplex_state \<Rightarrow> 'i mplex_state" where
  "mplex_set_acc inc acc st = (if inc then st\<lparr>m_incoming := acc\<rparr> else st\<lparr>m_outgoing := acc\<rparr>)"

definition mplex_header :: "u64 \<Rightarrow> u64 \<Rightarrow> stream_id \<Rightarrow> u64" where
  "mplex_header fwd bwd s = (case s of
     Handshake \<Rightarrow> - 1
   | Forward i \<Rightarrow> fwd + push_bit 3 i
   | Backward i \<Rightarrow> bwd + push_bit 3 i)"

text \<open>The body of the loop of \<open>process\<close> for one frame.\<close>

definition mplex_step ::
  "(bytes \<Rightarrow> string) \<Rightarrow> (stream_id \<Rightarrow> 'i) \<Rightarrow> bool \<Rightarrow> tag \<times> stream_id \<times> bytes
     \<Rightarrow> (stream_id \<rightharpoonup> 'i status) \<Rightarrow> mplex_output \<times> (stream_id \<rightharpoonup> 'i status)" where
  "mplex_step hexenc mk inc m inners =
     (case m of (tag, s, bytes) \<Rightarrow>
        (case tag of
           New \<Rightarrow>
             ((s, NewOut (mplex_header 0 0 s)
                (if utf8_valid bytes then bytes_str bytes else hexenc bytes) (inners s \<noteq> None)),
              inners(s \<mapsto> Duplex (mk s)))
         | Msg \<Rightarrow>
             ((s, MsgOut bytes
                (\<not> (case inners s of
                      Some (Duplex _) \<Rightarrow> True
                    | Some (IncomingOnly _) \<Rightarrow> inc
                    | Some (OutgoingOnly _) \<Rightarrow> \<not> inc
                    | None \<Rightarrow> False))),
              inners)
         | Close \<Rightarrow>
             ((s, CloseOut (mplex_header 4 3 s)
                (case inners s of
                   Some (Duplex _) \<Rightarrow> None
                 | Some (IncomingOnly _) \<Rightarrow> if inc then None else Some OnlyIncoming
                 | Some (OutgoingOnly _) \<Rightarrow> if inc then Some OnlyOutgoing else None
                 | None \<Rightarrow> Some (DoesntExist inc))),
              (case inners s of
                 Some (Duplex i) \<Rightarrow> inners(s \<mapsto> (if inc then OutgoingOnly i else IncomingOnly i))
               | _ \<Rightarrow> inners(s := None)))
         | Reset \<Rightarrow> ((s, ResetOut (mplex_header 6 5 s)), inners(s := None))))"

definition mplex_turn ::
  "varint_decoder \<Rightarrow> bool \<Rightarrow> 'i mplex_state \<Rightarrow> bytes
     \<Rightarrow> (unit, (tag \<times> stream_id \<times> bytes) poll) outcome \<times> 'i mplex_state" where
  "mplex_turn vdec inc st bytes =
     (let (p, acc) = mplex_accumulate vdec inc (mplex_acc inc st) bytes
      in (p, mplex_set_acc inc acc st))"

text \<open>
  The loop of \<open>process\<close>: \<open>None\<close> if it never ends, \<open>Some (Panic, _)\<close> if it panics.
\<close>

partial_function (option) mplex_loop ::
  "varint_decoder \<Rightarrow> (bytes \<Rightarrow> string) \<Rightarrow> (stream_id \<Rightarrow> 'i) \<Rightarrow> bool \<Rightarrow> 'i mplex_state \<Rightarrow> bytes
     \<Rightarrow> mplex_output list \<Rightarrow> ((unit, mplex_output list) outcome \<times> 'i mplex_state) option" where
  "mplex_loop vdec hexenc mk inc st bytes out =
     (let t = mplex_turn vdec inc st bytes in
      if fst t = Done Pending then Some (Done out, snd t)
      else if fst t = Panic then Some (Panic, snd t)
      else
        let o' = mplex_step hexenc mk inc (case fst t of Done (Ready m) \<Rightarrow> m) (m_inners (snd t))
        in mplex_loop vdec hexenc mk inc ((snd t)\<lparr>m_inners := snd o'\<rparr>) [] (out @ [fst o']))"

definition mplex_process ::
  "varint_decoder \<Rightarrow> (bytes \<Rightarrow> string) \<Rightarrow> (stream_id \<Rightarrow> 'i) \<Rightarrow> bool \<Rightarrow> 'i mplex_state \<Rightarrow> bytes
     \<Rightarrow> ((unit, mplex_output list) outcome \<times> 'i mplex_state) option" where
  "mplex_process vdec hexenc mk inc st bytes = mplex_loop vdec hexenc mk inc st bytes []"

section \<open>The handler\<close>

definition mplex_store ::
  "('e, 'w) db_ops \<Rightarrow> directed_id \<Rightarrow> stream_id \<Rightarrow> u64 \<Rightarrow> 'i mplex_state \<Rightarrow> 'w
     \<Rightarrow> ('e, unit) outcome \<times> 'i mplex_state \<times> 'w" where
  "mplex_store db did s header st w =
     (let (r, w) = db_add db s did Kind_Mplex (u64_be header) w
      in (map_outcome id (\<lambda>_. ()) r, st, db_drop db w))"

definition mplex_deliver ::
  "('e, 'w) db_ops \<Rightarrow> ('e, 'i, 'w) on_data \<Rightarrow> directed_id \<Rightarrow> mplex_output \<Rightarrow> 'i mplex_state \<Rightarrow> 'w
     \<Rightarrow> ('e, unit) outcome \<times> 'i mplex_state \<times> 'w" where
  "mplex_deliver db inner did m st w =
     (case m of (s, variant) \<Rightarrow>
        (case variant of
           NewOut header _ _ \<Rightarrow> mplex_store db did s header st w
         | MsgOut bytes bad_stream \<Rightarrow>
             if bad_stream then (Done (), st, db_drop db w)
             else
               (case m_inners st s of
                  None \<Rightarrow> (Panic, st, w)
                | Some x \<Rightarrow>
                    (let (r, i, w) = inner did bytes (as_mut x) w
                     in (r, st\<lparr>m_inners := (m_inners st)(s \<mapsto> set_status i x)\<rparr>, db_drop db w)))
         | CloseOut header _ \<Rightarrow> mplex_store db did s header st w
         | ResetOut header \<Rightarrow> mplex_store db did s header st w))"

fun mplex_deliver_all ::
  "('e, 'w) db_ops \<Rightarrow> ('e, 'i, 'w) on_data \<Rightarrow> directed_id \<Rightarrow> mplex_output list \<Rightarrow> 'i mplex_state \<Rightarrow> 'w
     \<Rightarrow> ('e, unit) outcome \<times> 'i mplex_state \<times> 'w" where
  "mplex_deliver_all db inner did [] st w = (Done (), st, w)"
| "mplex_deliver_all db inner did (m # ms) st w =
     (let (r, st, w) = mplex_deliver db inner did m st w in
      case r of Done _ \<Rightarrow> mplex_deliver_all db inner did ms st w | _ \<Rightarrow> (r, st, w))"

definition mplex_on_data ::
  "varint_decoder \<Rightarrow> (bytes \<Rightarrow> string) \<Rightarrow> ('e, 'w) db_ops \<Rightarrow> (stream_id \<Rightarrow> 'i) \<Rightarrow> ('e, 'i, 'w) on_data
     \<Rightarrow> ('e, 'i mplex_state, 'w) on_data" where
  "mplex_on_data vdec hexenc db mk inner did bytes st w =
     (case mplex_process vdec hexenc mk (incoming did) st bytes of
        None \<Rightarrow> (Hang, st, w)
      | Some (Done ms, st) \<Rightarrow> mplex_deliver_all db inner did ms st w
      | Some (_, st) \<Rightarrow> (Panic, st, w))"

section \<open>Frames\<close>

text \<open>The complete frame at the start of a buffer, and the buffers on which \<open>accumulate\<close> panics.\<close>

definition mplex_frame ::
  "varint_decoder \<Rightarrow> bool \<Rightarrow> bytes \<Rightarrow> ((tag \<times> stream_id \<times> bytes) \<times> nat) option" where
  "mplex_frame vdec inc bs =
     (case mplex_r vdec inc bs of
        Done (Some (t, s, len, off)) \<Rightarrow>
          if off + len < 2 ^ 64 \<and> off + len \<le> length bs
          then Some ((t, s, slice off (off + len) bs), off + len) else None
      | _ \<Rightarrow> None)"

definition mplex_panics :: "varint_decoder \<Rightarrow> bool \<Rightarrow> bytes \<Rightarrow> bool" where
  "mplex_panics vdec inc bs =
     (case mplex_r vdec inc bs of
        Done (Some (t, s, len, off)) \<Rightarrow> 2 ^ 64 \<le> off + len
      | Done None \<Rightarrow> False
      | _ \<Rightarrow> True)"

text \<open>The header word of a frame, as the peer that sends in direction \<open>inc\<close> writes it.\<close>

definition mplex_code :: "tag \<Rightarrow> bool \<Rightarrow> u64" where
  "mplex_code t initiator = (case t of
     New \<Rightarrow> 0 | Msg \<Rightarrow> if initiator then 2 else 1
   | Close \<Rightarrow> if initiator then 4 else 3 | Reset \<Rightarrow> if initiator then 6 else 5)"

definition mplex_emit :: "(u64 \<Rightarrow> bytes) \<Rightarrow> bool \<Rightarrow> tag \<times> stream_id \<times> bytes \<Rightarrow> bytes" where
  "mplex_emit venc inc m = (case m of (t, s, p) \<Rightarrow>
     venc (mplex_header (mplex_code t inc) (mplex_code t (\<not> inc)) s) @ venc (of_nat (length p)) @ p)"

definition mplex_frame_wf :: "(u64 \<Rightarrow> bytes) \<Rightarrow> bool \<Rightarrow> tag \<times> stream_id \<times> bytes \<Rightarrow> bool" where
  "mplex_frame_wf venc inc m = (case m of (t, s, p) \<Rightarrow>
     length (mplex_emit venc inc m) < 2 ^ 64 \<and>
     (case s of
        Handshake \<Rightarrow> False
      | Forward i \<Rightarrow> i < 2 ^ 61 \<and> (t = New \<longrightarrow> inc)
      | Backward i \<Rightarrow> i < 2 ^ 61 \<and> (t = New \<longrightarrow> \<not> inc)))"

lemma mplex_bits:
  assumes "i < 2 ^ 61" and "c < (8 :: u64)"
  shows "and (c + push_bit 3 i) 7 = c" "drop_bit 3 (c + push_bit 3 i) = i"
    "(c + push_bit 3 i) mod 2 = c mod 2"
proof -
  have i: "unat i < 2 ^ 61" and c: "unat c < 8" using assms by (simp_all add: word_less_nat_alt)
  have "unat (push_bit 3 i) = 8 * unat i"
    using i by (simp add: push_bit_eq_mult unat_word_ariths)
  hence h: "unat (c + push_bit 3 i) = unat c + 8 * unat i"
    using i c by (simp add: unat_word_ariths)
  have m: "and w 7 = w mod 8" for w :: u64
    using take_bit_eq_mask [of 3 w] by (simp add: take_bit_eq_mod mask_eq_exp_minus_1)
  show "and (c + push_bit 3 i) 7 = c"
    unfolding m by (rule word_unat_eq_iff [THEN iffD2]) (simp add: unat_mod h c)
  show "drop_bit 3 (c + push_bit 3 i) = i"
    by (rule word_unat_eq_iff [THEN iffD2]) (simp add: drop_bit_eq_div unat_div h c)
  show "(c + push_bit 3 i) mod 2 = c mod 2"
    by (rule word_unat_eq_iff [THEN iffD2]) (simp add: unat_mod h, presburger)
qed

lemma mplex_bits_inv: "and v 7 + push_bit 3 (drop_bit 3 v) = (v :: u64)"
  using bits_ident [of 3 v] take_bit_eq_mask [of 3 v] by (simp add: mask_eq_exp_minus_1 add.commute)

lemma mplex_code_cases:
  assumes "and v 7 \<noteq> (7 :: u64)"
  shows "(if and v 7 = 0 then v mod 2 = 0 \<and> mplex_code New (v mod 2 = 0) = and v 7
     else if and v 7 = 1 \<or> and v 7 = 2 then mplex_code Msg (v mod 2 = 0) = and v 7
     else if and v 7 = 3 \<or> and v 7 = 4 then mplex_code Close (v mod 2 = 0) = and v 7
     else mplex_code Reset (v mod 2 = 0) = and v 7)"
proof -
  define k where "k = v mod 8"
  have "and v 7 = k"
    using take_bit_eq_mask [of 3 v] by (simp add: take_bit_eq_mod mask_eq_exp_minus_1 k_def)
  moreover have "v mod 2 = k mod 2"
    unfolding k_def by (rule word_unat_eq_iff [THEN iffD2]) (simp add: unat_mod mod_mod_cancel)
  moreover have "k < 8" by (simp add: word_mod_less_divisor k_def)
  hence "k \<in> {0, 1, 2, 3, 4, 5, 6, 7}"
    by (auto simp: word_less_nat_alt word_unat_eq_iff)
  ultimately show ?thesis using assms by (auto simp: mplex_code_def)
qed

lemma mplex_r_SomeD:
  assumes "mplex_r vdec inc bs = Done (Some (t, s, len, off))"
  obtains v r1 l r2 where "vdec bs = Some (v, r1)" "vdec r1 = Some (l, r2)" "len = unat l"
    "off = length bs - length r2" "and v 7 \<noteq> 7"
    "s = (if (v mod 2 = 0) = inc then Forward (drop_bit 3 v) else Backward (drop_bit 3 v))"
    "mplex_code t (v mod 2 = 0) = and v 7" "t = New \<longrightarrow> v mod 2 = 0"
proof -
  from assms obtain v r1 where v: "vdec bs = Some (v, r1)" "and v 7 \<noteq> 7"
    by (auto simp: mplex_r_def Let_def split: option.splits prod.splits if_splits)
  with assms obtain l r2 where l: "vdec r1 = Some (l, r2)"
    by (auto simp: mplex_r_def Let_def split: option.splits prod.splits)
  show thesis
    by (rule that [OF v(1) l _ _ v(2)])
      (use assms v l mplex_code_cases [OF v(2)] in \<open>auto simp: mplex_r_def Let_def split: if_splits\<close>)
qed

lemma mplex_r_intro:
  assumes "vdec bs = Some (h, r1)" and "vdec r1 = Some (l, r2)"
    and "and h 7 = mplex_code t (h mod 2 = 0)" and "t = New \<longrightarrow> h mod 2 = 0"
  shows "mplex_r vdec inc bs = Done (Some (t,
    if (h mod 2 = 0) = inc then Forward (drop_bit 3 h) else Backward (drop_bit 3 h),
    unat l, length bs - length r2))"
  using assms by (cases t; cases "h mod 2 = 0") (simp_all add: mplex_r_def mplex_code_def Let_def)

context varint
begin

lemma mplex_r_extend:
  assumes "mplex_r vdec inc bs = Done (Some x)"
  shows "mplex_r vdec inc (bs @ ys) = Done (Some x)"
proof -
  obtain t s len off where x: "x = (t, s, len, off)" by (cases x)
  from assms obtain v r1 where v: "vdec bs = Some (v, r1)" "and v 7 \<noteq> 7"
    by (auto simp: mplex_r_def Let_def split: option.splits prod.splits if_splits)
  with assms obtain l r2 where l: "vdec r1 = Some (l, r2)"
    by (auto simp: mplex_r_def Let_def split: option.splits prod.splits)
  show ?thesis using assms v(2)
    by (simp add: mplex_r_def v(1) l dec_extend [OF v(1)] dec_extend [OF l] Let_def)
qed

lemma mplex_r_offset:
  assumes "mplex_r vdec inc bs = Done (Some (t, s, len, off))"
  shows "0 < off \<and> off \<le> length bs \<and> len < 2 ^ 64"
proof -
  from assms obtain v r1 l r2 where r: "vdec bs = Some (v, r1)" "vdec r1 = Some (l, r2)"
    "len = unat l" "off = length bs - length r2" by (rule mplex_r_SomeD)
  have "unat l < 2 ^ 64" using unsigned_less [of l, where ?'a = nat] by simp
  thus ?thesis using dec_length [OF r(1)] dec_length [OF r(2)] r by simp
qed

lemma mplex_frame_SomeD:
  "mplex_frame vdec inc bs = Some ((t, s, p), n) \<Longrightarrow>
     \<exists>len off. mplex_r vdec inc bs = Done (Some (t, s, len, off)) \<and> n = off + len \<and>
       n \<le> length bs \<and> n < 2 ^ 64 \<and> p = slice off n bs"
  by (auto simp: mplex_frame_def split: outcome.splits option.splits prod.splits if_splits)

lemma mplex_framing: "framing (mplex_frame vdec inc)"
proof
  fix bs ys n and m :: "tag \<times> stream_id \<times> bytes"
  assume f: "mplex_frame vdec inc bs = Some (m, n)"
  obtain t s p where m: "m = (t, s, p)" by (cases m)
  from mplex_frame_SomeD [OF f [unfolded m]] obtain len off where
    r: "mplex_r vdec inc bs = Done (Some (t, s, len, off))" and n: "n = off + len" "n \<le> length bs"
      "n < 2 ^ 64" "p = slice off n bs" by blast
  show "0 < n \<and> n \<le> length bs" using mplex_r_offset [OF r] n by simp
  show "mplex_frame vdec inc (bs @ ys) = Some (m, n)"
    using mplex_r_extend [OF r, of ys] n m by (simp add: mplex_frame_def)
qed

end

sublocale varint \<subseteq> mp: framing "mplex_frame vdec inc" for inc
  by (rule mplex_framing)

sublocale varint_codec \<subseteq> mpc: frame_codec "mplex_frame vdec inc" "mplex_emit venc inc"
  "mplex_frame_wf venc inc" for inc
proof unfold_locales
  fix bs n and m :: "tag \<times> stream_id \<times> bytes"
  obtain t s p where m: "m = (t, s, p)" by (cases m)
  show "mplex_emit venc inc m = take n bs" if f: "mplex_frame vdec inc bs = Some (m, n)"
  proof -
    from mplex_frame_SomeD [OF f [unfolded m]] obtain len off where
      r: "mplex_r vdec inc bs = Done (Some (t, s, len, off))" and n: "n = off + len" "n \<le> length bs"
        "p = slice off n bs" by blast
    from r obtain v r1 l r2 where d: "vdec bs = Some (v, r1)" "vdec r1 = Some (l, r2)"
      "len = unat l" "off = length bs - length r2" 
      and s: "s = (if (v mod 2 = 0) = inc then Forward (drop_bit 3 v) else Backward (drop_bit 3 v))"
      and t: "mplex_code t (v mod 2 = 0) = and v 7"
      by (rule mplex_r_SomeD)
    have bs: "bs = venc v @ venc l @ r2" using enc_dec d by metis
    have "mplex_header (mplex_code t inc) (mplex_code t (\<not> inc)) s = and v 7 + push_bit 3 (drop_bit 3 v)"
      using s t by (cases "v mod 2 = 0"; cases inc) (simp_all add: mplex_header_def)
    moreover have "length p = unat l" "p = take (unat l) r2" "off = length (venc v @ venc l)"
      using n d bs by (auto simp: slice_def)
    ultimately show ?thesis using bs n d m by (simp add: mplex_emit_def mplex_bits_inv)
  qed
next
  fix m :: "tag \<times> stream_id \<times> bytes" and r
  obtain t s p where m: "m = (t, s, p)" by (cases m)
  assume wf: "mplex_frame_wf venc inc m"
  let ?c = "\<lambda>b. mplex_code t b" and ?h = "mplex_header (mplex_code t inc) (mplex_code t (\<not> inc)) s"
  have c: "?c b < 8" for b by (cases t) (simp_all add: mplex_code_def)
  have len: "length p < 2 ^ 64" using wf m by (simp add: mplex_frame_wf_def mplex_emit_def)
  have "and ?h 7 = ?c ((?h mod 2 = 0)) \<and> (t = New \<longrightarrow> ?h mod 2 = 0) \<and>
    s = (if (?h mod 2 = 0) = inc then Forward (drop_bit 3 ?h) else Backward (drop_bit 3 ?h))"
  proof (cases s)
    case (Forward i)
    thus ?thesis using wf m mplex_bits [of i "?c inc"] c
      by (cases t; cases inc) (simp_all add: mplex_header_def mplex_frame_wf_def mplex_code_def)
  next
    case (Backward i)
    thus ?thesis using wf m mplex_bits [of i "?c (\<not> inc)"] c
      by (cases t; cases inc) (simp_all add: mplex_header_def mplex_frame_wf_def mplex_code_def)
  qed (use wf m in \<open>simp add: mplex_frame_wf_def\<close>)
  note h = this
  have "mplex_r vdec inc (mplex_emit venc inc m @ r) = Done (Some (t, s, length p,
      length (venc ?h @ venc (of_nat (length p)))))"
    using mplex_r_intro [of vdec "mplex_emit venc inc m @ r" ?h _ "of_nat (length p)" "p @ r" t inc]
      h len by (simp add: m mplex_emit_def dec_enc unat_of_nat)
  thus "mplex_frame vdec inc (mplex_emit venc inc m @ r) = Some (m, length (mplex_emit venc inc m))"
    using wf m by (simp add: mplex_frame_def mplex_frame_wf_def mplex_emit_def slice_def add.assoc)
qed

section \<open>What \<open>process\<close> computes\<close>

lemma mplex_acc_simps [simp]:
  "mplex_acc inc (mplex_set_acc inc a st) = a"
  "mplex_set_acc inc a (mplex_set_acc inc b st) = mplex_set_acc inc a st"
  "mplex_set_acc inc (mplex_acc inc st) st = st"
  "m_inners (mplex_set_acc inc a st) = m_inners st"
  "mplex_acc inc (st\<lparr>m_inners := x\<rparr>) = mplex_acc inc st"
  "(mplex_set_acc inc a st)\<lparr>m_inners := x\<rparr> = mplex_set_acc inc a (st\<lparr>m_inners := x\<rparr>)"
  by (simp_all add: mplex_acc_def mplex_set_acc_def)

definition mplex_steps ::
  "(bytes \<Rightarrow> string) \<Rightarrow> (stream_id \<Rightarrow> 'i) \<Rightarrow> bool \<Rightarrow> (stream_id \<rightharpoonup> 'i status) \<Rightarrow> (tag \<times> stream_id \<times> bytes) list
     \<Rightarrow> mplex_output list \<times> (stream_id \<rightharpoonup> 'i status)" where
  "mplex_steps hexenc mk inc = mealy (\<lambda>inners m. mplex_step hexenc mk inc m inners)"

context varint
begin

lemma mplex_accumulate_eq:
  "if mplex_panics vdec inc (acc @ bytes)
   then fst (mplex_accumulate vdec inc acc bytes) = Panic
   else mplex_accumulate vdec inc acc bytes =
     (case mplex_frame vdec inc (acc @ bytes) of
        Some (m, n) \<Rightarrow> (Done (Ready m), drop n (acc @ bytes))
      | None \<Rightarrow> (Done Pending, acc @ bytes))"
proof (cases "mplex_r vdec inc (acc @ bytes)")
  case (Done x)
  show ?thesis
  proof (cases x)
    case None
    with Done show ?thesis by (auto simp: mplex_accumulate_def mplex_panics_def mplex_frame_def)
  next
    case (Some y)
    obtain t s len off where y: "y = (t, s, len, off)" by (cases y)
    with Done Some have r: "mplex_r vdec inc (acc @ bytes) = Done (Some (t, s, len, off))" by simp
    note o = mplex_r_offset [OF r]
    show ?thesis
    proof (cases "2 ^ 64 \<le> off + len")
      case True
      have "usize_add off len < off"
      proof (cases "off < 2 ^ 64")
        case True
        hence "(off + len) mod 2 ^ 64 = off + len - 2 ^ 64"
          using \<open>2 ^ 64 \<le> off + len\<close> o by (subst le_mod_geq) auto
        thus ?thesis using o True \<open>2 ^ 64 \<le> off + len\<close> unfolding usize_add_def by auto
      next
        case False
        have "(off + len) mod 2 ^ 64 < 2 ^ 64" by simp
        thus ?thesis using False unfolding usize_add_def by linarith
      qed
      with True r o show ?thesis
        by (cases "acc = []") (auto simp: mplex_accumulate_def mplex_panics_def Let_def)
    next
      case False
      hence "usize_add off len = off + len" by (simp add: usize_add_def)
      with False r o show ?thesis
        by (cases "acc = []")
          (auto simp: mplex_accumulate_def mplex_panics_def mplex_frame_def slice_def drop_take Let_def)
    qed
  qed
qed (auto simp: mplex_accumulate_def mplex_panics_def)

lemma mplex_frame_not_panics: "mplex_frame vdec inc bs \<noteq> None \<Longrightarrow> \<not> mplex_panics vdec inc bs"
  by (auto simp: mplex_frame_def mplex_panics_def split: outcome.splits option.splits if_splits)

lemma mplex_loop_eq:
  assumes "drain (mplex_frame vdec inc) (mplex_acc inc st @ bytes) = (fs, r)"
    and "mplex_steps hexenc mk inc (m_inners st) fs = (outs, inners)"
  shows "if mplex_panics vdec inc r
    then \<exists>st'. mplex_loop vdec hexenc mk inc st bytes out = Some (Panic, st')
    else mplex_loop vdec hexenc mk inc st bytes out =
      Some (Done (out @ outs), mplex_set_acc inc r (st\<lparr>m_inners := inners\<rparr>))"
  using assms
proof (induction fs arbitrary: st bytes out outs)
  case Nil
  hence "mplex_frame vdec inc (mplex_acc inc st @ bytes) = None" "r = mplex_acc inc st @ bytes"
    "outs = []" "inners = m_inners st"
    by (simp_all add: mp.drain_Nil mplex_steps_def)
  thus ?case
    using mplex_accumulate_eq [of inc "mplex_acc inc st" bytes]
    by (cases "mplex_panics vdec inc r")
      (simp_all add: mplex_loop.simps [of vdec hexenc mk inc st bytes] mplex_turn_def Let_def split_beta)
next
  case (Cons m fs)
  let ?buf = "mplex_acc inc st @ bytes"
  from Cons.prems(1) obtain n where f: "mplex_frame vdec inc ?buf = Some (m, n)"
    and d: "drain (mplex_frame vdec inc) (drop n ?buf) = (fs, r)"
    by (auto simp: drain.simps [of _ ?buf] split: option.splits prod.splits if_splits)
  obtain o1 inn where s: "mplex_step hexenc mk inc m (m_inners st) = (o1, inn)" by fastforce
  from Cons.prems(2) s obtain os where os: "mplex_steps hexenc mk inc inn fs = (os, inners)" "outs = o1 # os"
    by (auto simp: mplex_steps_def split: prod.splits)
  have t: "mplex_turn vdec inc st bytes = (Done (Ready m), mplex_set_acc inc (drop n ?buf) st)"
    using f mplex_frame_not_panics [of inc ?buf] mplex_accumulate_eq [of inc "mplex_acc inc st" bytes]
    by (simp add: mplex_turn_def)
  have l: "mplex_loop vdec hexenc mk inc st bytes out =
      mplex_loop vdec hexenc mk inc (mplex_set_acc inc (drop n ?buf) (st\<lparr>m_inners := inn\<rparr>)) [] (out @ [o1])"
    by (subst mplex_loop.simps) (simp add: t s Let_def)
  have "mplex_steps hexenc mk inc (m_inners (mplex_set_acc inc (drop n ?buf) (st\<lparr>m_inners := inn\<rparr>))) fs =
      (os, inners)" using os(1) by simp
  moreover have "drain (mplex_frame vdec inc)
      (mplex_acc inc (mplex_set_acc inc (drop n ?buf) (st\<lparr>m_inners := inn\<rparr>)) @ []) = (fs, r)"
    using d by simp
  ultimately show ?case
    using Cons.IH [of "mplex_set_acc inc (drop n ?buf) (st\<lparr>m_inners := inn\<rparr>)" "[]" os "out @ [o1]"] os(2)
    unfolding l by (cases "mplex_panics vdec inc r") simp_all
qed

lemma mplex_process_eq:
  assumes "drain (mplex_frame vdec inc) (mplex_acc inc st @ bytes) = (fs, r)"
    and "mplex_steps hexenc mk inc (m_inners st) fs = (outs, inners)"
  shows "if mplex_panics vdec inc r
    then \<exists>st'. mplex_process vdec hexenc mk inc st bytes = Some (Panic, st')
    else mplex_process vdec hexenc mk inc st bytes =
      Some (Done outs, mplex_set_acc inc r (st\<lparr>m_inners := inners\<rparr>))"
  using mplex_loop_eq [OF assms, of "[]"] by (simp add: mplex_process_def)

end

section \<open>Chunks\<close>

fun mplex_process_chunks ::
  "varint_decoder \<Rightarrow> (bytes \<Rightarrow> string) \<Rightarrow> (stream_id \<Rightarrow> 'i) \<Rightarrow> bool \<Rightarrow> 'i mplex_state \<Rightarrow> bytes list
     \<Rightarrow> ((unit, mplex_output list) outcome \<times> 'i mplex_state) option" where
  "mplex_process_chunks vdec hexenc mk inc st [] = Some (Done [], st)"
| "mplex_process_chunks vdec hexenc mk inc st (c # cs) =
     (case mplex_process vdec hexenc mk inc st c of
        Some (Done o1, st) \<Rightarrow>
          (case mplex_process_chunks vdec hexenc mk inc st cs of
             Some (Done o2, st) \<Rightarrow> Some (Done (o1 @ o2), st)
           | x \<Rightarrow> x)
      | x \<Rightarrow> x)"

lemma mplex_steps_Cons:
  "mplex_steps hexenc mk inc inners (m # ms) =
     (let (o1, i1) = mplex_step hexenc mk inc m inners; (os, i2) = mplex_steps hexenc mk inc i1 ms
      in (o1 # os, i2))"
  by (simp add: mplex_steps_def)

lemma mplex_steps_append:
  "mplex_steps hexenc mk inc inners (fs @ gs) =
     (let (o1, i1) = mplex_steps hexenc mk inc inners fs; (o2, i2) = mplex_steps hexenc mk inc i1 gs
      in (o1 @ o2, i2))"
  by (simp add: mplex_steps_def mealy_append)

context varint
begin

lemma mplex_panics_extend:
  assumes "mplex_panics vdec inc r"
  shows "mplex_frame vdec inc (r @ b) = None \<and> mplex_panics vdec inc (r @ b)"
proof (cases "mplex_r vdec inc r")
  case (Done x)
  with assms obtain y where "x = Some y" by (auto simp: mplex_panics_def split: option.splits)
  with Done mplex_r_extend [of inc r y b] assms show ?thesis
    by (auto simp: mplex_panics_def mplex_frame_def split: prod.splits)
next
  case Panic
  hence "mplex_r vdec inc (r @ b) = Panic"
    by (auto simp: mplex_r_def Let_def dec_extend split: option.splits prod.splits if_splits)
  thus ?thesis by (simp add: mplex_panics_def mplex_frame_def)
qed (auto simp: mplex_r_def Let_def split: option.splits prod.splits if_splits)

lemma mplex_chunks_eq:
  assumes "mplex_frame vdec inc (mplex_acc inc st) = None"
    and "drain (mplex_frame vdec inc) (mplex_acc inc st @ concat cs) = (fs, r)"
    and "\<not> mplex_panics vdec inc r"
    and "mplex_steps hexenc mk inc (m_inners st) fs = (outs, inners)"
  shows "mplex_process_chunks vdec hexenc mk inc st cs =
    Some (Done outs, mplex_set_acc inc r (st\<lparr>m_inners := inners\<rparr>))"
  using assms
proof (induction cs arbitrary: st fs outs)
  case Nil
  thus ?case using mplex_acc_simps(3) [of inc st] by (auto simp: drain_None mplex_steps_def)
next
  case (Cons c cs)
  let ?f = "mplex_frame vdec inc"
  obtain f1 r1 where d1: "drain ?f (mplex_acc inc st @ c) = (f1, r1)" by fastforce
  obtain f2 r2 where d2: "drain ?f (r1 @ concat cs) = (f2, r2)" by fastforce
  from mp.drain_append [of inc "mplex_acc inc st @ c" "concat cs"] Cons.prems(2) d1 d2
  have fs: "fs = f1 @ f2" "r = r2" by simp_all
  obtain o1 i1 where s1: "mplex_steps hexenc mk inc (m_inners st) f1 = (o1, i1)" by fastforce
  with Cons.prems(4) fs obtain o2 where s2: "mplex_steps hexenc mk inc i1 f2 = (o2, inners)"
    "outs = o1 @ o2" by (auto simp: mplex_steps_append split: prod.splits)
  have "\<not> mplex_panics vdec inc r1"
    using mplex_panics_extend [of inc r1 "concat cs"] d2 fs Cons.prems(3) by (auto simp: drain_None)
  hence p: "mplex_process vdec hexenc mk inc st c =
      Some (Done o1, mplex_set_acc inc r1 (st\<lparr>m_inners := i1\<rparr>))"
    using mplex_process_eq [OF d1 s1] by simp
  have "?f r1 = None" using mp.drain_rest [of inc "mplex_acc inc st @ c"] d1 by simp
  with Cons.IH [of "mplex_set_acc inc r1 (st\<lparr>m_inners := i1\<rparr>)" f2 o2] Cons.prems(3) d2 fs s2
  show ?case by (simp add: p)
qed

end

section \<open>Frame by frame\<close>

text \<open>
  The reference: every frame takes effect when its turn comes. The code updates the status of
  the streams for all frames of a chunk first; that makes no difference when, after a message
  of a stream, no later frame of the chunk opens, closes or resets that stream.
\<close>

fun mplex_sequential ::
  "(bytes \<Rightarrow> string) \<Rightarrow> ('e, 'w) db_ops \<Rightarrow> (stream_id \<Rightarrow> 'i) \<Rightarrow> ('e, 'i, 'w) on_data \<Rightarrow> directed_id
     \<Rightarrow> (tag \<times> stream_id \<times> bytes) list \<Rightarrow> 'i mplex_state \<Rightarrow> 'w
     \<Rightarrow> ('e, unit) outcome \<times> 'i mplex_state \<times> 'w" where
  "mplex_sequential hexenc db mk inner did [] st w = (Done (), st, w)"
| "mplex_sequential hexenc db mk inner did (m # ms) st w =
     (let (out, inners) = mplex_step hexenc mk (incoming did) m (m_inners st);
          (r, st, w) = mplex_deliver db inner did out (st\<lparr>m_inners := inners\<rparr>) w in
      case r of Done _ \<Rightarrow> mplex_sequential hexenc db mk inner did ms st w | _ \<Rightarrow> (r, st, w))"

definition mplex_keeps :: "stream_id \<Rightarrow> tag \<times> stream_id \<times> bytes \<Rightarrow> bool" where
  "mplex_keeps s m = (fst m = Msg \<or> fst (snd m) \<noteq> s)"

fun mplex_no_late :: "(tag \<times> stream_id \<times> bytes) list \<Rightarrow> bool" where
  "mplex_no_late [] = True"
| "mplex_no_late (m # ms) =
     ((fst m = Msg \<longrightarrow> list_all (mplex_keeps (fst (snd m))) ms) \<and> mplex_no_late ms)"

lemma mplex_step_keeps:
  assumes "mplex_keeps s m" and "inners s = Some x"
  shows "snd (mplex_step hexenc mk inc m inners) s = Some x \<and>
    mplex_step hexenc mk inc m (inners(s \<mapsto> set_status i x)) =
      (fst (mplex_step hexenc mk inc m inners),
       (snd (mplex_step hexenc mk inc m inners))(s \<mapsto> set_status i x))"
proof -
  obtain t s' p where m: "m = (t, s', p)" by (cases m)
  show ?thesis
  proof (cases "s' = s")
    case True
    thus ?thesis using assms m by (cases x) (simp_all add: mplex_step_def mplex_keeps_def)
  next
    case False
    thus ?thesis using assms m
      by (cases t) (simp_all add: mplex_step_def fun_upd_twist split: option.split status.split)
  qed
qed

lemma mplex_steps_keeps:
  assumes "list_all (mplex_keeps s) ms" and "inners s = Some x"
    and "mplex_steps hexenc mk inc inners ms = (outs, inn)"
  shows "inn s = Some x \<and>
    mplex_steps hexenc mk inc (inners(s \<mapsto> set_status i x)) ms = (outs, inn(s \<mapsto> set_status i x))"
  using assms
proof (induction ms arbitrary: inners outs)
  case Nil
  thus ?case by (simp add: mplex_steps_def)
next
  case (Cons m ms)
  obtain o1 i1 where s: "mplex_step hexenc mk inc m inners = (o1, i1)" by fastforce
  with Cons.prems(3) obtain os where os: "mplex_steps hexenc mk inc i1 ms = (os, inn)" "outs = o1 # os"
    by (auto simp: mplex_steps_def split: prod.splits)
  from mplex_step_keeps [of s m inners x hexenc mk inc i] Cons.prems s
  have "i1 s = Some x" and
    k: "mplex_step hexenc mk inc m (inners(s \<mapsto> set_status i x)) = (o1, i1(s \<mapsto> set_status i x))" by simp_all
  moreover have "list_all (mplex_keeps s) ms" using Cons.prems(1) by simp
  ultimately have "inn s = Some x" and
    b: "mplex_steps hexenc mk inc (i1(s \<mapsto> set_status i x)) ms = (os, inn(s \<mapsto> set_status i x))"
    using Cons.IH [OF _ _ os(1)] by blast+
  thus ?case unfolding mplex_steps_Cons k Let_def prod.case b os(2) by blast
qed

text \<open>Delivering one frame and changing the status of other streams commute.\<close>

lemma mplex_deliver_steps:
  assumes "mplex_step hexenc mk inc m inners = ((s, v), i1)"
    and "fst m = Msg \<longrightarrow> list_all (mplex_keeps s) ms"
    and "mplex_steps hexenc mk inc i1 ms = (os, inn)"
    and "mplex_deliver db inner did (s, v) (st\<lparr>m_inners := i1\<rparr>) w = (Done (), st1, w1)"
  shows "\<exists>inn1. mplex_steps hexenc mk inc (m_inners st1) ms = (os, inn1) \<and>
    st1 = st\<lparr>m_inners := m_inners st1\<rparr> \<and>
    mplex_deliver db inner did (s, v) (mplex_set_acc d r (st\<lparr>m_inners := inn\<rparr>)) w =
      (Done (), mplex_set_acc d r (st\<lparr>m_inners := inn1\<rparr>), w1)"
proof (cases "\<exists>b. v = MsgOut b False")
  case False
  hence "st1 = st\<lparr>m_inners := i1\<rparr>"
    using assms(4) by (cases v) (auto simp: mplex_deliver_def mplex_store_def split: prod.splits)
  with False assms(3,4) show ?thesis
    by (cases v) (auto simp: mplex_deliver_def mplex_store_def split: prod.splits)
next
  case True
  then obtain b where v: "v = MsgOut b False" by blast
  with assms(4) obtain x i w2 where x: "i1 s = Some x" and
    d: "inner did b (as_mut x) w = (Done (), i, w2)" "w1 = db_drop db w2"
    and st1: "st1 = st\<lparr>m_inners := i1(s \<mapsto> set_status i x)\<rparr>"
    by (auto simp: mplex_deliver_def split: option.splits prod.splits)
  from v assms(1) have "fst m = Msg"
    by (cases m) (auto simp: mplex_step_def split: tag.splits)
  with assms(2) mplex_steps_keeps [OF _ x assms(3), of i] have
    "inn s = Some x" "mplex_steps hexenc mk inc (i1(s \<mapsto> set_status i x)) ms = (os, inn(s \<mapsto> set_status i x))"
    by simp_all
  thus ?thesis
    by (intro exI [of _ "inn(s \<mapsto> set_status i x)"]) (simp add: st1 mplex_deliver_def v d)
qed

lemma mplex_deliver_all_sequential:
  assumes "mplex_no_late fs"
    and "mplex_steps hexenc mk (incoming did) (m_inners st) fs = (outs, inn)"
    and "mplex_sequential hexenc db mk inner did fs st w = (Done (), st', w')"
  shows "mplex_deliver_all db inner did outs (mplex_set_acc d r (st\<lparr>m_inners := inn\<rparr>)) w =
    (Done (), mplex_set_acc d r st', w')"
  using assms
proof (induction fs arbitrary: st w outs inn)
  case Nil
  thus ?case by (auto simp: mplex_steps_def)
next
  case (Cons m fs)
  obtain s v i1 where st: "mplex_step hexenc mk (incoming did) m (m_inners st) = ((s, v), i1)"
    by (metis prod.exhaust)
  hence s: "s = fst (snd m)" by (cases m) (auto simp: mplex_step_def split: tag.splits)
  from Cons.prems(2) st obtain os where os: "mplex_steps hexenc mk (incoming did) i1 fs = (os, inn)"
    "outs = (s, v) # os" by (auto simp: mplex_steps_Cons split: prod.splits)
  from Cons.prems(3) st obtain st1 w1 where
    d: "mplex_deliver db inner did (s, v) (st\<lparr>m_inners := i1\<rparr>) w = (Done (), st1, w1)"
    and q: "mplex_sequential hexenc db mk inner did fs st1 w1 = (Done (), st', w')"
    by (auto split: prod.splits outcome.splits)
  from mplex_deliver_steps [OF st _ os(1) d, of d r] Cons.prems(1) s obtain inn1 where
    n: "mplex_steps hexenc mk (incoming did) (m_inners st1) fs = (os, inn1)"
    "st1 = st\<lparr>m_inners := m_inners st1\<rparr>"
    "mplex_deliver db inner did (s, v) (mplex_set_acc d r (st\<lparr>m_inners := inn\<rparr>)) w =
      (Done (), mplex_set_acc d r (st\<lparr>m_inners := inn1\<rparr>), w1)" by auto
  have "st1\<lparr>m_inners := inn1\<rparr> = st\<lparr>m_inners := inn1\<rparr>" by (subst n(2)) simp
  with Cons.IH [OF _ n(1) q] Cons.prems(1) n(3) os(2) show ?case by simp
qed

context varint_codec
begin

lemma mplex_drain_emit:
  "\<forall>m \<in> set fs. mplex_frame_wf venc inc m \<Longrightarrow> mplex_frame vdec inc r = None \<Longrightarrow>
   drain (mplex_frame vdec inc) (concat (map (mplex_emit venc inc) fs) @ r) = (fs, r)"
  by (rule mpc.drain_emit)

end

lemma mplex_acc_new [simp]: "mplex_acc inc mplex_new = []"
  by (simp add: mplex_acc_def mplex_new_def)

lemma mplex_example:
  "drain (mplex_frame leb_u64 True) [0, 0, 2, 3, 0xab, 0xcd, 0xef, 6] =
     ([(New, Forward 0, []), (Msg, Forward 0, [0xab, 0xcd, 0xef])], [6])"
  "\<not> mplex_panics leb_u64 True [6]"
proof -
  have 6: "mplex_r leb_u64 True [6] = Done None"
    by (simp add: mplex_r_def leb_u64_small leb_u64_Nil Let_def)
  have 2: "mplex_r leb_u64 True [2, 3, 0xab, 0xcd, 0xef, 6] = Done (Some (Msg, Forward 0, 3, 2))"
    by (simp add: mplex_r_def leb_u64_small Let_def)
  have 0: "mplex_r leb_u64 True [0, 0, 2, 3, 0xab, 0xcd, 0xef, 6] = Done (Some (New, Forward 0, 0, 2))"
    by (simp add: mplex_r_def leb_u64_small Let_def)
  show "\<not> mplex_panics leb_u64 True [6]" by (simp add: mplex_panics_def 6)
  have f0: "mplex_frame leb_u64 True [0, 0, 2, 3, 0xab, 0xcd, 0xef, 6] = Some ((New, Forward 0, []), 2)"
    by (simp add: mplex_frame_def 0 slice_def)
  have f2: "mplex_frame leb_u64 True [2, 3, 0xab, 0xcd, 0xef, 6] =
      Some ((Msg, Forward 0, [0xab, 0xcd, 0xef]), 5)"
    by (simp add: mplex_frame_def 2 slice_def)
  have f6: "mplex_frame leb_u64 True [6] = None" by (simp add: mplex_frame_def 6)
  show "drain (mplex_frame leb_u64 True) [0, 0, 2, 3, 0xab, 0xcd, 0xef, 6] =
     ([(New, Forward 0, []), (Msg, Forward 0, [0xab, 0xcd, 0xef])], [6])"
    by (simp add: drain.simps [of _ "[0, 0, 2, 3, 0xab, 0xcd, 0xef, 6]"] f0
        drain.simps [of _ "[2, 3, 0xab, 0xcd, 0xef, 6]"] f2 drain_None f6)
qed

section \<open>Properties\<close>

text \<open>C11: \<open>process\<close> always returns. It cuts all complete frames off the buffered and the new bytes,
  lets them take effect in order, reports one output for each and keeps the rest; it panics
  exactly when the rest starts with a header of tag 7 or with a length that overflows.\<close>

theorem mplex_process_spec:
  assumes "varint vdec"
  shows "case drain (mplex_frame vdec inc) (mplex_acc inc st @ bytes) of (fs, r) \<Rightarrow>
    (case mplex_steps hexenc mk inc (m_inners st) fs of (outs, inners) \<Rightarrow>
       if mplex_panics vdec inc r
       then \<exists>st'. mplex_process vdec hexenc mk inc st bytes = Some (Panic, st')
       else mplex_process vdec hexenc mk inc st bytes =
         Some (Done outs, mplex_set_acc inc r (st\<lparr>m_inners := inners\<rparr>)))"
proof -
  obtain fs r where d: "drain (mplex_frame vdec inc) (mplex_acc inc st @ bytes) = (fs, r)" by fastforce
  obtain outs inners where s: "mplex_steps hexenc mk inc (m_inners st) fs = (outs, inners)" by fastforce
  from varint.mplex_process_eq [OF assms d s] show ?thesis by (simp only: d s prod.case)
qed

theorem mplex_process_spec_witness:
  "mplex_process leb_u64 (\<lambda>b. ''?'') (\<lambda>s. ()) True mplex_new [0, 0, 2, 3, 0xab, 0xcd, 0xef, 6] =
     Some (Done [(Forward 0, NewOut 0 '''' False), (Forward 0, MsgOut [0xab, 0xcd, 0xef] False)],
       mplex_new\<lparr>m_incoming := [6], m_inners := [Forward 0 \<mapsto> Duplex ()]\<rparr>)"
proof -
  have d: "drain (mplex_frame leb_u64 True) (mplex_acc True (mplex_new :: unit mplex_state) @
      [0, 0, 2, 3, 0xab, 0xcd, 0xef, 6]) =
      ([(New, Forward 0, []), (Msg, Forward 0, [0xab, 0xcd, 0xef])], [6])"
    by (simp add: mplex_example)
  note p = mplex_example(2)
  have s: "mplex_steps (\<lambda>b. ''?'') (\<lambda>s. ()) True (m_inners (mplex_new :: unit mplex_state))
      [(New, Forward 0, []), (Msg, Forward 0, [0xab, 0xcd, 0xef])] =
      ([(Forward 0, NewOut 0 '''' False), (Forward 0, MsgOut [0xab, 0xcd, 0xef] False)],
       [Forward 0 \<mapsto> Duplex ()])"
    by (simp add: mplex_steps_def mplex_step_def mplex_new_def mplex_header_def bytes_str_def utf8_valid_ascii)
  show ?thesis
    using mplex_process_spec [OF leb128.varint_axioms, where inc = True and
        st = "mplex_new :: unit mplex_state" and bytes = "[0, 0, 2, 3, 0xab, 0xcd, 0xef, 6]" and
        hexenc = "\<lambda>b. ''?''" and mk = "\<lambda>s. ()",
        unfolded d prod.case s] p
    by (simp add: mplex_set_acc_def)
qed

text \<open>C12: However the byte stream of a sequence of well-formed frames is cut into chunks, the
  calls of \<open>process\<close> on a new connection return and report exactly the effects of these frames
  in order, with nothing left in the buffer.\<close>

theorem mplex_process_roundtrip:
  assumes "varint_codec vdec venc" and "\<forall>m \<in> set fs. mplex_frame_wf venc inc m"
    and "concat cs = concat (map (mplex_emit venc inc) fs)"
  shows "mplex_process_chunks vdec hexenc mk inc mplex_new cs =
    (case mplex_steps hexenc mk inc Map.empty fs of
       (outs, inners) \<Rightarrow> Some (Done outs, mplex_new\<lparr>m_inners := inners\<rparr>))"
proof -
  note vc = varint_codec.axioms(1) [OF assms(1)]
  obtain outs inners where s: "mplex_steps hexenc mk inc (m_inners mplex_new) fs = (outs, inners)"
    by fastforce
  have vn: "vdec [] = None"
  proof (cases "vdec []")
    case (Some x)
    thus ?thesis using varint.dec_suffix [OF vc, of "[]"] by (cases x) auto
  qed
  hence n: "mplex_frame vdec inc [] = None" "\<not> mplex_panics vdec inc []"
    by (simp_all add: mplex_frame_def mplex_panics_def mplex_r_def)
  have "drain (mplex_frame vdec inc) (concat cs) = (fs, [])"
    using varint_codec.mplex_drain_emit [OF assms(1,2) n(1)] assms(3) by simp
  hence "mplex_process_chunks vdec hexenc mk inc mplex_new cs =
      Some (Done outs, mplex_set_acc inc [] (mplex_new\<lparr>m_inners := inners\<rparr>))"
    using varint.mplex_chunks_eq [OF vc _ _ n(2) s, of cs] n(1) by simp
  thus ?thesis using s by (simp add: mplex_new_def mplex_set_acc_def)
qed

theorem mplex_process_roundtrip_witness:
  "mplex_process_chunks leb_u64 (\<lambda>b. ''?'') (\<lambda>s. ()) True mplex_new [[0], [0, 2, 3, 0xab], [0xcd, 0xef]] =
     (case mplex_steps (\<lambda>b. ''?'') (\<lambda>s. ()) True Map.empty
        [(New, Forward 0, []), (Msg, Forward 0, [0xab, 0xcd, 0xef])] of
        (outs, inners) \<Rightarrow> Some (Done outs, mplex_new\<lparr>m_inners := inners\<rparr>))"
proof (rule mplex_process_roundtrip [OF leb128.varint_codec_axioms])
  show "\<forall>m \<in> set [(New, Forward 0, []), (Msg, Forward 0, [0xab, 0xcd, 0xef])].
      mplex_frame_wf leb_enc_u64 True m"
    by (simp add: mplex_frame_wf_def mplex_emit_def leb_enc_u64_small mplex_header_def mplex_code_def)
  show "concat [[0], [0, 2, 3, 0xab], [0xcd, 0xef]] = concat (map (mplex_emit leb_enc_u64 True)
      [(New, Forward 0, []), (Msg, Forward 0, [0xab, 0xcd, 0xef])])"
    by (simp add: mplex_emit_def leb_enc_u64_small mplex_header_def mplex_code_def)
qed

text \<open>C13: When no message of a stream is followed, in the same chunk, by a frame that opens,
  closes or resets that stream, the handler does what the frame-by-frame reference does: same
  calls of the inner protocols and of the database in the same order, same streams afterwards;
  in particular the \<open>expect\<close> on the stream of a message cannot fail.\<close>

theorem mplex_on_data_sequential:
  assumes "varint vdec"
    and "drain (mplex_frame vdec (incoming did)) (mplex_acc (incoming did) st @ bytes) = (fs, r)"
    and "\<not> mplex_panics vdec (incoming did) r"
    and "mplex_no_late fs"
    and "mplex_sequential hexenc db mk inner did fs st w = (Done (), st', w')"
  shows "mplex_on_data vdec hexenc db mk inner did bytes st w =
    (Done (), mplex_set_acc (incoming did) r st', w')"
proof -
  obtain outs inn where s: "mplex_steps hexenc mk (incoming did) (m_inners st) fs = (outs, inn)"
    by fastforce
  with varint.mplex_process_eq [OF assms(1,2) s] assms(3)
    mplex_deliver_all_sequential [OF assms(4) s assms(5)]
  show ?thesis by (simp add: mplex_on_data_def)
qed

theorem mplex_on_data_sequential_witness:
  "mplex_on_data leb_u64 (\<lambda>b. ''?'') list_db (\<lambda>s. []) (\<lambda>did bs i w. (Done (), i @ bs, w))
     (sample_did True) [0, 0, 2, 3, 0xab, 0xcd, 0xef, 6] mplex_new [] =
   (Done (), (mplex_new :: bytes mplex_state)
      \<lparr>m_incoming := [6], m_inners := [Forward 0 \<mapsto> Duplex [0xab, 0xcd, 0xef]]\<rparr>,
    [(Forward 0, Kind_Mplex, [0, 0, 0, 0, 0, 0, 0, 0])])"
proof -
  have d: "drain (mplex_frame leb_u64 (incoming (sample_did True)))
      (mplex_acc (incoming (sample_did True)) (mplex_new :: bytes mplex_state) @
      [0, 0, 2, 3, 0xab, 0xcd, 0xef, 6]) =
      ([(New, Forward 0, []), (Msg, Forward 0, [0xab, 0xcd, 0xef])], [6])"
    by (simp add: mplex_example sample_did_def)
  have p: "\<not> mplex_panics leb_u64 (incoming (sample_did True)) [6]"
    "mplex_no_late [(New, Forward 0, []), (Msg, Forward 0, [0xab, 0xcd, 0xef])]"
    using mplex_example(2) by (simp_all add: sample_did_def mplex_keeps_def)
  have u: "u64_be 0 = [0, 0, 0, 0, 0, 0, 0, 0]" by code_simp
  have s: "mplex_sequential (\<lambda>b. ''?'') list_db (\<lambda>s. []) (\<lambda>did bs i w. (Done (), i @ bs, w))
      (sample_did True) [(New, Forward 0, []), (Msg, Forward 0, [0xab, 0xcd, 0xef])] mplex_new [] =
      (Done (), (mplex_new :: bytes mplex_state)\<lparr>m_inners := [Forward 0 \<mapsto> Duplex [0xab, 0xcd, 0xef]]\<rparr>,
       [(Forward 0, Kind_Mplex, [0, 0, 0, 0, 0, 0, 0, 0])])"
    by (simp add: mplex_step_def mplex_deliver_def mplex_store_def mplex_new_def mplex_header_def
        list_db_def u Let_def)
  show ?thesis
    using mplex_on_data_sequential [OF leb128.varint_axioms d p s]
    by (simp add: mplex_new_def mplex_set_acc_def sample_did_def)
qed

end
