(* ===== verification/Multistream.thy ===== *)
theory Multistream
  imports Framing Types Varint
begin

text \<open>
  Protocol negotiation (\<open>mina-recorder/src/connection/multistream_select.rs\<close>): the parser of
  tokens (module \<open>ll\<close>), the state machine of the two directions of a stream that finds out which
  protocol was agreed on, including simultaneous connect (module \<open>hl\<close>), and the handler that
  passes everything behind the agreement to the protocol. The varint decoder
  (\<open>unsigned_varint::decode::usize\<close>) is a parameter, and so is \<open>DynamicProtocol::from_name\<close> of
  the inner protocol, with \<open>None\<close> for a name on which it panics.
\<close>

section \<open>Tokens\<close>

datatype ll_output = LString string | InitiatorToken | ResponderToken

definition initiator_token :: bytes where "initiator_token = as_bytes (CHR 0x0A # ''initiator'' @ [CHR 0x0A])"
definition responder_token :: bytes where "responder_token = as_bytes (CHR 0x0A # ''responder'' @ [CHR 0x0A])"

text \<open>\<open>Inl msg\<close> is the error for a token that is not UTF-8.\<close>

definition ll_poll :: "varint_decoder \<Rightarrow> bytes \<Rightarrow> ((bytes + ll_output) \<times> bytes) option" where
  "ll_poll vdec acc =
     (if starts_with initiator_token acc then Some (Inr InitiatorToken, drop 11 acc)
      else if starts_with responder_token acc then Some (Inr ResponderToken, drop 11 acc)
      else case vdec acc of
             None \<Rightarrow> None
           | Some (len, remaining) \<Rightarrow>
               if length remaining < unat len then None
               else
                 (let msg = take (unat len) remaining;
                      result = (if utf8_valid msg
                                then Inr (LString (trim_end_matches (CHR 0x0A) (bytes_str msg)))
                                else Inl msg)
                  in Some (result, drop (unat len) remaining)))"

definition ll_end :: "bytes \<Rightarrow> bytes \<Rightarrow> bytes \<times> bytes" where
  "ll_end acc bytes = (if acc = [] then (bytes, acc) else (acc @ bytes, []))"

section \<open>Negotiation\<close>

record one_direction =
  ll_acc :: bytes
  simultaneous_connect :: bool
  hl_done :: "string option"

definition one_direction_default :: one_direction where
  "one_direction_default = \<lparr>ll_acc = [], simultaneous_connect = False, hl_done = None\<rparr>"

record hl_state =
  hl_incoming :: one_direction
  hl_outgoing :: one_direction

record hl_output =
  tokens :: "string list"
  hl_error :: "bytes option"
  agreed :: "(string \<times> bytes) option"

definition hl_output_default :: hl_output where
  "hl_output_default = \<lparr>tokens = [], hl_error = None, agreed = None\<rparr>"

text \<open>
  The body of the \<open>while let\<close> loop for one token of this direction; the last component says
  whether the loop breaks.
\<close>

definition hl_token ::
  "ll_output \<Rightarrow> one_direction \<Rightarrow> one_direction \<Rightarrow> hl_output \<Rightarrow> one_direction \<times> one_direction \<times> hl_output \<times> bool" where
  "hl_token t this other out =
     (case t of
        LString s \<Rightarrow>
          (let out = out\<lparr>tokens := tokens out @ [s]\<rparr> in
           if starts_with ''/multistream/'' s then (this, other, out, False)
           else if starts_with ''/libp2p/simultaneous-connect'' s then
             (this\<lparr>simultaneous_connect := True\<rparr>,
              (if simultaneous_connect other then other\<lparr>hl_done := None\<rparr> else other), out, False)
           else if s = ''na'' then
             (this,
              (if simultaneous_connect other then other\<lparr>simultaneous_connect := False\<rparr>
               else other\<lparr>hl_done := None\<rparr>), out, False)
           else if starts_with ''select'' s then (this, other, out, False)
           else if \<not> (simultaneous_connect this \<and> simultaneous_connect other) then
             (this\<lparr>hl_done := Some s\<rparr>, other, out, True)
           else (this, other, out, False))
      | InitiatorToken \<Rightarrow>
          (this\<lparr>simultaneous_connect := False\<rparr>, other, out\<lparr>tokens := tokens out @ [''initiator'']\<rparr>, False)
      | ResponderToken \<Rightarrow>
          (this\<lparr>simultaneous_connect := False\<rparr>, other, out\<lparr>tokens := tokens out @ [''responder'']\<rparr>, False))"

text \<open>One turn of the loop, and the loop; \<open>True\<close> says that the loop goes on.\<close>

definition hl_turn ::
  "varint_decoder \<Rightarrow> one_direction \<Rightarrow> one_direction \<Rightarrow> hl_output
     \<Rightarrow> (one_direction \<times> one_direction \<times> hl_output) \<times> bool" where
  "hl_turn vdec this other out =
     (case ll_poll vdec (ll_acc this) of
        None \<Rightarrow> ((this, other, out), False)
      | Some (Inl msg, acc) \<Rightarrow> ((this\<lparr>ll_acc := acc\<rparr>, other, out\<lparr>hl_error := Some msg\<rparr>), False)
      | Some (Inr t, acc) \<Rightarrow>
          (let (this, other, out, brk) = hl_token t (this\<lparr>ll_acc := acc\<rparr>) other out
           in ((this, other, out), \<not> brk)))"

partial_function (option) hl_loop ::
  "varint_decoder \<Rightarrow> one_direction \<Rightarrow> one_direction \<Rightarrow> hl_output
     \<Rightarrow> (one_direction \<times> one_direction \<times> hl_output) option" where
  "hl_loop vdec this other out =
     (let t = hl_turn vdec this other out in
      if snd t then hl_loop vdec (fst (fst t)) (fst (snd (fst t))) (snd (snd (fst t)))
      else Some (fst t))"

definition hl_this :: "bool \<Rightarrow> hl_state \<Rightarrow> one_direction" where
  "hl_this inc st = (if inc then hl_incoming st else hl_outgoing st)"

definition hl_pair :: "bool \<Rightarrow> one_direction \<Rightarrow> one_direction \<Rightarrow> hl_state" where
  "hl_pair inc this other =
     (if inc then \<lparr>hl_incoming = this, hl_outgoing = other\<rparr>
      else \<lparr>hl_incoming = other, hl_outgoing = this\<rparr>)"

definition hl_poll :: "varint_decoder \<Rightarrow> bool \<Rightarrow> hl_state \<Rightarrow> bytes \<Rightarrow> (hl_output \<times> hl_state) option" where
  "hl_poll vdec inc st bytes =
     (let this = hl_this inc st; other = hl_this (\<not> inc) st in
      case hl_done this of
        Some lp \<Rightarrow>
          (let (data, acc) = ll_end (ll_acc this) bytes
           in Some (hl_output_default\<lparr>agreed := Some (lp, data)\<rparr>,
                    hl_pair inc (this\<lparr>ll_acc := acc\<rparr>) other))
      | None \<Rightarrow>
          (case hl_loop vdec (this\<lparr>ll_acc := ll_acc this @ bytes\<rparr>) other hl_output_default of
             None \<Rightarrow> None
           | Some (this, other, out) \<Rightarrow> Some (out, hl_pair inc this other)))"

section \<open>The handler\<close>

record 'i ms_state =
  ms_stream_id :: stream_id
  ms_error :: bool
  ms_inner :: "'i option"
  ms_hl :: hl_state

definition ms_from :: "stream_id \<Rightarrow> 'i ms_state" where
  "ms_from s = \<lparr>ms_stream_id = s, ms_error = False, ms_inner = None,
     ms_hl = \<lparr>hl_incoming = one_direction_default, hl_outgoing = one_direction_default\<rparr>\<rparr>"

fun ms_add_tokens ::
  "('e, 'w) db_ops \<Rightarrow> stream_id \<Rightarrow> directed_id \<Rightarrow> string list \<Rightarrow> 'w \<Rightarrow> ('e, unit) outcome \<times> 'w" where
  "ms_add_tokens db s did [] w = (Done (), w)"
| "ms_add_tokens db s did (t # ts) w =
     bind_outcome (db_add db s did Kind_Select (as_bytes t) w) (\<lambda>_. ms_add_tokens db s did ts)"

definition ms_store_tokens ::
  "('e, 'w) db_ops \<Rightarrow> stream_id \<Rightarrow> directed_id \<Rightarrow> string list \<Rightarrow> 'w \<Rightarrow> ('e, unit) outcome \<times> 'w" where
  "ms_store_tokens db s did ts w =
     (if ts = [] then (Done (), w)
      else let (r, w) = ms_add_tokens db s did ts w in (r, db_drop db w))"

definition ms_pass ::
  "(string \<Rightarrow> stream_id \<Rightarrow> 'i option) \<Rightarrow> ('e, 'i, 'w) on_data \<Rightarrow> directed_id \<Rightarrow> (string \<times> bytes) option
     \<Rightarrow> 'i ms_state \<Rightarrow> 'w \<Rightarrow> ('e, unit) outcome \<times> 'i ms_state \<times> 'w" where
  "ms_pass from_name inner did agr st w =
     (case agr of
        None \<Rightarrow> (Done (), st, w)
      | Some (protocol, data) \<Rightarrow>
          (case (case ms_inner st of Some i \<Rightarrow> Some i | None \<Rightarrow> from_name protocol (ms_stream_id st)) of
             None \<Rightarrow> (Panic, st, w)
           | Some i \<Rightarrow>
               (let (r, i, w) = inner did data i w in (r, st\<lparr>ms_inner := Some i\<rparr>, w))))"

definition ms_on_data ::
  "varint_decoder \<Rightarrow> ('e, 'w) db_ops \<Rightarrow> (string \<Rightarrow> stream_id \<Rightarrow> 'i option) \<Rightarrow> ('e, 'i, 'w) on_data
     \<Rightarrow> ('e, 'i ms_state, 'w) on_data" where
  "ms_on_data vdec db from_name inner did bytes st w =
     (if ms_error st then (Done (), st, w)
      else case hl_poll vdec (incoming did) (ms_hl st) bytes of
        None \<Rightarrow> (Hang, st, w)
      | Some (out, hl) \<Rightarrow>
          (let st = st\<lparr>ms_hl := hl\<rparr>;
               (r, w) = ms_store_tokens db (ms_stream_id st) did (tokens out) w
           in case r of
                Done _ \<Rightarrow>
                  ms_pass from_name inner did (agreed out)
                    (if hl_error out \<noteq> None then st\<lparr>ms_error := True\<rparr> else st) w
              | _ \<Rightarrow> (r, st, w)))"

section \<open>Tokens do not depend on the bytes behind them\<close>

lemma token_length: "length initiator_token = 11" "length responder_token = 11"
  by (simp_all add: initiator_token_def responder_token_def)

lemma token_parts:
  "initiator_token = 10 # tl initiator_token" "responder_token = 10 # tl responder_token"
  "initiator_token \<noteq> responder_token"
  by (simp_all add: initiator_token_def responder_token_def as_bytes_def)

lemma starts_with_drop: "starts_with p xs \<Longrightarrow> xs = p @ drop (length p) xs"
  unfolding starts_with_def by (metis append_take_drop_id)

context varint
begin

text \<open>
  A prefix of the initiator or responder token is also the start of a token of length 10, so
  a token that is complete is not mistaken for the start of such a token.
\<close>

lemma ll_poll_not_partial:
  assumes "vdec acc = Some (len, r)" and "unat len \<le> length r"
    and "starts_with p (acc @ b)" and "p = 10 # tl p" and "length p = 11"
  shows "starts_with p acc"
proof (cases "11 \<le> length acc")
  case True
  thus ?thesis using assms(3,5) by (auto simp: starts_with_def)
next
  case False
  obtain x xs where acc: "acc = x # xs" using assms(1) dec_suffix [of acc] by (cases acc) auto
  have "x = 10" using assms(3,4,5) acc by (cases p) (auto simp: starts_with_def)
  hence "vdec acc = Some (10, xs)" using dec_small [of x xs] acc by simp
  thus ?thesis using assms(1,2) False acc by simp
qed

lemma ll_poll_Some:
  assumes "ll_poll vdec acc = Some (t, acc')"
  shows "length acc' < length acc \<and> ll_poll vdec (acc @ b) = Some (t, acc' @ b)"
proof -
  consider (ini) "starts_with initiator_token acc"
    | (res) "\<not> starts_with initiator_token acc" "starts_with responder_token acc"
    | (str) "\<not> starts_with initiator_token acc" "\<not> starts_with responder_token acc" by blast
  thus ?thesis
  proof cases
    case ini
    have "11 \<le> length acc"
      using starts_with_drop [OF ini] token_length by (metis le_add1 length_append)
    thus ?thesis using ini assms starts_with_extend [OF ini, of b] by (auto simp: ll_poll_def)
  next
    case res
    have l: "11 \<le> length acc"
      using starts_with_drop [OF res(2)] token_length by (metis le_add1 length_append)
    hence "\<not> starts_with initiator_token (acc @ b)"
      using res(1) token_length by (simp add: starts_with_def)
    thus ?thesis using l res assms starts_with_extend [OF res(2), of b] by (auto simp: ll_poll_def)
  next
    case str
    with assms obtain len r where d: "vdec acc = Some (len, r)" "unat len \<le> length r"
      by (auto simp: ll_poll_def split: option.splits prod.splits if_splits)
    have "\<not> starts_with initiator_token (acc @ b)" "\<not> starts_with responder_token (acc @ b)"
      using ll_poll_not_partial [OF d] token_length token_parts str by blast+
    thus ?thesis
      using str assms d dec_length [OF d(1)] dec_extend [OF d(1), of b]
      by (auto simp: ll_poll_def Let_def)
  qed
qed

section \<open>The loop\<close>

lemma hl_token_acc:
  "hl_token t (this\<lparr>ll_acc := a\<rparr>) other out =
     (case hl_token t (this\<lparr>ll_acc := a'\<rparr>) other out of
        (this', other', out', brk) \<Rightarrow> (this'\<lparr>ll_acc := a\<rparr>, other', out', brk))"
  by (simp add: hl_token_def Let_def split: ll_output.split)

lemma hl_token_parts:
  assumes "hl_token t this other out = (this', other', out', brk)"
  shows "ll_acc this' = ll_acc this \<and> hl_error out' = hl_error out \<and>
    (hl_done this = None \<longrightarrow> (brk \<longleftrightarrow> hl_done this' \<noteq> None))"
  using assms by (auto simp: hl_token_def Let_def split: ll_output.splits if_splits)

lemma hl_loop_returns: "\<exists>r. hl_loop vdec this other out = Some r"
proof (induction "length (ll_acc this)" arbitrary: this other out rule: less_induct)
  case less
  show ?case
  proof (cases "snd (hl_turn vdec this other out)")
    case False
    thus ?thesis by (subst hl_loop.simps) (simp add: Let_def del: split_paired_Ex)
  next
    case True
    then obtain t acc where p: "ll_poll vdec (ll_acc this) = Some (Inr t, acc)"
      by (auto simp: hl_turn_def split: option.splits prod.splits sum.splits)
    obtain this' other' out' brk where
      h: "hl_token t (this\<lparr>ll_acc := acc\<rparr>) other out = (this', other', out', brk)"
      by (metis prod_cases4)
    have "length (ll_acc this') < length (ll_acc this)"
      using hl_token_parts [OF h] ll_poll_Some [OF p] by simp
    from less [OF this] True show ?thesis
      by (subst hl_loop.simps) (simp add: Let_def hl_turn_def p h)
  qed
qed

lemma hl_turn_on:
  assumes "ll_poll vdec (ll_acc this) = Some (Inr t, acc)"
    and "hl_token t (this\<lparr>ll_acc := acc\<rparr>) other out = (this', other', out', brk)"
  shows "hl_loop vdec this other out =
    (if brk then Some (this', other', out') else hl_loop vdec this' other' out')"
  by (subst hl_loop.simps) (simp add: Let_def hl_turn_def assms)

lemma hl_turn_error:
  "ll_poll vdec (ll_acc this) = Some (Inl m, acc) \<Longrightarrow>
   hl_loop vdec this other out = Some (this\<lparr>ll_acc := acc\<rparr>, other, out\<lparr>hl_error := Some m\<rparr>)"
  by (subst hl_loop.simps) (simp add: Let_def hl_turn_def)

lemma hl_loop_append:
  assumes "hl_loop vdec this other out = Some (this1, other1, out1)" and "hl_error out = None"
    and "hl_done this = None"
  shows "hl_loop vdec (this\<lparr>ll_acc := ll_acc this @ b\<rparr>) other out =
    (if hl_done this1 = None \<and> hl_error out1 = None then hl_loop vdec (this1\<lparr>ll_acc := ll_acc this1 @ b\<rparr>) other1 out1
     else Some (this1\<lparr>ll_acc := ll_acc this1 @ b\<rparr>, other1, out1))"
  using assms
proof (induction "length (ll_acc this)" arbitrary: this other out rule: less_induct)
  case less
  show ?case
  proof (cases "ll_poll vdec (ll_acc this)")
    case None
    with less.prems(1) have "this1 = this" "other1 = other" "out1 = out"
      by (simp_all add: hl_loop.simps [of vdec this other out] hl_turn_def)
    with less.prems(2,3) show ?thesis by simp
  next
    case (Some x)
    then obtain y acc where x: "ll_poll vdec (ll_acc this) = Some (y, acc)" by (cases x) simp
    show ?thesis
    proof (cases y)
      case (Inl m)
      hence "ll_poll vdec (ll_acc this @ b) = Some (Inl m, acc @ b)" using ll_poll_Some [OF x, of b] by simp
      hence "hl_loop vdec (this\<lparr>ll_acc := ll_acc this @ b\<rparr>) other out =
          Some (this\<lparr>ll_acc := acc @ b\<rparr>, other, out\<lparr>hl_error := Some m\<rparr>)"
        using hl_turn_error [of "this\<lparr>ll_acc := ll_acc this @ b\<rparr>"] by simp
      with hl_turn_error [OF x [unfolded Inl]] less.prems(1) show ?thesis by auto
    next
      case (Inr t)
      obtain this' other' out' brk where
        h: "hl_token t (this\<lparr>ll_acc := acc\<rparr>) other out = (this', other', out', brk)"
        by (metis prod_cases4)
      note hp = hl_token_parts [OF h]
      note on = hl_turn_on [OF x [unfolded Inr] h]
      have x': "ll_poll vdec (ll_acc (this\<lparr>ll_acc := ll_acc this @ b\<rparr>)) = Some (Inr t, acc @ b)"
        using ll_poll_Some [OF x, of b] Inr by simp
      have h': "hl_token t ((this\<lparr>ll_acc := ll_acc this @ b\<rparr>)\<lparr>ll_acc := acc @ b\<rparr>) other out =
          (this'\<lparr>ll_acc := ll_acc this' @ b\<rparr>, other', out', brk)"
        using hl_token_acc [where a = "acc @ b" and a' = acc, of t this other out] h hp by simp
      note on' = hl_turn_on [OF x' h']
      show ?thesis
      proof (cases brk)
        case True
        with on on' less.prems hp show ?thesis by auto
      next
        case False
        with on less.prems(1) have "hl_loop vdec this' other' out' = Some (this1, other1, out1)" by simp
        moreover have "length (ll_acc this') < length (ll_acc this)" using hp ll_poll_Some [OF x] by simp
        moreover have "hl_done this' = None" using False hp less.prems(3) by simp
        moreover have "hl_error out' = None" using hp less.prems(2) by simp
        ultimately show ?thesis using less.hyps on' False by simp
      qed
    qed
  qed
qed

lemma hl_token_out:
  "hl_token t this other (out\<lparr>tokens := ts @ tokens out\<rparr>) =
     (case hl_token t this other out of
        (this', other', out', brk) \<Rightarrow> (this', other', out'\<lparr>tokens := ts @ tokens out'\<rparr>, brk))"
  by (simp add: hl_token_def Let_def split: ll_output.split)

lemma hl_loop_out:
  "hl_loop vdec this other (out\<lparr>tokens := ts @ tokens out\<rparr>) =
     map_option (\<lambda>(this, other, out). (this, other, out\<lparr>tokens := ts @ tokens out\<rparr>))
       (hl_loop vdec this other out)"
proof (induction "length (ll_acc this)" arbitrary: this other out rule: less_induct)
  case less
  show ?case
  proof (cases "ll_poll vdec (ll_acc this)")
    case None
    thus ?thesis by (simp add: hl_loop.simps [of vdec this other] hl_turn_def)
  next
    case (Some x)
    then obtain y acc where x: "ll_poll vdec (ll_acc this) = Some (y, acc)" by (cases x) simp
    show ?thesis
    proof (cases y)
      case (Inl m)
      with x show ?thesis by (simp add: hl_loop.simps [of vdec this other] hl_turn_def)
    next
      case (Inr t)
      obtain this' other' out' brk where
        h: "hl_token t (this\<lparr>ll_acc := acc\<rparr>) other out = (this', other', out', brk)"
        by (metis prod_cases4)
      have h': "hl_token t (this\<lparr>ll_acc := acc\<rparr>) other (out\<lparr>tokens := ts @ tokens out\<rparr>) =
          (this', other', out'\<lparr>tokens := ts @ tokens out'\<rparr>, brk)"
        by (simp add: hl_token_out h)
      have "length (ll_acc this') < length (ll_acc this)"
        using hl_token_parts [OF h] ll_poll_Some [OF x] by simp
      from less [OF this] show ?thesis
        unfolding hl_turn_on [OF x [unfolded Inr] h] hl_turn_on [OF x [unfolded Inr] h'] by simp
    qed
  qed
qed

end

section \<open>Chunks\<close>

text \<open>
  Polling one direction chunk by chunk: all tokens, all data handed to the agreed protocol, and
  the final state. An error ends the negotiation (\<open>None\<close>).
\<close>

fun hl_feed :: "varint_decoder \<Rightarrow> bool \<Rightarrow> hl_state \<Rightarrow> bytes list \<Rightarrow> (string list \<times> bytes \<times> hl_state) option" where
  "hl_feed vdec inc st [] = Some ([], [], st)"
| "hl_feed vdec inc st (c # cs) =
     (case hl_poll vdec inc st c of
        None \<Rightarrow> None
      | Some (out, st) \<Rightarrow>
          if hl_error out \<noteq> None then None
          else case hl_feed vdec inc st cs of
                 None \<Rightarrow> None
               | Some (ts, d, st) \<Rightarrow>
                   Some (tokens out @ ts, (case agreed out of None \<Rightarrow> [] | Some (_, d1) \<Rightarrow> d1) @ d, st))"

lemma hl_pair_this [simp]:
  "hl_this inc (hl_pair inc this other) = this" "hl_this (\<not> inc) (hl_pair inc this other) = other"
  "hl_pair inc (hl_this inc st) (hl_this (\<not> inc) st) = st"
  by (auto simp: hl_this_def hl_pair_def)

lemma hl_poll_agreed:
  "hl_done (hl_this inc st) = Some p \<Longrightarrow>
   hl_poll vdec inc st bytes = Some (hl_output_default\<lparr>agreed := Some (p, ll_acc (hl_this inc st) @ bytes)\<rparr>,
     hl_pair inc ((hl_this inc st)\<lparr>ll_acc := []\<rparr>) (hl_this (\<not> inc) st))"
  by (auto simp: hl_poll_def ll_end_def Let_def)

lemma hl_feed_agreed:
  "hl_done (hl_this inc st) = Some p \<Longrightarrow>
   hl_feed vdec inc st cs =
     (if cs = [] then Some ([], [], st)
      else Some ([], ll_acc (hl_this inc st) @ concat cs,
        hl_pair inc ((hl_this inc st)\<lparr>ll_acc := []\<rparr>) (hl_this (\<not> inc) st)))"
proof (induction cs arbitrary: st)
  case (Cons c cs)
  let ?st = "hl_pair inc ((hl_this inc st)\<lparr>ll_acc := []\<rparr>) (hl_this (\<not> inc) st)"
  have "hl_feed vdec inc ?st cs = (if cs = [] then Some ([], [], ?st) else Some ([], concat cs, ?st))"
    using Cons.IH [of ?st] Cons.prems by simp
  thus ?case using hl_poll_agreed [OF Cons.prems] by (auto simp: hl_output_default_def)
qed simp

lemma hl_loop_agreed_None: "hl_loop vdec this other out = Some (this', other', out') \<Longrightarrow> agreed out' = agreed out"
proof -
  have "agreed (snd (snd r)) = agreed out" if "hl_loop vdec this other out = Some r" for r
    using that
  proof (rule hl_loop.raw_induct [rotated, where P = "\<lambda>vdec this other out r. agreed (snd (snd r)) = agreed out"])
    fix loop vdec this other out r
    assume IH: "\<And>vdec this other out r. loop vdec this other out = Some r \<Longrightarrow> agreed (snd (snd r)) = agreed out"
      and s: "(let t = hl_turn vdec this other out in
        if snd t then loop vdec (fst (fst t)) (fst (snd (fst t))) (snd (snd (fst t))) else Some (fst t)) = Some r"
    have "agreed (snd (snd (fst (hl_turn vdec this other out)))) = agreed out"
      by (auto simp: hl_turn_def hl_token_def Let_def
          split: option.split sum.split ll_output.split prod.split)
    with s IH show "agreed (snd (snd r)) = agreed out" by (auto simp: Let_def split: if_splits)
  qed
  thus "hl_loop vdec this other out = Some (this', other', out') \<Longrightarrow> agreed out' = agreed out" by fastforce
qed

context varint
begin

lemma hl_poll_loop:
  "hl_done (hl_this inc st) = None \<Longrightarrow>
   hl_poll vdec inc st bytes =
     map_option (\<lambda>(this, other, out). (out, hl_pair inc this other))
       (hl_loop vdec ((hl_this inc st)\<lparr>ll_acc := ll_acc (hl_this inc st) @ bytes\<rparr>)
         (hl_this (\<not> inc) st) hl_output_default)"
  by (auto simp: hl_poll_def Let_def split: option.split)

text \<open>A chunk that ends before the agreement can be joined with the next one.\<close>

lemma hl_poll_append:
  assumes "hl_done (hl_this inc st) = None" and "hl_poll vdec inc st c = Some (o1, st1)"
  shows "hl_poll vdec inc st (c @ d) =
    (if hl_done (hl_this inc st1) = None \<and> hl_error o1 = None
     then map_option (\<lambda>(out, st). (out\<lparr>tokens := tokens o1 @ tokens out\<rparr>, st)) (hl_poll vdec inc st1 d)
     else Some (o1, hl_pair inc ((hl_this inc st1)\<lparr>ll_acc := ll_acc (hl_this inc st1) @ d\<rparr>)
       (hl_this (\<not> inc) st1)))"
proof -
  let ?this = "(hl_this inc st)\<lparr>ll_acc := ll_acc (hl_this inc st) @ c\<rparr>"
  obtain this1 other1 where l: "hl_loop vdec ?this (hl_this (\<not> inc) st) hl_output_default =
      Some (this1, other1, o1)" and st1: "st1 = hl_pair inc this1 other1"
    using assms(2) by (auto simp: hl_poll_loop [OF assms(1)])
  have d: "hl_error hl_output_default = None" by (simp add: hl_output_default_def)
  have "o1 = hl_output_default\<lparr>tokens := tokens o1 @ tokens hl_output_default\<rparr>" if "hl_error o1 = None"
    using hl_loop_agreed_None [OF l] that by (cases o1) (simp add: hl_output_default_def)
  hence o: "hl_loop vdec t u o1 = map_option (\<lambda>(this, other, out).
      (this, other, out\<lparr>tokens := tokens o1 @ tokens out\<rparr>)) (hl_loop vdec t u hl_output_default)"
    if "hl_error o1 = None" for t u
    using hl_loop_out [where out = hl_output_default and ts = "tokens o1", of t u] that by simp
  from hl_loop_append [OF l d, of d] assms(1) show ?thesis
    by (simp add: hl_poll_loop assms(1) st1 o option.map_comp comp_def split_beta)
qed

lemma hl_poll_returns: "\<exists>out st'. hl_poll vdec inc st bytes = Some (out, st')"
proof (cases "hl_done (hl_this inc st)")
  case None
  thus ?thesis
    using hl_loop_returns [of "(hl_this inc st)\<lparr>ll_acc := ll_acc (hl_this inc st) @ bytes\<rparr>"
        "hl_this (\<not> inc) st" hl_output_default]
    by (auto simp: hl_poll_loop)
qed (simp add: hl_poll_agreed)

lemma hl_feed_eq:
  assumes "cs \<noteq> []" and "hl_done (hl_this inc st) = None"
    and "hl_poll vdec inc st (concat cs) = Some (out, st1)" and "hl_error out = None"
  shows "\<exists>d st2. hl_feed vdec inc st cs = Some (tokens out, d, st2) \<and>
    hl_pair inc ((hl_this inc st2)\<lparr>ll_acc := d @ ll_acc (hl_this inc st2)\<rparr>) (hl_this (\<not> inc) st2) = st1"
  using assms
proof (induction cs arbitrary: st out)
  case (Cons c cs)
  obtain o1 st' where p: "hl_poll vdec inc st c = Some (o1, st')" using hl_poll_returns by blast
  have e: "hl_error o1 = None"
    using hl_poll_append [OF Cons.prems(2) p, of "concat cs"] Cons.prems(3,4)
    by (cases "hl_error o1") simp_all
  have a: "agreed o1 = None"
    using p hl_loop_agreed_None by (fastforce simp: hl_poll_loop [OF Cons.prems(2)] hl_output_default_def)
  show ?case
  proof (cases "hl_done (hl_this inc st')")
    case (Some p')
    with hl_poll_append [OF Cons.prems(2) p, of "concat cs"] Cons.prems(3)
    show ?thesis using e a by (cases "cs = []") (auto simp: p hl_feed_agreed)
  next
    case None
    show ?thesis
    proof (cases "cs = []")
      case True
      with Cons.prems(3) p e a show ?thesis by simp
    next
      case False
      from hl_poll_append [OF Cons.prems(2) p, of "concat cs"] Cons.prems(3) None e obtain o2 where
        "hl_poll vdec inc st' (concat cs) = Some (o2, st1)" "out = o2\<lparr>tokens := tokens o1 @ tokens o2\<rparr>"
        by (auto)
      with Cons.IH [OF False None this(1)] Cons.prems(4) p e a show ?thesis by auto
    qed
  qed
qed simp

end

section \<open>Properties\<close>

text \<open>C34: The negotiation loop ends on every input, in every state.\<close>

theorem hl_poll_terminates:
  assumes "varint vdec"
  shows "\<exists>out st'. hl_poll vdec inc st bytes = Some (out, st')"
  by (rule varint.hl_poll_returns [OF assms])

theorem hl_poll_terminates_witness:
  "\<exists>out st'. hl_poll leb_u64 True (ms_hl (ms_from Handshake :: unit ms_state)) [3, 0x6e, 0x61, 10] = Some (out, st')"
  by (rule hl_poll_terminates [OF leb128.varint_axioms])

text \<open>C14: How the bytes of one direction are cut into chunks has no influence on the negotiation:
  as long as no token is malformed, polling chunk by chunk recognises the same tokens, leaves
  both directions in the same state, and hands exactly the bytes behind the agreed protocol name
  to the protocol, up to those still in the buffer.\<close>

theorem multistream_chunking:
  assumes "varint vdec" and "cs \<noteq> []" and "hl_done (hl_this inc st) = None"
    and "hl_poll vdec inc st (concat cs) = Some (out, st1)" and "hl_error out = None"
  shows "\<exists>d st2. hl_feed vdec inc st cs = Some (tokens out, d, st2) \<and>
    hl_pair inc ((hl_this inc st2)\<lparr>ll_acc := d @ ll_acc (hl_this inc st2)\<rparr>) (hl_this (\<not> inc) st2) = st1"
  by (rule varint.hl_feed_eq [OF assms])

definition glue_chunks :: "bytes list" where
  "glue_chunks = [[3], as_bytes (''na'' @ [CHR 0x0A]) @ [7] @ as_bytes ''/no'',
     as_bytes (''ise'' @ [CHR 0x0A]) @ as_bytes ''pay'', as_bytes ''load'']"

lemma glue_poll:
  "ll_poll leb_u64 (concat glue_chunks) = Some (Inr (LString ''na''), 7 # as_bytes (''/noise'' @ [CHR 0x0A] @ ''payload''))"
  "ll_poll leb_u64 (7 # as_bytes (''/noise'' @ [CHR 0x0A] @ ''payload'')) = Some (Inr (LString ''/noise''), as_bytes ''payload'')"
  by (simp_all add: glue_chunks_def ll_poll_def as_bytes_def initiator_token_def responder_token_def
      starts_with_def leb_u64_small utf8_valid_ascii trim_end_matches_def bytes_str_def Let_def)
    (simp_all add: char_of_def bit_iff_odd)

lemma glue_loop:
  "hl_loop leb_u64 \<lparr>ll_acc = concat glue_chunks, simultaneous_connect = False, hl_done = None\<rparr>
     \<lparr>ll_acc = [], simultaneous_connect = False, hl_done = None\<rparr> \<lparr>tokens = [], hl_error = None, agreed = None\<rparr> =
   Some (\<lparr>ll_acc = as_bytes ''payload'', simultaneous_connect = False, hl_done = Some ''/noise''\<rparr>,
     \<lparr>ll_acc = [], simultaneous_connect = False, hl_done = None\<rparr>,
     \<lparr>tokens = [''na'', ''/noise''], hl_error = None, agreed = None\<rparr>)"
proof -
  let ?other = "\<lparr>ll_acc = [], simultaneous_connect = False, hl_done = None\<rparr>"
  let ?t = "\<lambda>acc d. \<lparr>ll_acc = acc, simultaneous_connect = False, hl_done = d\<rparr>"
  let ?out = "\<lambda>ts. \<lparr>tokens = ts, hl_error = None, agreed = None\<rparr>"
  let ?acc = "7 # as_bytes (''/noise'' @ [CHR 0x0A] @ ''payload'')"
  have "hl_loop leb_u64 (?t (concat glue_chunks) None) ?other (?out []) =
      hl_loop leb_u64 (?t ?acc None) ?other (?out [''na''])"
    by (subst leb128.hl_turn_on [where t = "LString ''na''" and acc = ?acc and brk = False and
          this' = "?t ?acc None" and other' = ?other and out' = "?out [''na'']"])
      (simp_all only: glue_poll one_direction.simps, simp_all add: hl_token_def starts_with_def)
  also have "\<dots> = Some (?t (as_bytes ''payload'') (Some ''/noise''), ?other, ?out [''na'', ''/noise''])"
    by (subst leb128.hl_turn_on [where t = "LString ''/noise''" and acc = "as_bytes ''payload''" and
          brk = True and this' = "?t (as_bytes ''payload'') (Some ''/noise'')" and other' = ?other and
          out' = "?out [''na'', ''/noise'']"])
      (simp_all only: glue_poll one_direction.simps, simp_all add: hl_token_def starts_with_def)
  finally show ?thesis .
qed

theorem multistream_chunking_witness:
  "\<exists>d st2. hl_feed leb_u64 True (ms_hl (ms_from Handshake :: unit ms_state)) glue_chunks =
      Some ([''na'', ''/noise''], d, st2) \<and>
     d @ ll_acc (hl_this True st2) = as_bytes ''payload'' \<and> hl_done (hl_this True st2) = Some ''/noise''"
proof -
  let ?st = "ms_hl (ms_from Handshake :: unit ms_state)"
    and ?st1 = "hl_pair True \<lparr>ll_acc = as_bytes ''payload'', simultaneous_connect = False,
      hl_done = Some ''/noise''\<rparr> one_direction_default"
    and ?out = "\<lparr>tokens = [''na'', ''/noise''], hl_error = None, agreed = None\<rparr>"
  have p: "hl_poll leb_u64 True ?st (concat glue_chunks) = Some (?out, ?st1)"
    using glue_loop by (simp add: hl_poll_def ms_from_def hl_this_def one_direction_default_def
        hl_output_default_def Let_def)
  from multistream_chunking [OF leb128.varint_axioms _ _ p] obtain d st2 where
    f: "hl_feed leb_u64 True ?st glue_chunks = Some (tokens ?out, d, st2)" and
    e: "hl_pair True ((hl_this True st2)\<lparr>ll_acc := d @ ll_acc (hl_this True st2)\<rparr>) (hl_this False st2) = ?st1"
    by (auto simp: glue_chunks_def ms_from_def hl_this_def one_direction_default_def)
  have "(hl_this True st2)\<lparr>ll_acc := d @ ll_acc (hl_this True st2)\<rparr> =
      \<lparr>ll_acc = as_bytes ''payload'', simultaneous_connect = False, hl_done = Some ''/noise''\<rparr>"
    using arg_cong [OF e, of "hl_this True"] by (simp only: hl_pair_this)
  hence "d @ ll_acc (hl_this True st2) = as_bytes ''payload''" "hl_done (hl_this True st2) = Some ''/noise''"
    by (cases "hl_this True st2"; simp)+
  with f show ?thesis by auto
qed



end
