(* ===== verification/Pnet.thy ===== *)
theory Pnet
  imports Types
begin

text \<open>
  The private network layer (\<open>mina-recorder/src/connection/pnet.rs\<close>): each direction starts with
  a 24-byte nonce, everything behind it is encrypted with XSalsa20. The cipher (crate
  \<open>salsa20\<close>) and the hash of the chain id (crate \<open>blake2\<close>) are parameters; the locale
  \<open>stream_cipher\<close> is what the layer relies on.
\<close>

section \<open>Stream ciphers\<close>

locale stream_cipher =
  fixes apply_keystream :: "'c \<Rightarrow> bytes \<Rightarrow> bytes \<times> 'c"
  assumes keystream_append:
      "apply_keystream c (a @ b) =
        (fst (apply_keystream c a) @ fst (apply_keystream (snd (apply_keystream c a)) b),
         snd (apply_keystream (snd (apply_keystream c a)) b))"
    and keystream_twice: "fst (apply_keystream c (fst (apply_keystream c a))) = a"
begin

lemma keystream_Nil: "fst (apply_keystream c []) = []"
  using keystream_append [of c "[]" "fst (apply_keystream c [])"] keystream_twice [of c "[]"] by simp

end

text \<open>A small instance: a keystream that repeats a key, with a position as state.\<close>

fun xor_stream :: "bytes \<Rightarrow> nat \<Rightarrow> bytes \<Rightarrow> bytes \<times> nat" where
  "xor_stream key n [] = ([], n)"
| "xor_stream key n (b # bs) =
     (let (r, m) = xor_stream key (Suc n) bs in (xor b (key ! (n mod length key)) # r, m))"

lemma xor_stream_state: "snd (xor_stream key n bs) = n + length bs"
  by (induction bs arbitrary: n) (simp_all add: split_beta)

interpretation xor_cipher: stream_cipher "xor_stream key" for key
proof unfold_locales
  fix n and a b :: bytes
  show "xor_stream key n (a @ b) =
    (fst (xor_stream key n a) @ fst (xor_stream key (snd (xor_stream key n a)) b),
     snd (xor_stream key (snd (xor_stream key n a)) b))"
    by (induction a arbitrary: n) (simp_all add: split_beta)
  show "fst (xor_stream key n (fst (xor_stream key n a))) = a"
    by (induction a arbitrary: n) (simp_all add: split_beta xor.assoc)
qed

section \<open>The layer\<close>

record ('c, 'i) pnet_state =
  p_shared_secret :: bytes
  p_cipher_in :: "'c option"
  p_cipher_out :: "'c option"
  p_skip :: bool
  p_inner :: 'i

definition pnet_new :: "(bytes \<Rightarrow> bytes) \<Rightarrow> (stream_id \<Rightarrow> 'i) \<Rightarrow> bytes \<Rightarrow> ('c, 'i) pnet_state" where
  "pnet_new blake2b32 mk chain_id =
     \<lparr>p_shared_secret = blake2b32 chain_id, p_cipher_in = None, p_cipher_out = None,
      p_skip = False, p_inner = mk Handshake\<rparr>"

definition pnet_cipher :: "bool \<Rightarrow> ('c, 'i) pnet_state \<Rightarrow> 'c option" where
  "pnet_cipher inc st = (if inc then p_cipher_in st else p_cipher_out st)"

definition pnet_set_cipher :: "bool \<Rightarrow> 'c \<Rightarrow> ('c, 'i) pnet_state \<Rightarrow> ('c, 'i) pnet_state" where
  "pnet_set_cipher inc c st =
     (if inc then st\<lparr>p_cipher_in := Some c\<rparr> else st\<lparr>p_cipher_out := Some c\<rparr>)"

function pnet_on_data ::
  "(bytes \<Rightarrow> bytes \<Rightarrow> 'c) \<Rightarrow> ('c \<Rightarrow> bytes \<Rightarrow> bytes \<times> 'c) \<Rightarrow> ('e, 'w) db_ops \<Rightarrow> ('e, 'i, 'w) on_data
     \<Rightarrow> directed_id \<Rightarrow> bytes \<Rightarrow> ('c, 'i) pnet_state \<Rightarrow> 'w \<Rightarrow> ('e, unit) outcome \<times> ('c, 'i) pnet_state \<times> 'w" where
  "pnet_on_data new_cipher apply_keystream db inner did bytes st w =
     (if p_skip st then (Done (), st, w)
      else
        let inc = incoming did; time = md_time (metadata did);
            (r, w) = db_add_raw db Raw inc time bytes w
        in case r of
          Done _ \<Rightarrow>
            (case pnet_cipher inc st of
               Some cipher \<Rightarrow>
                 (let (bytes, cipher) = apply_keystream cipher bytes;
                      st = pnet_set_cipher inc cipher st;
                      (r, w) = db_add_raw db DecryptedPnet inc time bytes w
                  in case r of
                    Done _ \<Rightarrow>
                      (let (r, i, w) = inner did bytes (p_inner st) w in (r, st\<lparr>p_inner := i\<rparr>, w))
                  | _ \<Rightarrow> (map_outcome id (\<lambda>_. ()) r, st, w))
             | None \<Rightarrow>
                 if length bytes < 24 then (Done (), st\<lparr>p_skip := True\<rparr>, w)
                 else
                   let st = pnet_set_cipher inc (new_cipher (p_shared_secret st) (take 24 bytes)) st
                   in if 24 < length bytes
                      then pnet_on_data new_cipher apply_keystream db inner did (drop 24 bytes) st w
                      else (Done (), st, w))
        | _ \<Rightarrow> (map_outcome id (\<lambda>_. ()) r, st, w))"
  by pat_completeness auto
termination
  by (relation "measure (\<lambda>(_, _, _, _, _, bytes, _, _). length bytes)") auto

declare pnet_on_data.simps [simp del]

section \<open>A direction as a stream\<close>

text \<open>Handling the chunks of one direction one after the other.\<close>

fun pnet_feed ::
  "(bytes \<Rightarrow> bytes \<Rightarrow> 'c) \<Rightarrow> ('c \<Rightarrow> bytes \<Rightarrow> bytes \<times> 'c) \<Rightarrow> ('e, 'w) db_ops \<Rightarrow> ('e, 'i, 'w) on_data
     \<Rightarrow> directed_id \<Rightarrow> bytes list \<Rightarrow> ('c, 'i) pnet_state \<Rightarrow> 'w \<Rightarrow> ('e, unit) outcome \<times> ('c, 'i) pnet_state \<times> 'w" where
  "pnet_feed nc ak db inner did [] st w = (Done (), st, w)"
| "pnet_feed nc ak db inner did (c # cs) st w =
     (let (r, st, w) = pnet_on_data nc ak db inner did c st w in
      case r of Done _ \<Rightarrow> pnet_feed nc ak db inner did cs st w | _ \<Rightarrow> (r, st, w))"

text \<open>An inner protocol that keeps all it is given, and a database that accepts everything.\<close>

definition gather :: "('e, bytes, 'w) on_data" where
  "gather did bs i w = (Done (), i @ bs, w)"

definition accepting :: "('e, 'w) db_ops \<Rightarrow> bool" where
  "accepting db = (\<forall>e inc t bs w. \<exists>n w'. db_add_raw db e inc t bs w = (Done n, w'))"

lemma pnet_simps [simp]:
  "pnet_cipher inc (pnet_set_cipher inc c st) = Some c"
  "p_skip (pnet_set_cipher inc c st) = p_skip st"
  "p_inner (pnet_set_cipher inc c st) = p_inner st"
  "pnet_cipher inc (st\<lparr>p_inner := i\<rparr>) = pnet_cipher inc st"
  by (simp_all add: pnet_cipher_def pnet_set_cipher_def)

lemma pnet_on_data_cipher:
  assumes "\<not> p_skip st" and "pnet_cipher (incoming did) st = Some c" and "accepting db"
  shows "\<exists>w'. pnet_on_data nc ak db gather did bytes st w =
    (Done (), (pnet_set_cipher (incoming did) (snd (ak c bytes)) st)
       \<lparr>p_inner := p_inner st @ fst (ak c bytes)\<rparr>, w')"
proof -
  obtain n w1 where 1: "db_add_raw db Raw (incoming did) (md_time (metadata did)) bytes w = (Done n, w1)"
    using assms(3) unfolding accepting_def by blast
  obtain m w2 where 2: "db_add_raw db DecryptedPnet (incoming did) (md_time (metadata did))
      (fst (ak c bytes)) w1 = (Done m, w2)"
    using assms(3) unfolding accepting_def by blast
  show ?thesis using assms 1 2
    by (subst pnet_on_data.simps) (simp add: Let_def split_beta gather_def)
qed

context stream_cipher
begin

lemma pnet_feed_cipher:
  assumes "\<not> p_skip st" and "pnet_cipher (incoming did) st = Some c" and "accepting db"
  shows "\<exists>st' w'. pnet_feed nc apply_keystream db gather did cs st w = (Done (), st', w') \<and>
    p_inner st' = p_inner st @ fst (apply_keystream c (concat cs)) \<and> \<not> p_skip st'"
  using assms
proof (induction cs arbitrary: st c w)
  case Nil
  thus ?case by (simp add: keystream_Nil)
next
  case (Cons b cs)
  let ?st = "(pnet_set_cipher (incoming did) (snd (apply_keystream c b)) st)
    \<lparr>p_inner := p_inner st @ fst (apply_keystream c b)\<rparr>"
  from pnet_on_data_cipher [OF Cons.prems, of nc apply_keystream b w] obtain w' where
    d: "pnet_on_data nc apply_keystream db gather did b st w = (Done (), ?st, w')" by blast
  from Cons.IH [of ?st "snd (apply_keystream c b)" w'] Cons.prems show ?case
    by (simp add: d keystream_append [of c b "concat cs"])
qed

lemma pnet_feed_new:
  assumes "\<not> p_skip st" and "pnet_cipher (incoming did) st = None" and "accepting db"
    and "24 \<le> length b"
  shows "\<exists>st' w'. pnet_feed nc apply_keystream db gather did (b # cs) st w = (Done (), st', w') \<and>
    p_inner st' = p_inner st @
      fst (apply_keystream (nc (p_shared_secret st) (take 24 b)) (drop 24 (concat (b # cs))))"
proof -
  let ?c = "nc (p_shared_secret st) (take 24 b)"
  let ?st = "pnet_set_cipher (incoming did) ?c st"
  obtain n w1 where 1: "db_add_raw db Raw (incoming did) (md_time (metadata did)) b w = (Done n, w1)"
    using assms(3) unfolding accepting_def by blast
  have "pnet_feed nc apply_keystream db gather did (b # cs) st w =
      (if 24 < length b then pnet_feed nc apply_keystream db gather did (drop 24 b # cs) ?st w1
       else pnet_feed nc apply_keystream db gather did cs ?st w1)"
    using assms 1 by (simp add: pnet_on_data.simps [of nc apply_keystream db gather did b st w] Let_def)
  moreover have "concat (drop 24 b # cs) = drop 24 (concat (b # cs))" using assms(4) by simp
  moreover have "drop 24 b = []" if "\<not> 24 < length b" using that by simp
  ultimately show ?thesis
    using pnet_feed_cipher [of ?st did ?c db nc "drop 24 b # cs" w1]
      pnet_feed_cipher [of ?st did ?c db nc cs w1] assms by auto
qed

end

section \<open>Properties\<close>

text \<open>C16: When the first chunk of a direction holds the nonce, the inner protocol sees exactly the
  plain text of the peer, however the encrypted stream is cut into further chunks.\<close>

theorem pnet_plain_text:
  assumes "stream_cipher apply_keystream" and "accepting db"
    and "\<not> p_skip st" and "pnet_cipher (incoming did) st = None"
    and "length nonce = 24" and "24 \<le> length (hd cs)" and "cs \<noteq> []"
    and "concat cs = nonce @ fst (apply_keystream (new_cipher (p_shared_secret st) nonce) plain)"
  shows "\<exists>st' w'. pnet_feed new_cipher apply_keystream db gather did cs st w = (Done (), st', w') \<and>
    p_inner st' = p_inner st @ plain"
proof -
  obtain b bs where cs: "cs = b # bs" using assms(7) by (cases cs) auto
  have "take 24 b = nonce"
    using arg_cong [OF assms(8), of "take 24"] assms(5,6) cs by simp
  moreover have "drop 24 (concat (b # bs)) = fst (apply_keystream (new_cipher (p_shared_secret st) nonce) plain)"
    using assms(5,8) cs by simp
  ultimately show ?thesis
    using stream_cipher.pnet_feed_new [OF assms(1,3,4,2), of b new_cipher bs w] assms(6) cs
      stream_cipher.keystream_twice [OF assms(1)] by simp
qed

theorem pnet_plain_text_witness:
  "\<exists>st' w'. pnet_feed (\<lambda>s n. 0) (xor_stream [1, 2, 3]) list_db gather (sample_did True)
      [replicate 24 9 @ [8, 8], [12, 8]]
      (pnet_new (\<lambda>b. b) (\<lambda>s. []) []) [] = (Done (), st', w') \<and>
    p_inner st' = p_inner (pnet_new (\<lambda>b. b) (\<lambda>s. []) [] :: (nat, bytes) pnet_state) @ [9, 10, 15, 9]"
  by (rule pnet_plain_text [where nonce = "replicate 24 9", OF xor_cipher.stream_cipher_axioms])
    (simp_all add: accepting_def list_db_def pnet_new_def pnet_cipher_def)

text \<open>A direction whose first chunk is shorter than the nonce makes the layer ignore the whole
  connection from then on, in both directions.\<close>

theorem pnet_short_first_chunk:
  assumes "\<not> p_skip st" and "pnet_cipher (incoming did) st = None" and "length bytes < 24"
    and "db_add_raw db Raw (incoming did) (md_time (metadata did)) bytes w = (Done n, w')"
  shows "pnet_on_data nc ak db inner did bytes st w = (Done (), st\<lparr>p_skip := True\<rparr>, w') \<and>
    pnet_on_data nc ak db inner did' bytes' (st\<lparr>p_skip := True\<rparr>) w'' = (Done (), st\<lparr>p_skip := True\<rparr>, w'')"
  using assms by (simp add: pnet_on_data.simps Let_def)

theorem pnet_short_first_chunk_witness:
  "pnet_on_data (\<lambda>s n. 0) (xor_stream [1]) list_db gather (sample_did True) [1, 2]
     (pnet_new (\<lambda>b. b) (\<lambda>s. []) []) [] =
   (Done (), (pnet_new (\<lambda>b. b) (\<lambda>s. []) [])\<lparr>p_skip := True\<rparr>, [])"
  using pnet_short_first_chunk [of "pnet_new (\<lambda>b. b) (\<lambda>s. []) [] :: (nat, bytes) pnet_state"
      "sample_did True" "[1, 2]" list_db "[]" 0 "[]" "\<lambda>s n. 0" "xor_stream [1]" gather]
  by (simp add: pnet_new_def pnet_cipher_def list_db_def)

end
