(* ===== verification/Noise.thy ===== *)
theory Noise
  imports Framing Types
begin

text \<open>
  The noise layer (\<open>mina-recorder/src/connection/noise.rs\<close>): \<open>ChunkState\<close> cuts the stream into
  noise messages with a 16-bit length, \<open>NoiseState\<close> follows the XX handshake with keys it finds in
  the recorded randomness and decrypts the transport messages.

  The cryptography (crates \<open>vru_noise\<close>, \<open>curve25519_dalek\<close>), the protobuf decoder of the handshake
  payload (crate \<open>prost\<close>) and the key database are parameters, collected in records of operations.
\<close>

section \<open>Noise messages\<close>

definition noise_len :: "bytes \<Rightarrow> nat" where
  "noise_len bs = unat (be_u16 (take 2 bs))"

record 'i chunk_state =
  c_incoming :: bytes
  c_outgoing :: bytes
  c_inner :: 'i

definition chunk_from_name :: "(string \<Rightarrow> stream_id \<Rightarrow> 'i) \<Rightarrow> string \<Rightarrow> stream_id \<Rightarrow> 'i chunk_state" where
  "chunk_from_name from_name name s = \<lparr>c_incoming = [], c_outgoing = [], c_inner = from_name name s\<rparr>"

definition chunk_acc :: "bool \<Rightarrow> 'i chunk_state \<Rightarrow> bytes" where
  "chunk_acc inc st = (if inc then c_incoming st else c_outgoing st)"

definition chunk_set_acc :: "bool \<Rightarrow> bytes \<Rightarrow> 'i chunk_state \<Rightarrow> 'i chunk_state" where
  "chunk_set_acc inc a st = (if inc then st\<lparr>c_incoming := a\<rparr> else st\<lparr>c_outgoing := a\<rparr>)"

text \<open>The loop: an error of the inner protocol is only logged.\<close>

function chunk_loop ::
  "('e, 'i, 'w) on_data \<Rightarrow> directed_id \<Rightarrow> bytes \<Rightarrow> 'i \<Rightarrow> 'w \<Rightarrow> ('e, unit) outcome \<times> bytes \<times> 'i \<times> 'w" where
  "chunk_loop inner did acc i w =
     (if 2 \<le> length acc \<and> 2 + noise_len acc \<le> length acc then
        (let (r, i, w) = inner did (take (2 + noise_len acc) acc) i w in
         case r of
           Panic \<Rightarrow> (Panic, acc, i, w)
         | Hang \<Rightarrow> (Hang, acc, i, w)
         | _ \<Rightarrow> chunk_loop inner did (drop (2 + noise_len acc) acc) i w)
      else (Done (), acc, i, w))"
  by pat_completeness auto
termination
  by (relation "measure (\<lambda>(_, _, acc, _, _). length acc)") auto

declare chunk_loop.simps [simp del]

definition chunk_on_data :: "('e, 'i, 'w) on_data \<Rightarrow> ('e, 'i chunk_state, 'w) on_data" where
  "chunk_on_data inner did bytes st w =
     (let inc = incoming did in
      if chunk_acc inc st = [] \<and> 2 \<le> length bytes \<and> length bytes = 2 + noise_len bytes
      then (let (r, i, w) = inner did bytes (c_inner st) w in (r, st\<lparr>c_inner := i\<rparr>, w))
      else
        (let (r, acc, i, w) = chunk_loop inner did (chunk_acc inc st @ bytes) (c_inner st) w
         in (r, (chunk_set_acc inc acc st)\<lparr>c_inner := i\<rparr>, w)))"

section \<open>The handshake\<close>

text \<open>
  \<open>MontgomeryPoint\<close> and \<open>Scalar\<close> are 32 bytes. \<open>base_mul sk\<close> is the public key of \<open>sk\<close>,
  \<open>point_mul p sk\<close> the product of a point and a scalar; \<open>ss_*\<close> are the operations of
  \<open>SymmetricState\<close>, \<open>c_*\<close> those of \<open>Cipher\<close>. A decryption returns the plain text.
\<close>

record ('s, 'c) noise_ops =
  base_mul :: "bytes \<Rightarrow> bytes"
  point_mul :: "bytes \<Rightarrow> bytes \<Rightarrow> bytes"
  ss_new :: "string \<Rightarrow> 's"
  ss_mix_hash :: "bytes \<Rightarrow> 's \<Rightarrow> 's"
  ss_mix_shared_secret :: "bytes \<Rightarrow> 's \<Rightarrow> 's"
  ss_decrypt :: "bytes \<Rightarrow> bytes \<Rightarrow> 's \<Rightarrow> (bytes \<times> 's) option"
  ss_finish :: "'s \<Rightarrow> 'c \<times> 'c"
  c_swap :: "'c \<Rightarrow> 'c"
  c_decrypt :: "bytes \<Rightarrow> bytes \<Rightarrow> 'c \<Rightarrow> (bytes \<times> 'c) option"

text \<open>\<open>RandomnessDatabase\<close> and \<open>KeyDatabase\<close>.\<close>

record key_db =
  iterate_randomness :: "bytes list"
  reproduced_sk :: "bool \<Rightarrow> bytes \<Rightarrow> bytes option"

definition find_sk_openmina :: "key_db \<Rightarrow> bytes \<Rightarrow> bytes option" where
  "find_sk_openmina keys pk =
     (case reproduced_sk keys True pk of
        Some sk \<Rightarrow> Some sk
      | None \<Rightarrow> reproduced_sk keys False pk)"

definition clamp_sk :: "bytes \<Rightarrow> bytes" where
  "clamp_sk r = (r[0 := and (r ! 0) 248])[31 := or (r ! 31) 64]"

fun find_sk_in :: "('s, 'c) noise_ops \<Rightarrow> bytes \<Rightarrow> bytes list \<Rightarrow> bytes option" where
  "find_sk_in ops pk [] = None"
| "find_sk_in ops pk (r # rs) =
     (if length r = 32 \<and> base_mul ops (clamp_sk r) = pk then Some (clamp_sk r)
      else find_sk_in ops pk rs)"

definition find_sk :: "('s, 'c) noise_ops \<Rightarrow> key_db \<Rightarrow> bytes \<Rightarrow> bytes option" where
  "find_sk ops keys pk = find_sk_in ops pk (iterate_randomness keys)"

definition find_any_sk :: "('s, 'c) noise_ops \<Rightarrow> key_db \<Rightarrow> bytes \<Rightarrow> bytes option" where
  "find_any_sk ops keys pk =
     (case find_sk ops keys pk of Some sk \<Rightarrow> Some sk | None \<Rightarrow> find_sk_openmina keys pk)"

definition try_dh :: "('s, 'c) noise_ops \<Rightarrow> key_db \<Rightarrow> bytes \<Rightarrow> bytes \<Rightarrow> bytes option" where
  "try_dh ops keys a b =
     (case find_any_sk ops keys a of
        Some sk \<Rightarrow> Some (point_mul ops b sk)
      | None \<Rightarrow>
          (case find_any_sk ops keys b of
             Some sk \<Rightarrow> Some (point_mul ops a sk)
           | None \<Rightarrow> None))"

datatype noise_error =
    FirstMessageTooShort | FirstMessageTooBig | SecondMessageTooShort | ThirdMessageTooShort
  | SecondMessageMacMismatch | SecondMessagePayloadMacMismatch
  | ThirdMessageMacMismatch | ThirdMessagePayloadMacMismatch
  | EphemeralSecretKeyNotFound bool bytes bytes
  | SecondSecretKeyNotFound bool bytes bytes
  | ThirdSecretKeyNotFound bool bytes bytes
  | DataTooShort | CannotDecrypt

text \<open>
  The constructors of \<open>St\<close>; the first argument of \<open>Transport\<close> is \<open>initiators_receiver\<close>, the
  second \<open>responders_receiver\<close>.
\<close>

datatype ('s, 'c) noise_machine =
  FirstMessage 's bytes | SecondMessage 's bytes | Transport 'c 'c

record ('s, 'c, 'i) noise_state =
  n_machine :: "('s, 'c) noise_machine option"
  n_initiator_is_incoming :: bool
  n_error :: bool
  n_inner :: 'i
  n_decrypted :: u64
  n_failed_to_decrypt :: u64
  n_mux_proposed :: "(directed_id \<times> bytes) option"

definition noise_from_name :: "(stream_id \<Rightarrow> 'i) \<Rightarrow> string \<Rightarrow> stream_id \<Rightarrow> ('s, 'c, 'i) noise_state" where
  "noise_from_name mk name s =
     \<lparr>n_machine = None, n_initiator_is_incoming = False, n_error = (name \<noteq> ''/noise''),
      n_inner = mk s, n_decrypted = 0, n_failed_to_decrypt = 0, n_mux_proposed = None\<rparr>"

text \<open>
  The arms of the match in \<open>on_data_\<close>. \<open>Inr (p, m)\<close>: the bytes of the returned range, decrypted,
  and the next machine.
\<close>

definition noise_first :: "('s, 'c) noise_ops \<Rightarrow> bytes \<Rightarrow> noise_error + (bytes \<times> ('s, 'c) noise_machine)" where
  "noise_first ops bytes =
     (if length bytes < 34 then Inl FirstMessageTooShort
      else if 34 < length bytes then Inl FirstMessageTooBig
      else
        let i_epk = slice 2 34 bytes;
            st = ss_mix_hash ops [] (ss_mix_hash ops i_epk
                   (ss_mix_hash ops [] (ss_new ops ''Noise_XX_25519_ChaChaPoly_SHA256'')))
        in Inr (drop 34 bytes, FirstMessage st i_epk))"

definition noise_second ::
  "('s, 'c) noise_ops \<Rightarrow> key_db \<Rightarrow> bool \<Rightarrow> 's \<Rightarrow> bytes \<Rightarrow> bytes
     \<Rightarrow> noise_error + (bytes \<times> ('s, 'c) noise_machine)" where
  "noise_second ops keys i st i_epk bytes =
     (let len = length bytes in
      if len < 98 then Inl SecondMessageTooShort
      else
        let r_epk = slice 2 34 bytes; payload_tag = drop (len - 16) bytes in
        case try_dh ops keys r_epk i_epk of
          None \<Rightarrow> Inl (EphemeralSecretKeyNotFound i r_epk i_epk)
        | Some ss \<Rightarrow>
            (case ss_decrypt ops (slice 34 66 bytes) (slice 66 82 bytes)
                    (ss_mix_shared_secret ops ss (ss_mix_hash ops r_epk st)) of
               None \<Rightarrow> Inl SecondMessageMacMismatch
             | Some (r_spk, st) \<Rightarrow>
                 (case try_dh ops keys r_spk i_epk of
                    None \<Rightarrow> Inl (SecondSecretKeyNotFound i r_spk i_epk)
                  | Some ss \<Rightarrow>
                      (case ss_decrypt ops (slice 82 (len - 16) bytes) payload_tag
                              (ss_mix_shared_secret ops ss st) of
                         None \<Rightarrow> Inl SecondMessagePayloadMacMismatch
                       | Some (p, st) \<Rightarrow> Inr (p, SecondMessage st r_epk)))))"

definition noise_third ::
  "('s, 'c) noise_ops \<Rightarrow> key_db \<Rightarrow> bool \<Rightarrow> 's \<Rightarrow> bytes \<Rightarrow> bytes
     \<Rightarrow> noise_error + (bytes \<times> ('s, 'c) noise_machine)" where
  "noise_third ops keys i st r_epk bytes =
     (let len = length bytes in
      if len < 98 then Inl ThirdMessageTooShort
      else
        let payload_tag = drop (len - 16) bytes in
        case ss_decrypt ops (slice 2 34 bytes) (slice 34 50 bytes) st of
          None \<Rightarrow> Inl ThirdMessageMacMismatch
        | Some (i_spk, st) \<Rightarrow>
            (case try_dh ops keys i_spk r_epk of
               None \<Rightarrow> Inl (ThirdSecretKeyNotFound i r_epk i_spk)
             | Some ss \<Rightarrow>
                 (case ss_decrypt ops (slice 50 (len - 16) bytes) payload_tag
                         (ss_mix_shared_secret ops ss st) of
                    None \<Rightarrow> Inl ThirdMessagePayloadMacMismatch
                  | Some (p, st) \<Rightarrow>
                      (let (sender, receiver) = ss_finish ops st
                       in Inr (p, Transport receiver (c_swap ops sender))))))"

definition noise_transport ::
  "('s, 'c) noise_ops \<Rightarrow> bool \<Rightarrow> 'c \<Rightarrow> 'c \<Rightarrow> bytes \<Rightarrow> noise_error + (bytes \<times> ('s, 'c) noise_machine)" where
  "noise_transport ops from_initiator ir rr bytes =
     (let len = length bytes in
      if len < 18 then Inl DataTooShort
      else
        let payload_tag = drop (len - 16) bytes; text = slice 2 (len - 16) bytes in
        if from_initiator then
          (case c_decrypt ops text payload_tag ir of
             None \<Rightarrow> Inl CannotDecrypt
           | Some (p, ir) \<Rightarrow> Inr (p, Transport ir rr))
        else
          (case c_decrypt ops text payload_tag rr of
             None \<Rightarrow> Inl CannotDecrypt
           | Some (p, rr) \<Rightarrow> Inr (p, Transport ir rr)))"

text \<open>\<open>on_data_\<close>: the machine is taken out first, so an error leaves none.\<close>

definition noise_process ::
  "('s, 'c) noise_ops \<Rightarrow> key_db \<Rightarrow> bool \<Rightarrow> bytes \<Rightarrow> ('s, 'c, 'i) noise_state
     \<Rightarrow> (noise_error + bytes) \<times> ('s, 'c, 'i) noise_state" where
  "noise_process ops keys inc bytes st =
     (let st1 = (if n_machine st = None then st\<lparr>n_initiator_is_incoming := inc\<rparr> else st);
          i = n_initiator_is_incoming st1;
          r = (case n_machine st of
                 None \<Rightarrow> noise_first ops bytes
               | Some (FirstMessage s i_epk) \<Rightarrow> noise_second ops keys i s i_epk bytes
               | Some (SecondMessage s r_epk) \<Rightarrow> noise_third ops keys i s r_epk bytes
               | Some (Transport ir rr) \<Rightarrow> noise_transport ops (inc = i) ir rr bytes)
      in case r of
           Inl e \<Rightarrow> (Inl e, st1\<lparr>n_machine := None\<rparr>)
         | Inr (p, m) \<Rightarrow> (Inr p, st1\<lparr>n_machine := Some m\<rparr>))"

section \<open>The handler\<close>

text \<open>
  The counters of the context (\<open>cx.stats\<close>), and the decoder of the handshake payload
  (\<open>decode::noise::payload\<close>).
\<close>

record ('e, 'w) cx_ops =
  cx_add_decrypted :: "nat \<Rightarrow> 'w \<Rightarrow> 'w"
  cx_add_failed :: "nat \<Rightarrow> 'w \<Rightarrow> 'w"
  cx_decrypted :: "'w \<Rightarrow> u64"
  cx_failed :: "'w \<Rightarrow> u64"
  handshake_payload :: "bytes \<Rightarrow> ('e, bytes) outcome"

definition mac_mismatch :: bytes where
  "mac_mismatch = as_bytes ''mac_mismatch'' @ [0, 0, 0, 0]"

definition noise_on_error ::
  "('e, 'w) cx_ops \<Rightarrow> ('e, 'w) db_ops \<Rightarrow> directed_id \<Rightarrow> bytes \<Rightarrow> ('s, 'c, 'i) noise_state \<Rightarrow> 'w
     \<Rightarrow> ('e, unit) outcome \<times> ('s, 'c, 'i) noise_state \<times> 'w" where
  "noise_on_error cx db did bytes st w =
     (let n = length bytes;
          w = cx_add_failed cx n w;
          st = st\<lparr>n_failed_to_decrypt := n_failed_to_decrypt st + of_nat n\<rparr>;
          (r, w) = db_update db (connection_stats_default\<lparr>total_bytes := of_nat n\<rparr>) (incoming did) w
      in case r of
           Done _ \<Rightarrow>
             (let b = mac_mismatch @ u64_be (n_decrypted st) @ u64_be (n_failed_to_decrypt st) @
                        u64_be (cx_decrypted cx w) @ u64_be (cx_failed cx w);
                  (r, w) = db_add db Handshake did Kind_Handshake b w
              in (map_outcome id (\<lambda>_. ()) r, st, db_drop db w))
         | _ \<Rightarrow> (r, st, w))"

text \<open>Storing a decrypted handshake message and reading its payload.\<close>

definition noise_store_handshake ::
  "('e, 'w) cx_ops \<Rightarrow> ('e, 'w) db_ops \<Rightarrow> directed_id \<Rightarrow> bytes \<Rightarrow> 'w \<Rightarrow> ('e, bytes) outcome \<times> 'w" where
  "noise_store_handshake cx db did p w =
     (let (r, w) = db_add db Handshake did Kind_Handshake p w; w = db_drop db w
      in case r of
           Done _ \<Rightarrow> (handshake_payload cx p, w)
         | Fail e \<Rightarrow> (Fail e, w) | Panic \<Rightarrow> (Panic, w) | Hang \<Rightarrow> (Hang, w))"

definition noise_deliver ::
  "('e, 'w) cx_ops \<Rightarrow> ('e, 'w) db_ops \<Rightarrow> ('e, 'i, 'w) on_data \<Rightarrow> ('s, 'c) noise_machine option \<Rightarrow> directed_id
     \<Rightarrow> bytes \<Rightarrow> ('s, 'c, 'i) noise_state \<Rightarrow> 'w \<Rightarrow> ('e, unit) outcome \<times> ('s, 'c, 'i) noise_state \<times> 'w" where
  "noise_deliver cx db inner before did p st w =
     (case before of
        None \<Rightarrow> (Done (), st, w)
      | Some (FirstMessage _ _) \<Rightarrow>
          (case noise_store_handshake cx db did p w of
             (Done payload, w) \<Rightarrow>
               (Done (), if payload \<noteq> [] then st\<lparr>n_mux_proposed := Some (did, tl payload)\<rparr> else st, w)
           | (r, w) \<Rightarrow> (map_outcome id (\<lambda>_. ()) r, st, w))
      | Some (SecondMessage _ _) \<Rightarrow>
          (case noise_store_handshake cx db did p w of
             (Done payload, w) \<Rightarrow>
               if payload = [] then (Done (), st, w)
               else
                 (case n_mux_proposed st of
                    None \<Rightarrow> (Done (), st, w)
                  | Some (prev_id, prev_payload) \<Rightarrow>
                      (let st = st\<lparr>n_mux_proposed := None\<rparr> in
                       if prev_payload = [] then (Panic, st, w)
                       else
                         let (r, i, w) = inner prev_id (tl prev_payload) (n_inner st) w;
                             st = st\<lparr>n_inner := i\<rparr>
                         in case r of
                              Done _ \<Rightarrow>
                                (let (r, i, w) = inner did (tl payload) (n_inner st) w
                                 in (r, st\<lparr>n_inner := i\<rparr>, w))
                            | _ \<Rightarrow> (r, st, w)))
           | (r, w) \<Rightarrow> (map_outcome id (\<lambda>_. ()) r, st, w))
      | Some (Transport _ _) \<Rightarrow>
          (let (r, i, w) = inner did p (n_inner st) w in (r, st\<lparr>n_inner := i\<rparr>, w)))"

definition noise_on_data ::
  "('s, 'c) noise_ops \<Rightarrow> key_db \<Rightarrow> ('e, 'w) cx_ops \<Rightarrow> ('e, 'w) db_ops \<Rightarrow> ('e, 'i, 'w) on_data
     \<Rightarrow> ('e, ('s, 'c, 'i) noise_state, 'w) on_data" where
  "noise_on_data ops keys cx db inner did bytes st w =
     (if n_error st then noise_on_error cx db did bytes st w
      else
        case noise_process ops keys (incoming did) bytes st of
          (Inl e, st') \<Rightarrow> noise_on_error cx db did bytes (st'\<lparr>n_error := True\<rparr>) w
        | (Inr p, st') \<Rightarrow>
            (let n = length p;
                 st' = st'\<lparr>n_decrypted := n_decrypted st' + of_nat n\<rparr>;
                 w = cx_add_decrypted cx n w;
                 (r, w) = db_update db
                   \<lparr>total_bytes = of_nat n, decrypted_bytes = of_nat n, decrypted_chunks = 1,
                    stat_messages = 0\<rparr> (incoming did) w
             in case r of
                  Done _ \<Rightarrow> noise_deliver cx db inner (n_machine st) did p st' w
                | _ \<Rightarrow> (r, st', w)))"

section \<open>Messages as frames\<close>

definition noise_frame :: "bytes \<Rightarrow> (bytes \<times> nat) option" where
  "noise_frame bs =
     (if 2 \<le> length bs \<and> 2 + noise_len bs \<le> length bs
      then Some (take (2 + noise_len bs) bs, 2 + noise_len bs) else None)"

definition noise_msg_wf :: "bytes \<Rightarrow> bool" where
  "noise_msg_wf m = (2 \<le> length m \<and> length m = 2 + noise_len m)"

lemma noise_len_append: "2 \<le> length bs \<Longrightarrow> noise_len (bs @ ys) = noise_len bs"
  by (simp add: noise_len_def)

interpretation nz: frame_codec noise_frame "\<lambda>m. m" noise_msg_wf
  by unfold_locales
    (auto simp: noise_frame_def noise_msg_wf_def noise_len_append split: if_splits)

text \<open>An inner protocol that neither panics nor runs forever, run on a list of messages.\<close>

definition quiet :: "('e, 'i, 'w) on_data \<Rightarrow> bool" where
  "quiet inner = (\<forall>did bs i w. fst (inner did bs i w) \<noteq> Panic \<and> fst (inner did bs i w) \<noteq> Hang)"

definition run_msgs :: "('e, 'i, 'w) on_data \<Rightarrow> directed_id \<Rightarrow> bytes list \<Rightarrow> 'i \<times> 'w \<Rightarrow> 'i \<times> 'w" where
  "run_msgs inner did ms = fold (\<lambda>m (i, w). snd (inner did m i w)) ms"

lemma chunk_loop_eq:
  assumes "quiet inner"
  shows "chunk_loop inner did acc i w =
    (Done (), snd (drain noise_frame acc), run_msgs inner did (fst (drain noise_frame acc)) (i, w))"
proof (induction acc arbitrary: i w rule: length_induct)
  case (1 acc)
  show ?case
  proof (cases "noise_frame acc")
    case None
    thus ?thesis
      by (subst chunk_loop.simps) (auto simp: drain_None run_msgs_def noise_frame_def split: if_splits)
  next
    case (Some x)
    then obtain m n where f: "noise_frame acc = Some (m, n)" by (cases x) auto
    hence mn: "m = take (2 + noise_len acc) acc" "n = 2 + noise_len acc" "2 \<le> length acc"
      "2 + noise_len acc \<le> length acc" by (auto simp: noise_frame_def split: if_splits)
    obtain r j v where d: "inner did m i w = (r, j, v)" by (cases "inner did m i w")
    with assms have q: "r \<noteq> Panic" "r \<noteq> Hang" unfolding quiet_def by (metis fst_conv)+
    have "length (drop n acc) < length acc" using nz.frame_bounds [OF f] by auto
    with 1 have "chunk_loop inner did (drop n acc) j v = (Done (), snd (drain noise_frame (drop n acc)),
        run_msgs inner did (fst (drain noise_frame (drop n acc))) (j, v))" by blast
    thus ?thesis using mn d q
      by (subst chunk_loop.simps, cases r) (simp_all add: nz.drain_Some [OF f] run_msgs_def)
  qed
qed

lemma chunk_acc_simps [simp]:
  "chunk_acc inc (chunk_set_acc inc a st) = a"
  "chunk_set_acc inc a (chunk_set_acc inc b st) = chunk_set_acc inc a st"
  "chunk_set_acc inc (chunk_acc inc st) st = st"
  "c_inner (chunk_set_acc inc a st) = c_inner st"
  "chunk_acc inc (st\<lparr>c_inner := x\<rparr>) = chunk_acc inc st"
  "(chunk_set_acc inc a st)\<lparr>c_inner := x\<rparr> = chunk_set_acc inc a (st\<lparr>c_inner := x\<rparr>)"
  by (simp_all add: chunk_acc_def chunk_set_acc_def)

text \<open>The effect of a call on state and world: all complete messages, in order.\<close>

lemma chunk_on_data_eq:
  assumes "quiet inner" and "drain noise_frame (chunk_acc (incoming did) st @ bytes) = (ms, r)"
    and "run_msgs inner did ms (c_inner st, w) = (i, w')"
  shows "snd (chunk_on_data inner did bytes st w) =
    (chunk_set_acc (incoming did) r (st\<lparr>c_inner := i\<rparr>), w')"
proof (cases "chunk_acc (incoming did) st = [] \<and> 2 \<le> length bytes \<and> length bytes = 2 + noise_len bytes")
  case True
  hence "noise_msg_wf bytes" by (simp add: noise_msg_wf_def)
  hence "drain noise_frame bytes = ([bytes], [])"
    using nz.drain_emit [of "[bytes]" "[]"] by (simp add: noise_frame_def)
  with assms True have "ms = [bytes]" "r = []" by simp_all
  moreover have "chunk_set_acc (incoming did) [] (st\<lparr>c_inner := i\<rparr>) = st\<lparr>c_inner := i\<rparr>"
    using chunk_acc_simps(3) [of "incoming did" "st\<lparr>c_inner := i\<rparr>"] True by simp
  ultimately show ?thesis using True assms(3)
    by (simp add: chunk_on_data_def run_msgs_def Let_def split_beta)
next
  case False
  thus ?thesis using assms chunk_loop_eq [OF assms(1)]
    by (auto simp: chunk_on_data_def Let_def)
qed

fun chunk_feed ::
  "('e, 'i, 'w) on_data \<Rightarrow> directed_id \<Rightarrow> bytes list \<Rightarrow> 'i chunk_state \<Rightarrow> 'w \<Rightarrow> 'i chunk_state \<times> 'w" where
  "chunk_feed inner did [] st w = (st, w)"
| "chunk_feed inner did (c # cs) st w =
     (let (_, st, w) = chunk_on_data inner did c st w in chunk_feed inner did cs st w)"

lemma chunk_feed_eq:
  assumes "quiet inner" and "noise_frame (chunk_acc (incoming did) st) = None"
    and "drain noise_frame (chunk_acc (incoming did) st @ concat cs) = (ms, r)"
    and "run_msgs inner did ms (c_inner st, w) = (i, w')"
  shows "chunk_feed inner did cs st w = (chunk_set_acc (incoming did) r (st\<lparr>c_inner := i\<rparr>), w')"
  using assms(2-4)
proof (induction cs arbitrary: st w ms)
  case Nil
  thus ?case using chunk_acc_simps(3) [of "incoming did" st] by (auto simp: drain_None run_msgs_def)
next
  case (Cons c cs)
  obtain m1 r1 where d1: "drain noise_frame (chunk_acc (incoming did) st @ c) = (m1, r1)" by fastforce
  obtain m2 r2 where d2: "drain noise_frame (r1 @ concat cs) = (m2, r2)" by fastforce
  obtain i1 w1 where u: "run_msgs inner did m1 (c_inner st, w) = (i1, w1)" by fastforce
  from nz.drain_append [of "chunk_acc (incoming did) st @ c" "concat cs"] Cons.prems(2) d1 d2
  have ms: "ms = m1 @ m2" "r = r2" by simp_all
  have s: "snd (chunk_on_data inner did c st w) = (chunk_set_acc (incoming did) r1 (st\<lparr>c_inner := i1\<rparr>), w1)"
    by (rule chunk_on_data_eq [OF assms(1) d1 u])
  have "noise_frame r1 = None" using nz.drain_rest [of "chunk_acc (incoming did) st @ c"] d1 by simp
  moreover have "run_msgs inner did m2 (i1, w1) = (i, w')"
    using Cons.prems(3) u ms by (simp add: run_msgs_def)
  ultimately show ?case
    using Cons.IH [of "chunk_set_acc (incoming did) r1 (st\<lparr>c_inner := i1\<rparr>)" m2 w1] d2 ms s
    by (simp add: split_beta Let_def)
qed

section \<open>Finding keys\<close>

lemma find_sk_in_sound:
  "find_sk_in ops pk rs = Some sk \<Longrightarrow> base_mul ops sk = pk \<and> (\<exists>r \<in> set rs. length r = 32 \<and> sk = clamp_sk r)"
  by (induction rs) (auto split: if_splits)

lemma find_sk_in_complete:
  "r \<in> set rs \<Longrightarrow> length r = 32 \<Longrightarrow> base_mul ops (clamp_sk r) = pk \<Longrightarrow> \<exists>sk. find_sk_in ops pk rs = Some sk"
  by (induction rs) auto

text \<open>What the recorder relies on: the Diffie-Hellman law, and reproduced keys that fit.\<close>

locale noise_keys =
  fixes ops :: "('s, 'c) noise_ops" and keys :: key_db
  assumes dh_comm: "point_mul ops (base_mul ops a) b = point_mul ops (base_mul ops b) a"
    and reproduced_sound: "reproduced_sk keys e pk = Some sk \<Longrightarrow> base_mul ops sk = pk"
begin

lemma find_any_sk_sound: "find_any_sk ops keys pk = Some sk \<Longrightarrow> base_mul ops sk = pk"
  by (auto simp: find_any_sk_def find_sk_def find_sk_openmina_def dest: find_sk_in_sound reproduced_sound
      split: option.splits)

lemma try_dh_secret:
  assumes "find_any_sk ops keys (base_mul ops a) \<noteq> None \<or> find_any_sk ops keys (base_mul ops b) \<noteq> None"
  shows "try_dh ops keys (base_mul ops a) (base_mul ops b) = Some (point_mul ops (base_mul ops a) b)"
proof (cases "find_any_sk ops keys (base_mul ops a)")
  case (Some sk)
  hence "base_mul ops sk = base_mul ops a" by (rule find_any_sk_sound)
  hence "point_mul ops (base_mul ops b) sk = point_mul ops (base_mul ops a) b" by (metis dh_comm)
  thus ?thesis using Some by (simp add: try_dh_def)
next
  case None
  with assms obtain sk where s: "find_any_sk ops keys (base_mul ops b) = Some sk" by auto
  hence "base_mul ops sk = base_mul ops b" by (rule find_any_sk_sound)
  hence "point_mul ops (base_mul ops a) sk = point_mul ops (base_mul ops a) b" by (metis dh_comm)
  thus ?thesis using None s by (simp add: try_dh_def)
qed

end

section \<open>Following a handshake\<close>

text \<open>
  The messages of two peers that run the XX pattern, with the secret keys \<open>ie\<close>, \<open>is\<close> of the
  initiator and \<open>re\<close>, \<open>rs\<close> of the responder; \<open>enc\<close> encrypts and authenticates with the symmetric
  state. The last component is the symmetric state behind the message.
\<close>

definition xx_start :: "('s, 'c) noise_ops \<Rightarrow> bytes \<Rightarrow> 's" where
  "xx_start ops epk = ss_mix_hash ops [] (ss_mix_hash ops epk
     (ss_mix_hash ops [] (ss_new ops ''Noise_XX_25519_ChaChaPoly_SHA256'')))"

definition xx_second ::
  "('s, 'c) noise_ops \<Rightarrow> (bytes \<Rightarrow> 's \<Rightarrow> bytes \<times> bytes \<times> 's) \<Rightarrow> bytes \<Rightarrow> bytes \<Rightarrow> bytes \<Rightarrow> bytes \<Rightarrow> bytes \<times> 's" where
  "xx_second ops enc ie re rs payload =
     (let epk = base_mul ops re;
          s = ss_mix_shared_secret ops (point_mul ops (base_mul ops re) ie)
                (ss_mix_hash ops epk (xx_start ops (base_mul ops ie)));
          (c1, t1, s) = enc (base_mul ops rs) s;
          s = ss_mix_shared_secret ops (point_mul ops (base_mul ops rs) ie) s;
          (c2, t2, s) = enc payload s
      in (epk @ c1 @ t1 @ c2 @ t2, s))"

definition xx_third ::
  "('s, 'c) noise_ops \<Rightarrow> (bytes \<Rightarrow> 's \<Rightarrow> bytes \<times> bytes \<times> 's) \<Rightarrow> bytes \<Rightarrow> bytes \<Rightarrow> bytes \<Rightarrow> 's \<Rightarrow> bytes \<times> 's" where
  "xx_third ops enc is re payload s =
     (let (c1, t1, s) = enc (base_mul ops is) s;
          s = ss_mix_shared_secret ops (point_mul ops (base_mul ops is) re) s;
          (c2, t2, s) = enc payload s
      in (c1 @ t1 @ c2 @ t2, s))"

text \<open>The secret key behind one of two public keys can be found.\<close>

definition knows_sk :: "('s, 'c) noise_ops \<Rightarrow> key_db \<Rightarrow> bytes \<Rightarrow> bytes \<Rightarrow> bool" where
  "knows_sk ops keys a b =
     (find_any_sk ops keys (base_mul ops a) \<noteq> None \<or> find_any_sk ops keys (base_mul ops b) \<noteq> None)"

locale noise_peers = noise_keys +
  fixes enc :: "bytes \<Rightarrow> 'a \<Rightarrow> bytes \<times> bytes \<times> 'a"
  assumes dec_enc: "enc p s = (c, t, s') \<Longrightarrow>
      ss_decrypt ops c t s = Some (p, s') \<and> length c = length p \<and> length t = 16"
    and base_mul_length: "length (base_mul ops k) = 32"
begin

lemma follows_second:
  assumes "xx_second ops enc ie re rs payload = (m, s)" and "length hdr = 2"
    and "knows_sk ops keys re ie" and "knows_sk ops keys rs ie"
  shows "noise_second ops keys i (xx_start ops (base_mul ops ie)) (base_mul ops ie) (hdr @ m) =
    Inr (payload, SecondMessage s (base_mul ops re))"
proof -
  let ?s0 = "ss_mix_shared_secret ops (point_mul ops (base_mul ops re) ie)
                (ss_mix_hash ops (base_mul ops re) (xx_start ops (base_mul ops ie)))"
  obtain c1 t1 s1 where e1: "enc (base_mul ops rs) ?s0 = (c1, t1, s1)" by (metis prod_cases3)
  let ?s1 = "ss_mix_shared_secret ops (point_mul ops (base_mul ops rs) ie) s1"
  obtain c2 t2 s2 where e2: "enc payload ?s1 = (c2, t2, s2)" by (metis prod_cases3)
  from assms(1) have m: "m = base_mul ops re @ c1 @ t1 @ c2 @ t2" "s2 = s"
    by (simp_all add: xx_second_def e1 e2 Let_def)
  note d = dec_enc [OF e1] dec_enc [OF e2]
  have l: "length (base_mul ops re) = 32" "length c1 = 32" "length t1 = 16" "length t2 = 16"
    using d base_mul_length by simp_all
  have "slice 2 34 (hdr @ m) = base_mul ops re" "slice 34 66 (hdr @ m) = c1" "slice 66 82 (hdr @ m) = t1"
    "slice 82 (length (hdr @ m) - 16) (hdr @ m) = c2" "drop (length (hdr @ m) - 16) (hdr @ m) = t2"
    "98 \<le> length (hdr @ m)"
    using l assms(2) by (simp_all add: m slice_def)
  moreover have "try_dh ops keys (base_mul ops re) (base_mul ops ie) = Some (point_mul ops (base_mul ops re) ie)"
    "try_dh ops keys (base_mul ops rs) (base_mul ops ie) = Some (point_mul ops (base_mul ops rs) ie)"
    using assms(3,4) by (simp_all add: knows_sk_def try_dh_secret)
  ultimately show ?thesis
    using d m(2) unfolding noise_second_def Let_def by (simp only: option.case prod.case) simp
qed

lemma follows_third:
  assumes "xx_third ops enc is re payload s = (m, s')" and "length hdr = 2"
    and "knows_sk ops keys is re" and "32 \<le> length payload" and "ss_finish ops s' = (sender, receiver)"
  shows "noise_third ops keys i s (base_mul ops re) (hdr @ m) =
    Inr (payload, Transport receiver (c_swap ops sender))"
proof -
  obtain c1 t1 s1 where e1: "enc (base_mul ops is) s = (c1, t1, s1)" by (metis prod_cases3)
  let ?s1 = "ss_mix_shared_secret ops (point_mul ops (base_mul ops is) re) s1"
  obtain c2 t2 s2 where e2: "enc payload ?s1 = (c2, t2, s2)" by (metis prod_cases3)
  from assms(1) have m: "m = c1 @ t1 @ c2 @ t2" "s2 = s'"
    by (simp_all add: xx_third_def e1 e2 Let_def)
  note d = dec_enc [OF e1] dec_enc [OF e2]
  have l: "length c1 = 32" "length t1 = 16" "length t2 = 16" "32 \<le> length c2"
    using d base_mul_length assms(4) by simp_all
  have "slice 2 34 (hdr @ m) = c1" "slice 34 50 (hdr @ m) = t1"
    "slice 50 (length (hdr @ m) - 16) (hdr @ m) = c2" "drop (length (hdr @ m) - 16) (hdr @ m) = t2"
    "98 \<le> length (hdr @ m)"
    using l assms(2) by (simp_all add: m slice_def)
  moreover have "try_dh ops keys (base_mul ops is) (base_mul ops re) = Some (point_mul ops (base_mul ops is) re)"
    using assms(3) by (simp add: knows_sk_def try_dh_secret)
  ultimately show ?thesis
    using d m(2) assms(5) unfolding noise_third_def Let_def by (simp only: option.case prod.case) simp
qed

lemma follows_first:
  "length hdr = 2 \<Longrightarrow> noise_first ops (hdr @ base_mul ops ie) =
     Inr ([], FirstMessage (xx_start ops (base_mul ops ie)) (base_mul ops ie))"
  using base_mul_length [of ie] by (simp add: noise_first_def xx_start_def slice_def Let_def)

lemma follows_handshake:
  assumes "n_machine st = None" and "length h1 = 2" and "length h2 = 2" and "length h3 = 2"
    and "xx_second ops enc ie re rs p2 = (m2, s)" and "xx_third ops enc is re p3 s = (m3, s')"
    and "knows_sk ops keys re ie" and "knows_sk ops keys rs ie" and "knows_sk ops keys is re"
    and "32 \<le> length p3" and "ss_finish ops s' = (sender, receiver)"
  shows "\<exists>st1 st2 st3.
    noise_process ops keys inc (h1 @ base_mul ops ie) st = (Inr [], st1) \<and>
    noise_process ops keys (\<not> inc) (h2 @ m2) st1 = (Inr p2, st2) \<and>
    noise_process ops keys inc (h3 @ m3) st2 = (Inr p3, st3) \<and>
    n_machine st3 = Some (Transport receiver (c_swap ops sender)) \<and> n_initiator_is_incoming st3 = inc"
  using assms follows_first [OF assms(2), of ie] follows_second [OF assms(5,3,7,8), of inc]
    follows_third [OF assms(6,4,9,10,11), of inc]
  by (simp add: noise_process_def Let_def)

end

text \<open>A small instance: keys are 32 bytes, encryption appends a constant tag.\<close>

definition toy_key :: "bytes \<Rightarrow> bytes" where
  "toy_key k = take 32 (k @ replicate 32 0)"

definition toy_ops :: "(nat, nat) noise_ops" where
  "toy_ops = \<lparr>base_mul = toy_key, point_mul = (\<lambda>p k. map2 xor p (toy_key k)), ss_new = (\<lambda>_. 0),
     ss_mix_hash = (\<lambda>_ s. Suc s), ss_mix_shared_secret = (\<lambda>_ s. Suc s),
     ss_decrypt = (\<lambda>c t s. if t = replicate 16 0 then Some (c, Suc s) else None),
     ss_finish = (\<lambda>s. (s, Suc s)), c_swap = Suc,
     c_decrypt = (\<lambda>c t n. if t = replicate 16 0 then Some (c, Suc n) else None)\<rparr>"

definition toy_keys :: key_db where
  "toy_keys = \<lparr>iterate_randomness = [],
     reproduced_sk = (\<lambda>e pk. if length pk = 32 then Some pk else None)\<rparr>"

definition toy_enc :: "bytes \<Rightarrow> nat \<Rightarrow> bytes \<times> bytes \<times> nat" where
  "toy_enc p s = (p, replicate 16 0, Suc s)"

lemma length_toy_key [simp]: "length (toy_key k) = 32"
  by (simp add: toy_key_def)

lemma map2_xor_commute: "map2 xor (xs :: bytes) ys = map2 xor ys xs"
  by (induction xs arbitrary: ys) (case_tac ys; simp add: xor.commute)+

interpretation toy: noise_peers toy_ops toy_keys toy_enc
  by unfold_locales
    (auto simp: toy_ops_def toy_keys_def toy_enc_def toy_key_def map2_xor_commute split: if_splits)

lemma toy_knows: "knows_sk toy_ops toy_keys a b"
  by (simp add: knows_sk_def find_any_sk_def find_sk_def find_sk_openmina_def toy_ops_def toy_keys_def)

section \<open>Properties\<close>

text \<open>C36: How the stream of noise messages is cut into chunks has no influence: the inner layer gets
  exactly the complete messages of the whole stream in order, and only an incomplete message
  stays in the buffer.\<close>

theorem noise_chunking:
  assumes "quiet inner" and "noise_frame (chunk_acc (incoming did) st) = None"
    and "drain noise_frame (chunk_acc (incoming did) st @ concat cs) = (ms, r)"
    and "run_msgs inner did ms (c_inner st, w) = (i, w')"
  shows "chunk_feed inner did cs st w = (chunk_set_acc (incoming did) r (st\<lparr>c_inner := i\<rparr>), w')"
  by (rule chunk_feed_eq [OF assms])

theorem noise_chunking_witness:
  "chunk_feed (\<lambda>did m i w. (Done (), i @ [m], w)) (sample_did True) [[0], [2, 7], [8, 0, 1, 9, 0]]
     \<lparr>c_incoming = [], c_outgoing = [], c_inner = []\<rparr> () =
   (\<lparr>c_incoming = [0], c_outgoing = [], c_inner = [[0, 2, 7, 8], [0, 1, 9]]\<rparr>, ())"
proof -
  let ?st = "\<lparr>c_incoming = [], c_outgoing = [], c_inner = []\<rparr> :: bytes list chunk_state"
  have d: "drain noise_frame (chunk_acc (incoming (sample_did True)) ?st @ concat [[0], [2, 7], [8, 0, 1, 9, 0]]) =
      ([[0, 2, 7, 8], [0, 1, 9]], [0])" by code_simp
  show ?thesis
    by (subst noise_chunking [OF _ _ d])
      (simp_all add: quiet_def noise_frame_def chunk_acc_def chunk_set_acc_def run_msgs_def sample_did_def)
qed

text \<open>C37: When one of the two secret keys can be found, in the recorded randomness or by reproducing
  it, \<open>try_dh\<close> computes the shared secret of the two peers, whichever key it was.\<close>

theorem try_dh_shared_secret:
  assumes "noise_keys ops keys" and "knows_sk ops keys a b"
  shows "try_dh ops keys (base_mul ops a) (base_mul ops b) = Some (point_mul ops (base_mul ops a) b)"
  using noise_keys.try_dh_secret [OF assms(1)] assms(2) by (simp add: knows_sk_def)

theorem try_dh_shared_secret_witness:
  "try_dh toy_ops toy_keys (base_mul toy_ops [1]) (base_mul toy_ops [2]) =
     Some (point_mul toy_ops (base_mul toy_ops [1]) [2])"
  by (rule try_dh_shared_secret [OF toy.noise_keys_axioms toy_knows])

text \<open>C1: The recorder follows every handshake for which it finds one secret key per exchange: it
  decrypts the payloads of the second and third message and ends in the transport state with the
  ciphers of the two peers, knowing which direction is the initiator's.\<close>

theorem noise_follows_handshake:
  assumes "noise_peers ops keys enc"
    and "n_machine st = None" and "length h1 = 2" and "length h2 = 2" and "length h3 = 2"
    and "xx_second ops enc ie re rs p2 = (m2, s)" and "xx_third ops enc is re p3 s = (m3, s')"
    and "knows_sk ops keys re ie" and "knows_sk ops keys rs ie" and "knows_sk ops keys is re"
    and "32 \<le> length p3" and "ss_finish ops s' = (sender, receiver)"
  shows "\<exists>st1 st2 st3.
    noise_process ops keys inc (h1 @ base_mul ops ie) st = (Inr [], st1) \<and>
    noise_process ops keys (\<not> inc) (h2 @ m2) st1 = (Inr p2, st2) \<and>
    noise_process ops keys inc (h3 @ m3) st2 = (Inr p3, st3) \<and>
    n_machine st3 = Some (Transport receiver (c_swap ops sender)) \<and> n_initiator_is_incoming st3 = inc"
  by (rule noise_peers.follows_handshake [OF assms])

theorem noise_follows_handshake_witness:
  "\<exists>m2 m3 st1 st2 st3.
    noise_process toy_ops toy_keys True ([0, 32] @ base_mul toy_ops [1])
      (noise_from_name (\<lambda>s. ()) ''/noise'' Handshake) = (Inr [], st1) \<and>
    noise_process toy_ops toy_keys False ([0, 97] @ m2) st1 = (Inr [5], st2) \<and>
    noise_process toy_ops toy_keys True ([0, 96] @ m3) st2 = (Inr (replicate 32 6), st3) \<and>
    n_initiator_is_incoming st3"
proof -
  obtain m2 s where 2: "xx_second toy_ops toy_enc [1] [2] [3] [5] = (m2, s)" by fastforce
  obtain m3 s' where 3: "xx_third toy_ops toy_enc [4] [2] (replicate 32 6) s = (m3, s')" by fastforce
  obtain a b where f: "ss_finish toy_ops s' = (a, b)" by fastforce
  show ?thesis
    using noise_follows_handshake [OF toy.noise_peers_axioms _ _ _ _ 2 3 toy_knows toy_knows toy_knows _ f,
        of "noise_from_name (\<lambda>s. ()) ''/noise'' Handshake" "[0, 32]" "[0, 97]" "[0, 96]" True]
    by (simp add: noise_from_name_def) blast
qed

text \<open>After an error the layer never calls the inner protocol again; it counts every further
  byte as failed, and no byte as decrypted.\<close>

theorem noise_error_final:
  assumes "n_error st" and "noise_on_data ops keys cx db inner did bytes st w = (r, st', w')"
  shows "n_error st' \<and> n_inner st' = n_inner st \<and> n_decrypted st' = n_decrypted st \<and>
    n_failed_to_decrypt st' = n_failed_to_decrypt st + of_nat (length bytes)"
  using assms
  by (auto simp: noise_on_data_def noise_on_error_def Let_def split: prod.splits outcome.splits)

definition toy_cx :: "(string, (stream_id \<times> stream_kind \<times> bytes) list) cx_ops" where
  "toy_cx = \<lparr>cx_add_decrypted = (\<lambda>n w. w), cx_add_failed = (\<lambda>n w. w), cx_decrypted = (\<lambda>w. 0),
     cx_failed = (\<lambda>w. 0), handshake_payload = Done\<rparr>"

theorem noise_error_final_witness:
  "n_inner (fst (snd (noise_on_data toy_ops toy_keys toy_cx list_db (\<lambda>did m i w. (Done (), i @ m, w))
     (sample_did True) [1, 2] (noise_from_name (\<lambda>s. [7]) ''/tls'' Handshake) []))) = [7]"
proof -
  obtain r st' w' where e: "noise_on_data toy_ops toy_keys toy_cx list_db (\<lambda>did m i w. (Done (), i @ m, w))
     (sample_did True) [1, 2] (noise_from_name (\<lambda>s. [7]) ''/tls'' Handshake) [] = (r, st', w')"
    by (metis prod_cases3)
  from noise_error_final [OF _ e] show ?thesis by (simp add: e) (simp add: noise_from_name_def)
qed

text \<open>C15: In the transport state, a message that the receiver of its direction can decrypt reaches
  the inner protocol as plain text, and its length is counted as decrypted.\<close>

theorem noise_transport_delivers:
  assumes "\<not> n_error st" and "n_machine st = Some (Transport ir rr)" and "length bytes \<ge> 18"
    and "c_decrypt ops (slice 2 (length bytes - 16) bytes) (drop (length bytes - 16) bytes)
      (if incoming did = n_initiator_is_incoming st then ir else rr) = Some (p, c)"
    and "db_update db \<lparr>total_bytes = of_nat (length p), decrypted_bytes = of_nat (length p),
        decrypted_chunks = 1, stat_messages = 0\<rparr> (incoming did) (cx_add_decrypted cx (length p) w) = (Done (), wa)"
    and "inner did p (n_inner st) wa = (r, i, wb)"
  shows "noise_on_data ops keys cx db inner did bytes st w =
    (r, st\<lparr>n_inner := i, n_decrypted := n_decrypted st + of_nat (length p),
       n_machine := Some (if incoming did = n_initiator_is_incoming st then Transport c rr else Transport ir c)\<rparr>, wb)"
  using assms
  by (simp add: noise_on_data_def noise_process_def noise_transport_def noise_deliver_def Let_def
      split: if_splits)

theorem noise_transport_delivers_witness:
  "noise_on_data toy_ops toy_keys toy_cx list_db (\<lambda>did m i w. (Done (), i @ m, w)) (sample_did True)
     ([0, 18, 5, 6] @ replicate 16 0)
     ((noise_from_name (\<lambda>s. []) ''/noise'' Handshake)\<lparr>n_machine := Some (Transport 3 4)\<rparr>) [] =
   (Done (), (noise_from_name (\<lambda>s. []) ''/noise'' Handshake)
      \<lparr>n_inner := [5, 6], n_decrypted := 2, n_machine := Some (Transport 3 5)\<rparr>, [])"
  by (subst noise_transport_delivers [where ir = 3 and rr = 4 and p = "[5, 6]" and c = 5 and r = "Done ()"
        and i = "[5, 6]" and wb = "[]" and wa = "[]"])
    (simp_all add: noise_from_name_def toy_ops_def toy_cx_def list_db_def sample_did_def slice_def)

text \<open>A muxer proposed in the second message is handed on without its first two bytes, while the
  answer in the third message loses only one; a proposal of a single byte panics.\<close>

theorem noise_early_muxer:
  assumes "noise_store_handshake cx db dida pa w = (Done pla, wa)" and "pla \<noteq> []"
    and "noise_store_handshake cx db didb pb wa = (Done plb, wb)" and "plb \<noteq> []"
    and "noise_deliver cx db inner (Some (FirstMessage sa ka)) dida pa st w = (r, sta, wa)"
  shows "noise_deliver cx db inner (Some (SecondMessage sb kb)) didb pb sta wa =
    (if length pla = 1 then (Panic, sta\<lparr>n_mux_proposed := None\<rparr>, wb)
     else case inner dida (drop 2 pla) (n_inner st) wb of
            (Done _, i, w3) \<Rightarrow>
              (case inner didb (drop 1 plb) i w3 of
                 (r, i, w) \<Rightarrow> (r, sta\<lparr>n_mux_proposed := None, n_inner := i\<rparr>, w))
          | (r, i, w3) \<Rightarrow> (r, sta\<lparr>n_mux_proposed := None, n_inner := i\<rparr>, w3))"
proof -
  have "length pla = 1 \<longleftrightarrow> tl pla = []" using assms(2) by (cases pla) auto
  moreover have "tl (tl pla) = drop 2 pla" "tl plb = drop 1 plb"
    by (simp_all add: numeral_2_eq_2 drop_Suc)
  moreover have "sta = st\<lparr>n_mux_proposed := Some (dida, tl pla)\<rparr>"
    using assms(1,2,5) by (simp add: noise_deliver_def)
  ultimately show ?thesis using assms(3,4)
    by (simp add: noise_deliver_def Let_def split: prod.split outcome.split)
qed

theorem noise_early_muxer_witness:
  "noise_deliver toy_cx list_db (\<lambda>did m i w. (Done (), i @ [m], w)) (Some (SecondMessage 0 [])) (sample_did True)
     [4, 5, 6] ((noise_from_name (\<lambda>s. []) ''/noise'' Handshake :: (nat, nat, bytes list) noise_state)
        \<lparr>n_mux_proposed := Some (sample_did False, [2, 3])\<rparr>) [(Handshake, Kind_Handshake, [1, 2, 3])] =
   (Done (), (noise_from_name (\<lambda>s. []) ''/noise'' Handshake)\<lparr>n_inner := [[3], [5, 6]]\<rparr>,
    [(Handshake, Kind_Handshake, [1, 2, 3]), (Handshake, Kind_Handshake, [4, 5, 6])])"
proof -
  let ?st = "noise_from_name (\<lambda>s. []) ''/noise'' Handshake :: (nat, nat, bytes list) noise_state"
  show ?thesis
    by (subst noise_early_muxer [where pla = "[1, 2, 3]" and plb = "[4, 5, 6]" and dida = "sample_did False"
          and pa = "[1, 2, 3]" and w = "[]" and st = ?st and r = "Done ()" and sa = 0 and ka = "[]"
          and wb = "[(Handshake, Kind_Handshake, [1, 2, 3]), (Handshake, Kind_Handshake, [4, 5, 6])]"])
      (simp_all add: noise_store_handshake_def noise_deliver_def toy_cx_def list_db_def noise_from_name_def)
qed

end
