(* ===== verification/Accumulator.thy ===== *)
theory Accumulator
  imports Framing Types Varint
begin

text \<open>
  The accumulator that the protocols on top of the multiplexer share
  (\<open>mina-recorder/src/connection/accumulator.rs\<close>), and its use for meshsub
  (\<open>connection/mina_protocol/meshsub.rs\<close>): a buffer with a read position, and a decoder of the
  message size as a parameter.
\<close>

section \<open>The buffer\<close>

text \<open>\<open>ds bs = Some (l0, l1)\<close>: the size information takes \<open>l0\<close> bytes and announces \<open>l1\<close> bytes.\<close>

type_synonym size_decoder = "bytes \<Rightarrow> (nat \<times> nat) option"

record accumulator =
  acc_pos :: nat
  acc_buf :: bytes

definition accumulator_default :: accumulator where
  "accumulator_default = \<lparr>acc_pos = 0, acc_buf = []\<rparr>"

definition acc_extend :: "size_decoder \<Rightarrow> bytes \<Rightarrow> accumulator \<Rightarrow> bool \<times> accumulator" where
  "acc_extend ds bytes st =
     (if acc_buf st = [] \<and>
         (case ds bytes of Some (l0, l1) \<Rightarrow> usize_add l0 l1 = length bytes | None \<Rightarrow> False)
      then (False, st)
      else (True, st\<lparr>acc_buf := acc_buf st @ bytes\<rparr>))"

definition acc_drop_buffer :: "accumulator \<Rightarrow> accumulator" where
  "acc_drop_buffer st = \<lparr>acc_pos = 0, acc_buf = drop (acc_pos st) (acc_buf st)\<rparr>"

definition acc_next_msg :: "size_decoder \<Rightarrow> accumulator \<Rightarrow> bytes option \<times> accumulator" where
  "acc_next_msg ds st =
     (if acc_buf st = [] \<or> length (acc_buf st) = acc_pos st then (None, acc_drop_buffer st)
      else
        let bytes = drop (acc_pos st) (acc_buf st) in
        case ds bytes of
          None \<Rightarrow> (None, st)
        | Some (l0, l1) \<Rightarrow>
            if usize_add l0 l1 \<le> length bytes then
              (let new_pos = length (acc_buf st) - length bytes + usize_add l0 l1 in
               if acc_pos st = new_pos then (None, acc_drop_buffer st)
               else (Some (slice (acc_pos st) new_pos (acc_buf st)), st\<lparr>acc_pos := new_pos\<rparr>))
            else (None, acc_drop_buffer st))"

text \<open>Bytes ahead of the read position, which never lies behind the buffer.\<close>

definition acc_ahead :: "accumulator \<Rightarrow> nat" where
  "acc_ahead st = (if acc_pos st \<le> length (acc_buf st) then length (acc_buf st) - acc_pos st else 1)"

lemma acc_next_progress: "acc_next_msg ds st = (Some m, st') \<Longrightarrow> acc_ahead st' < acc_ahead st"
  by (auto simp: acc_next_msg_def acc_ahead_def Let_def split: if_splits option.splits)

text \<open>The loop \<open>while let Some(slice) = st.next_msg()\<close>.\<close>

function acc_all :: "size_decoder \<Rightarrow> accumulator \<Rightarrow> bytes list \<times> accumulator" where
  "acc_all ds st =
     (case acc_next_msg ds st of
        (None, st') \<Rightarrow> ([], st')
      | (Some m, st') \<Rightarrow> (let (ms, st'') = acc_all ds st' in (m # ms, st'')))"
  by pat_completeness auto
termination
  by (relation "measure (\<lambda>(ds, st). acc_ahead st)") (auto dest: acc_next_progress [OF sym])

declare acc_all.simps [simp del]

text \<open>\<open>extend\<close> and then all messages: what a client sees of a chunk.\<close>

definition acc_feed :: "size_decoder \<Rightarrow> bytes \<Rightarrow> accumulator \<Rightarrow> bytes list \<times> accumulator" where
  "acc_feed ds bytes st =
     (case acc_extend ds bytes st of
        (False, st) \<Rightarrow> ([bytes], st)
      | (True, st) \<Rightarrow> acc_all ds st)"

section \<open>Meshsub\<close>

text \<open>\<open>prost::decode_length_delimiter\<close> is the parameter \<open>vdec\<close>.\<close>

definition meshsub_decode_size :: "varint_decoder \<Rightarrow> size_decoder" where
  "meshsub_decode_size vdec bytes =
     (case vdec bytes of
        None \<Rightarrow> None
      | Some (l1, rest) \<Rightarrow> Some (length bytes - length rest, unat l1))"

section \<open>Messages as frames\<close>

locale size_prefix =
  fixes ds :: size_decoder
  assumes size_bounds: "ds bs = Some (l0, l1) \<Longrightarrow> 0 < l0 \<and> l0 \<le> length bs"
    and size_extend: "ds bs = Some (l0, l1) \<Longrightarrow> ds (bs @ ys) = Some (l0, l1)"

definition acc_frame :: "size_decoder \<Rightarrow> bytes \<Rightarrow> (bytes \<times> nat) option" where
  "acc_frame ds bs =
     (case ds bs of
        None \<Rightarrow> None
      | Some (l0, l1) \<Rightarrow>
          if l0 + l1 < 2 ^ 64 \<and> l0 + l1 \<le> length bs then Some (take (l0 + l1) bs, l0 + l1) else None)"

text \<open>The next message announces a size beyond 64 bits.\<close>

definition acc_overflow :: "size_decoder \<Rightarrow> bytes \<Rightarrow> bool" where
  "acc_overflow ds bs = (case ds bs of None \<Rightarrow> False | Some (l0, l1) \<Rightarrow> 2 ^ 64 \<le> l0 + l1)"

definition acc_inv :: "accumulator \<Rightarrow> bool" where
  "acc_inv st = (acc_pos st \<le> length (acc_buf st))"

definition acc_rest :: "accumulator \<Rightarrow> bytes" where
  "acc_rest st = drop (acc_pos st) (acc_buf st)"

sublocale size_prefix \<subseteq> ac: lossless_framing "acc_frame ds" "\<lambda>m. m"
proof unfold_locales
  fix bs ys m n
  assume "acc_frame ds bs = Some (m, n)"
  then obtain l0 l1 where d: "ds bs = Some (l0, l1)" and n: "n = l0 + l1" "n < 2 ^ 64" "n \<le> length bs"
    "m = take n bs" by (auto simp: acc_frame_def split: option.splits if_splits)
  show "0 < n \<and> n \<le> length bs" using size_bounds [OF d] n by simp
  show "acc_frame ds (bs @ ys) = Some (m, n)" using size_extend [OF d, of ys] n by (simp add: acc_frame_def)
  show "m = take n bs" by (rule n)
qed

sublocale varint \<subseteq> ms: size_prefix "meshsub_decode_size vdec"
proof unfold_locales
  fix bs ys l0 l1
  assume a: "meshsub_decode_size vdec bs = Some (l0, l1)"
  then obtain v r where v: "vdec bs = Some (v, r)" "l0 = length bs - length r" "l1 = unat v"
    by (auto simp: meshsub_decode_size_def split: option.splits)
  show "0 < l0 \<and> l0 \<le> length bs" using dec_length [OF v(1)] v(2) by simp
  show "meshsub_decode_size vdec (bs @ ys) = Some (l0, l1)"
    using dec_extend [OF v(1), of ys] v by (simp add: meshsub_decode_size_def)
qed

context varint
begin

lemma meshsub_prefix: "size_prefix (meshsub_decode_size vdec)"
  by (rule ms.size_prefix_axioms)

end

context size_prefix
begin

lemma acc_lossless: "lossless_framing (acc_frame ds) (\<lambda>m. m)"
  by (rule ac.lossless_framing_axioms)

lemma acc_next_frame:
  assumes "acc_inv st" and "\<not> acc_overflow ds (acc_rest st)"
  shows "case acc_frame ds (acc_rest st) of
      None \<Rightarrow> fst (acc_next_msg ds st) = None \<and> acc_rest (snd (acc_next_msg ds st)) = acc_rest st \<and>
        acc_inv (snd (acc_next_msg ds st))
    | Some (m, n) \<Rightarrow> fst (acc_next_msg ds st) = Some m \<and>
        acc_rest (snd (acc_next_msg ds st)) = drop n (acc_rest st) \<and> acc_inv (snd (acc_next_msg ds st))"
proof (cases "acc_rest st = []")
  case True
  hence "acc_frame ds (acc_rest st) = None" by (auto simp: acc_frame_def dest: size_bounds split: option.split)
  moreover have "acc_buf st = [] \<or> length (acc_buf st) = acc_pos st"
    using True assms(1) by (auto simp: acc_rest_def acc_inv_def)
  ultimately show ?thesis using True
    by (auto simp: acc_next_msg_def acc_drop_buffer_def acc_rest_def acc_inv_def)
next
  case False
  hence n: "\<not> (acc_buf st = [] \<or> length (acc_buf st) = acc_pos st)" by (auto simp: acc_rest_def)
  show ?thesis
  proof (cases "ds (acc_rest st)")
    case None
    thus ?thesis using n assms(1) by (simp add: acc_next_msg_def acc_frame_def acc_rest_def)
  next
    case (Some x)
    obtain l0 l1 where x: "ds (acc_rest st) = Some (l0, l1)" using Some by (cases x) auto
    have u: "usize_add l0 l1 = l0 + l1" and s: "l0 + l1 < 2 ^ 64"
      using x assms(2) by (simp_all add: acc_overflow_def usize_add_exact)
    have p: "length (acc_buf st) - length (acc_rest st) = acc_pos st"
      using assms(1) by (simp add: acc_rest_def acc_inv_def)
    show ?thesis
      using n x u s p size_bounds [OF x] assms(1)
      by (auto simp: acc_next_msg_def acc_frame_def acc_drop_buffer_def acc_rest_def acc_inv_def
          slice_def Let_def add.commute)
  qed
qed

lemma acc_all_drain:
  assumes "acc_inv st" and "drain (acc_frame ds) (acc_rest st) = (ms, r)" and "\<not> acc_overflow ds r"
  shows "\<exists>st'. acc_all ds st = (ms, st') \<and> acc_rest st' = r \<and> acc_inv st'"
  using assms
proof (induction ms arbitrary: st)
  case Nil
  hence f: "acc_frame ds (acc_rest st) = None" "r = acc_rest st" by (simp_all add: ac.drain_Nil)
  with acc_next_frame [of st] Nil show ?case
    by (cases "acc_next_msg ds st") (auto simp: acc_all.simps [of ds st])
next
  case (Cons m ms)
  then obtain n where f: "acc_frame ds (acc_rest st) = Some (m, n)"
    and d: "drain (acc_frame ds) (drop n (acc_rest st)) = (ms, r)"
    by (auto simp: drain.simps [of _ "acc_rest st"] split: option.splits prod.splits if_splits)
  have "\<not> acc_overflow ds (acc_rest st)"
    using f by (auto simp: acc_frame_def acc_overflow_def split: option.splits if_splits)
  with acc_next_frame [OF Cons.prems(1)] f obtain st1 where
    "acc_next_msg ds st = (Some m, st1)" "acc_rest st1 = drop n (acc_rest st)" "acc_inv st1"
    by (cases "acc_next_msg ds st") auto
  with Cons.IH [of st1] d Cons.prems(3) show ?case by (auto simp: acc_all.simps [of ds st])
qed

text \<open>A chunk makes all complete messages appear, and only an incomplete one stays.\<close>

lemma acc_feed_drain:
  assumes "acc_inv st" and "drain (acc_frame ds) (acc_rest st @ bytes) = (ms, r)" and "\<not> acc_overflow ds r"
  shows "\<exists>st'. acc_feed ds bytes st = (ms, st') \<and> acc_rest st' = r \<and> acc_inv st'"
proof (cases "fst (acc_extend ds bytes st)")
  case True
  hence e: "acc_extend ds bytes st = (True, st\<lparr>acc_buf := acc_buf st @ bytes\<rparr>)"
    by (auto simp: acc_extend_def split: if_splits)
  have "acc_rest (st\<lparr>acc_buf := acc_buf st @ bytes\<rparr>) = acc_rest st @ bytes"
    "acc_inv (st\<lparr>acc_buf := acc_buf st @ bytes\<rparr>)"
    using assms(1) by (simp_all add: acc_rest_def acc_inv_def)
  with acc_all_drain [of "st\<lparr>acc_buf := acc_buf st @ bytes\<rparr>" ms r] assms(2,3) e show ?thesis
    by (simp add: acc_feed_def)
next
  case False
  then obtain l0 l1 where e: "acc_extend ds bytes st = (False, st)" "acc_buf st = []"
    and d: "ds bytes = Some (l0, l1)" "usize_add l0 l1 = length bytes"
    by (auto simp: acc_extend_def split: if_splits option.splits)
  have rest: "acc_rest st = []" using e(2) by (simp add: acc_rest_def)
  have "\<not> 2 ^ 64 \<le> l0 + l1"
  proof
    assume o: "2 ^ 64 \<le> l0 + l1"
    hence "acc_frame ds bytes = None" using d(1) by (simp add: acc_frame_def)
    hence "r = bytes" using assms(2) rest by (simp add: drain_None)
    thus False using assms(3) d(1) o by (simp add: acc_overflow_def)
  qed
  hence f: "acc_frame ds bytes = Some (bytes, length bytes)"
    using d by (simp add: acc_frame_def usize_add_exact)
  have "acc_frame ds [] = None" by (auto simp: acc_frame_def dest: size_bounds split: option.split)
  hence "drain (acc_frame ds) bytes = ([bytes], [])"
    using ac.drain_Some [OF f] by (simp add: drain_None)
  thus ?thesis using assms(1,2) e rest by (auto simp: acc_feed_def)
qed

end

fun acc_feed_chunks :: "size_decoder \<Rightarrow> bytes list \<Rightarrow> accumulator \<Rightarrow> bytes list \<times> accumulator" where
  "acc_feed_chunks ds [] st = ([], st)"
| "acc_feed_chunks ds (c # cs) st =
     (let (ms, st) = acc_feed ds c st; (ms', st) = acc_feed_chunks ds cs st in (ms @ ms', st))"

context size_prefix
begin

lemma acc_overflow_extend:
  assumes "acc_overflow ds r"
  shows "drain (acc_frame ds) (r @ b) = ([], r @ b) \<and> acc_overflow ds (r @ b)"
proof -
  from assms obtain l0 l1 where d: "ds r = Some (l0, l1)" "2 ^ 64 \<le> l0 + l1"
    by (auto simp: acc_overflow_def split: option.splits)
  from size_extend [OF d(1), of b] d(2) show ?thesis
    by (simp add: acc_overflow_def drain_None acc_frame_def)
qed

lemma acc_feed_chunks_drain:
  assumes "acc_inv st" and "acc_frame ds (acc_rest st) = None"
    and "drain (acc_frame ds) (acc_rest st @ concat cs) = (ms, r)" and "\<not> acc_overflow ds r"
  shows "\<exists>st'. acc_feed_chunks ds cs st = (ms, st') \<and> acc_rest st' = r \<and> acc_inv st'"
  using assms
proof (induction cs arbitrary: st ms)
  case Nil
  thus ?case by (simp add: drain_None)
next
  case (Cons c cs)
  obtain m1 r1 where d1: "drain (acc_frame ds) (acc_rest st @ c) = (m1, r1)" by fastforce
  obtain m2 r2 where d2: "drain (acc_frame ds) (r1 @ concat cs) = (m2, r2)" by fastforce
  from ac.drain_append [of "acc_rest st @ c" "concat cs"] Cons.prems(3) d1 d2
  have ms: "ms = m1 @ m2" "r = r2" by simp_all
  have "\<not> acc_overflow ds r1"
    using acc_overflow_extend [of r1 "concat cs"] d2 ms Cons.prems(4) by auto
  from acc_feed_drain [OF Cons.prems(1) d1 this] obtain st1 where
    s: "acc_feed ds c st = (m1, st1)" "acc_rest st1 = r1" "acc_inv st1" by blast
  have "acc_frame ds r1 = None" using ac.drain_rest [of "acc_rest st @ c"] d1 by simp
  with Cons.IH [of st1 m2] s d2 ms Cons.prems(4) show ?case by auto
qed

end

section \<open>Properties\<close>

text \<open>C38: How a stream of size-prefixed messages is cut into chunks has no influence on the
  accumulator: starting empty, it delivers exactly the complete messages of the whole stream in
  order and keeps the incomplete rest, as long as no announced size overflows.\<close>

theorem accumulator_chunking:
  assumes "size_prefix ds"
    and "drain (acc_frame ds) (concat cs) = (ms, r)" and "\<not> acc_overflow ds r"
  shows "\<exists>st'. acc_feed_chunks ds cs accumulator_default = (ms, st') \<and> acc_rest st' = r \<and>
    concat ms @ r = concat cs"
proof -
  have n: "acc_frame ds [] = None"
    by (auto simp: acc_frame_def dest: size_prefix.size_bounds [OF assms(1)] split: option.split)
  have "acc_rest accumulator_default = []" "acc_inv accumulator_default"
    by (simp_all add: accumulator_default_def acc_rest_def acc_inv_def)
  with size_prefix.acc_feed_chunks_drain [OF assms(1), of accumulator_default cs ms r] assms(2,3) n
  obtain st' where "acc_feed_chunks ds cs accumulator_default = (ms, st')" "acc_rest st' = r" by auto
  moreover have "lossless_framing (acc_frame ds) (\<lambda>m. m)"
    using assms(1) by (simp add: size_prefix.acc_lossless)
  hence "concat ms @ r = concat cs"
    using lossless_framing.drain_lossless [of "acc_frame ds" "\<lambda>m. m" "concat cs"] assms(2) by simp
  ultimately show ?thesis by blast
qed

theorem accumulator_chunking_witness:
  "\<exists>st'. acc_feed_chunks (meshsub_decode_size leb_u64) [[1], [7, 2, 8], [9, 3, 5]] accumulator_default =
     ([[1, 7], [2, 8, 9]], st') \<and> acc_rest st' = [3, 5]"
proof -
  let ?f = "acc_frame (meshsub_decode_size leb_u64)"
  have f: "?f [1, 7, 2, 8, 9, 3, 5] = Some ([1, 7], 2)" "?f [2, 8, 9, 3, 5] = Some ([2, 8, 9], 3)"
    "?f [3, 5] = None" "\<not> acc_overflow (meshsub_decode_size leb_u64) [3, 5]"
    by (simp_all add: acc_frame_def acc_overflow_def meshsub_decode_size_def leb_u64_small)
  have d: "drain ?f (concat [[1], [7, 2, 8], [9, 3, 5]]) = ([[1, 7], [2, 8, 9]], [3, 5])"
    by (simp add: drain.simps [of ?f "[1, 7, 2, 8, 9, 3, 5]"] drain.simps [of ?f "[2, 8, 9, 3, 5]"]
        drain_None f)
  from accumulator_chunking [OF leb128.ms.size_prefix_axioms d f(4)] show ?thesis by auto
qed

end
