(* ===== verification/KeyRecover.thy ===== *)
theory KeyRecover
  imports Noise
begin

text \<open>
  Reproducing secret keys (\<open>mina-recorder/src/key_recover.rs\<close>): a node that derives its keys from a
  seed is followed by deriving the same keys from the recorded randomness. The generator (SHAKE256)
  and the multiplication with the base point are parameters. The mutex is modelled: a thread that
  locks it while it holds it waits forever.
\<close>

section \<open>Generators\<close>

text \<open>
  \<open>xof_new seed needle\<close> is the reader of \<open>Shake256\<close>, \<open>xof_read\<close> reads 32 bytes, \<open>base_mult\<close> is
  the public key of a secret key.
\<close>

record 'g xof_ops =
  xof_new :: "bytes \<Rightarrow> bytes \<Rightarrow> 'g"
  xof_read :: "'g \<Rightarrow> bytes \<times> 'g"
  base_mult :: "bytes \<Rightarrow> bytes"

definition keygen_next :: "'g xof_ops \<Rightarrow> 'g \<Rightarrow> bytes \<times> 'g" where
  "keygen_next xof g = (let (sk, g) = xof_read xof g in (clamp_sk sk, g))"

text \<open>
  \<open>self.take(n).map(cache).find(pk)\<close>: the iterator is lazy, so every key up to the one that is
  found is generated and cached, and none behind it.
\<close>

fun keygen_find :: "'g xof_ops \<Rightarrow> nat \<Rightarrow> bytes \<Rightarrow> (bytes \<Rightarrow> bytes \<Rightarrow> 'w \<Rightarrow> 'w) \<Rightarrow> 'g \<Rightarrow> 'w \<Rightarrow> bytes option \<times> 'g \<times> 'w" where
  "keygen_find xof 0 pk cache g w = (None, g, w)"
| "keygen_find xof (Suc n) pk cache g w =
     (let (sk, g) = keygen_next xof g; this_pk = base_mult xof sk; w = cache this_pk sk w in
      if this_pk = pk then (Some sk, g, w) else keygen_find xof n pk cache g w)"

record 'g key_generators =
  gen_st :: 'g
  gen_eph :: 'g

definition key_generators_new :: "'g xof_ops \<Rightarrow> bytes \<Rightarrow> 'g key_generators" where
  "key_generators_new xof seed =
     \<lparr>gen_st = xof_new xof seed (as_bytes ''static''), gen_eph = xof_new xof seed (as_bytes ''ephemeral'')\<rparr>"

definition gen_part :: "bool \<Rightarrow> 'g key_generators \<Rightarrow> 'g" where
  "gen_part eph g = (if eph then gen_eph g else gen_st g)"

definition set_gen_part :: "bool \<Rightarrow> 'g \<Rightarrow> 'g key_generators \<Rightarrow> 'g key_generators" where
  "set_gen_part eph x g = (if eph then g\<lparr>gen_eph := x\<rparr> else g\<lparr>gen_st := x\<rparr>)"

section \<open>The generator with its cache\<close>

text \<open>
  \<open>generators\<close> is a mutex: its content, and whether it is locked. The database is a world with
  \<open>get_sk\<close> (whose outer \<open>None\<close> is an error), \<open>put_sk\<close> (whose error is ignored) and the recorded
  randomness, newest first.
\<close>

record 'g kr_mutex =
  kr_locked :: bool
  kr_generators :: "'g key_generators option"

record 'w sk_db =
  skdb_get :: "bytes \<Rightarrow> 'w \<Rightarrow> bytes option option"
  skdb_put :: "bytes \<Rightarrow> bytes \<Rightarrow> 'w \<Rightarrow> 'w"
  skdb_randomness :: "'w \<Rightarrow> bytes list"

definition kr_new :: "'g kr_mutex" where
  "kr_new = \<lparr>kr_locked = False, kr_generators = None\<rparr>"

text \<open>\<open>*self.generators.lock() = Some(g)\<close>: never returns when the mutex is locked.\<close>

definition kr_store :: "'g key_generators \<Rightarrow> 'g kr_mutex \<Rightarrow> (unit, unit) outcome \<times> 'g kr_mutex" where
  "kr_store g mx = (if kr_locked mx then (Hang, mx) else (Done (), mx\<lparr>kr_generators := Some g\<rparr>))"

text \<open>The search for a seed among the candidates.\<close>

fun kr_search ::
  "'g xof_ops \<Rightarrow> bool \<Rightarrow> bytes \<Rightarrow> bytes list \<Rightarrow> 'g kr_mutex \<Rightarrow> (unit, bytes option) outcome \<times> 'g kr_mutex" where
  "kr_search xof eph pk [] mx = (Done None, mx)"
| "kr_search xof eph pk (seed # seeds) mx =
     (case keygen_find xof 100 pk (\<lambda>_ _ (u :: unit). u) (gen_part eph (key_generators_new xof seed)) () of
        (None, _, _) \<Rightarrow> kr_search xof eph pk seeds mx
      | (Some sk, _, _) \<Rightarrow>
          (case kr_store (key_generators_new xof seed) mx of
             (Done _, mx) \<Rightarrow> (Done (Some sk), mx)
           | (_, mx) \<Rightarrow> (Hang, mx)))"

text \<open>
  \<open>reproduced_sk\<close>. The guard of \<open>self.generators.lock().take()\<close> is a temporary of the condition
  of \<open>if let\<close>, which lives until the end of the whole statement: the mutex is locked in both branches
  and unlocked behind them.
\<close>

definition kr_unlock :: "(unit, 'a) outcome \<times> 'g kr_mutex \<Rightarrow> (unit, 'a) outcome \<times> 'g kr_mutex" where
  "kr_unlock r = (if fst r = Hang then r else (fst r, (snd r)\<lparr>kr_locked := False\<rparr>))"

definition reproduced_sk ::
  "'g xof_ops \<Rightarrow> 'w sk_db \<Rightarrow> bool \<Rightarrow> bytes \<Rightarrow> 'g kr_mutex \<Rightarrow> 'w \<Rightarrow> ((unit, bytes option) outcome \<times> 'g kr_mutex) \<times> 'w" where
  "reproduced_sk xof db eph pk mx w =
     (case skdb_get db pk w of
        None \<Rightarrow> ((Done None, mx), w)
      | Some (Some sk) \<Rightarrow> ((Done (Some sk), mx), w)
      | Some None \<Rightarrow>
          if kr_locked mx then ((Hang, mx), w)
          else
            (let gens = kr_generators mx; mx = \<lparr>kr_locked = True, kr_generators = None\<rparr> in
             case gens of
               Some g \<Rightarrow>
                 (let (r, x, w) = keygen_find xof 100 pk (skdb_put db) (gen_part eph g) w in
                  case r of
                    None \<Rightarrow> (kr_unlock (Done None, mx), w)
                  | Some sk \<Rightarrow>
                      (case kr_store (set_gen_part eph x g) mx of
                         (Done _, mx) \<Rightarrow> (kr_unlock (Done (Some sk), mx), w)
                       | (_, mx) \<Rightarrow> ((Hang, mx), w)))
             | None \<Rightarrow>
                 (kr_unlock (kr_search xof eph pk (filter (\<lambda>s. length s = 32) (take 8 (skdb_randomness db w))) mx), w)))"

section \<open>Which keys are found\<close>

text \<open>The keys that a generator gives next.\<close>

fun keygen_keys :: "'g xof_ops \<Rightarrow> nat \<Rightarrow> 'g \<Rightarrow> bytes list" where
  "keygen_keys xof 0 g = []"
| "keygen_keys xof (Suc n) g = (let (sk, g) = keygen_next xof g in sk # keygen_keys xof n g)"

lemma keygen_find_eq:
  "fst (keygen_find xof n pk cache g w) = List.find (\<lambda>sk. base_mult xof sk = pk) (keygen_keys xof n g)"
  by (induction n arbitrary: g w) (auto simp: Let_def split: prod.splits)

definition kr_finds :: "'g xof_ops \<Rightarrow> bytes \<Rightarrow> 'g \<Rightarrow> bool" where
  "kr_finds xof pk g = list_ex (\<lambda>sk. base_mult xof sk = pk) (keygen_keys xof 100 g)"

lemma find_None_list_ex: "List.find P xs = None \<longleftrightarrow> \<not> list_ex P xs"
  by (induction xs) auto

lemma keygen_find_None: "fst (keygen_find xof 100 pk cache g w) = None \<longleftrightarrow> \<not> kr_finds xof pk g"
  by (simp add: keygen_find_eq find_None_list_ex kr_finds_def)

lemma kr_search_locked:
  assumes "kr_locked mx"
  shows "kr_search xof eph pk seeds mx =
    (if list_ex (\<lambda>s. kr_finds xof pk (gen_part eph (key_generators_new xof s))) seeds then (Hang, mx) else (Done None, mx))"
proof (induction seeds)
  case (Cons s seeds)
  obtain r x u where f: "keygen_find xof 100 pk (\<lambda>_ _ (u :: unit). u) (gen_part eph (key_generators_new xof s)) () = (r, x, u)"
    by (metis prod.exhaust)
  have "r = None \<longleftrightarrow> \<not> kr_finds xof pk (gen_part eph (key_generators_new xof s))"
    using keygen_find_None [of xof pk "\<lambda>_ _ (u :: unit). u"] f by (metis fst_conv)
  thus ?case using Cons.IH f assms by (cases r) (simp_all add: kr_store_def del: keygen_find.simps)
qed simp

text \<open>The generators that a lookup tries: the known ones, or those of the last eight random values.\<close>

definition kr_candidates :: "'g xof_ops \<Rightarrow> 'w sk_db \<Rightarrow> bool \<Rightarrow> 'g kr_mutex \<Rightarrow> 'w \<Rightarrow> 'g list" where
  "kr_candidates xof db eph mx w =
     (case kr_generators mx of
        Some g \<Rightarrow> [gen_part eph g]
      | None \<Rightarrow> map (\<lambda>s. gen_part eph (key_generators_new xof s))
                  (filter (\<lambda>s. length s = 32) (take 8 (skdb_randomness db w))))"

lemma list_ex_map_comp: "list_ex P (map f xs) = list_ex (\<lambda>x. P (f x)) xs"
  by (induction xs) auto

section \<open>Properties\<close>

text \<open>C26: A secret key is returned only when it is already stored in the database. When it is not, and one
  of the generators to try would give it, the lookup never returns, because it stores the
  generators while it holds their mutex; otherwise it returns nothing, forgets the generators it
  knew, and releases the mutex.\<close>

theorem reproduced_sk_spec:
  assumes "\<not> kr_locked mx"
  shows "fst (reproduced_sk xof db eph pk mx w) =
    (case skdb_get db pk w of
       None \<Rightarrow> (Done None, mx)
     | Some (Some sk) \<Rightarrow> (Done (Some sk), mx)
     | Some None \<Rightarrow>
         if list_ex (kr_finds xof pk) (kr_candidates xof db eph mx w)
         then (Hang, \<lparr>kr_locked = True, kr_generators = None\<rparr>)
         else (Done None, kr_new))"
proof -
  obtain get where get: "skdb_get db pk w = get" by simp
  show ?thesis
  proof (cases "get = Some None")
    case True
    show ?thesis
    proof (cases "kr_generators mx")
      case None
      thus ?thesis using get True assms
        by (simp add: reproduced_sk_def kr_candidates_def kr_search_locked kr_unlock_def kr_new_def list_ex_map_comp)
    next
      case (Some g)
      obtain r x w1 where f: "keygen_find xof 100 pk (skdb_put db) (gen_part eph g) w = (r, x, w1)"
        by (metis prod.exhaust)
      have "r = None \<longleftrightarrow> \<not> kr_finds xof pk (gen_part eph g)"
        using keygen_find_None [of xof pk "skdb_put db" "gen_part eph g" w] f by simp
      thus ?thesis using get True assms Some f
        by (cases r) (simp_all add: reproduced_sk_def kr_candidates_def kr_unlock_def kr_new_def kr_store_def)
    qed
  qed (auto simp: reproduced_sk_def get split: option.split)
qed

text \<open>A generator for examples that counts, and a database without keys.\<close>

definition count_xof :: "nat xof_ops" where
  "count_xof = \<lparr>xof_new = (\<lambda>s n. length n), xof_read = (\<lambda>n. (replicate 32 (of_nat n), Suc n)), base_mult = (\<lambda>sk. sk)\<rparr>"

definition no_keys :: "unit sk_db" where
  "no_keys = \<lparr>skdb_get = (\<lambda>pk w. Some None), skdb_put = (\<lambda>pk sk w. w), skdb_randomness = (\<lambda>w. [replicate 32 1])\<rparr>"

lemma count_xof_finds: "kr_finds count_xof (clamp_sk (replicate 32 9)) 9"
proof -
  have "keygen_keys count_xof 100 9 = clamp_sk (replicate 32 9) # keygen_keys count_xof 99 10"
    using keygen_keys.simps(2) [of count_xof 99 9] by (simp add: count_xof_def keygen_next_def)
  thus ?thesis by (simp add: kr_finds_def) (simp add: count_xof_def)
qed

theorem reproduced_sk_spec_witness:
  "fst (fst (reproduced_sk count_xof no_keys True (clamp_sk (replicate 32 9)) kr_new ())) = Hang"
proof -
  have "kr_candidates count_xof no_keys True kr_new () = [9]"
    by (simp add: kr_candidates_def kr_new_def no_keys_def gen_part_def key_generators_new_def count_xof_def as_bytes_def)
  with count_xof_finds reproduced_sk_spec [of kr_new count_xof no_keys True "clamp_sk (replicate 32 9)" "()"]
  show ?thesis by (simp add: kr_new_def no_keys_def)
qed

end
