(* ===== verification/Decode.thy ===== *)
theory Decode
  imports Yamux
begin

text \<open>
  Decoding of recorded messages (\<open>mina-recorder/src/decode\<close>): the message types with their names
  (\<open>decode/mod.rs\<close>), what the index needs to know of a message (the functions \<open>parse_types\<close>), and
  the events of a meshsub message (\<open>decode/meshsub.rs\<close>). Protobuf, binprot, hex, blake2b and peer
  ids are third-party code, which is a parameter here: the record \<open>decode_ops\<close>. Of the data that
  these decoders deliver, the types below have the fields that the recorder reads; the rest of a
  transaction or of a snark work is one opaque value.
\<close>

section \<open>Message types\<close>

datatype decode_error =
    DeSerde | DeBinProt | DeProtobuf | DeUtf8 | DeUnexpectedSize nat nat | DeParse
  | DeYamux header_parse_error | DeRsa | DeIdentityDecoding

datatype message_type =
    MtSubscribe | MtUnsubscribe | MtPublishNewState | MtPublishSnarkPoolDiff
  | MtPublishTransactionPoolDiff | MtControlIHave | MtControlIWant | MtControlGraft | MtControlPrune
  | MtPutValue | MtGetValue | MtAddProvider | MtGetProviders | MtFindNode | MtPing
  | MtHandshakePayload | MtFailedToDecrypt
  | MtRpcMenu | MtGetSomeInitialPeers | MtGetStagedLedgerAuxAndPendingCoinbasesAtHash
  | MtAnswerSyncLedgerQuery | MtGetAncestry | MtGetBestTip | MtGetNodeStatus
  | MtGetTransitionChainProof | MtGetTransitionChain | MtGetTransitionKnowledge | MtGetEpochLedger
  | MtBanNotify
  | MtIdentify | MtIdentifyPush | MtPeerExchange | MtBitswapExchange | MtNodeStatus | MtSelect
  | MtMplex | MtYamux

definition message_type_display :: "message_type \<Rightarrow> string" where
  "message_type_display t = (case t of
     MtSubscribe \<Rightarrow> ''subscribe''
   | MtUnsubscribe \<Rightarrow> ''unsubscribe''
   | MtPublishNewState \<Rightarrow> ''publish_new_state''
   | MtPublishSnarkPoolDiff \<Rightarrow> ''publish_snark_pool_diff''
   | MtPublishTransactionPoolDiff \<Rightarrow> ''publish_transaction_pool_diff''
   | MtControlIHave \<Rightarrow> ''meshsub_ihave''
   | MtControlIWant \<Rightarrow> ''meshsub_iwant''
   | MtControlGraft \<Rightarrow> ''meshsub_graft''
   | MtControlPrune \<Rightarrow> ''meshsub_prune''
   | MtPutValue \<Rightarrow> ''put_value''
   | MtGetValue \<Rightarrow> ''get_value''
   | MtAddProvider \<Rightarrow> ''add_provider''
   | MtGetProviders \<Rightarrow> ''get_providers''
   | MtFindNode \<Rightarrow> ''find_node''
   | MtPing \<Rightarrow> ''ping''
   | MtHandshakePayload \<Rightarrow> ''handshake_payload''
   | MtFailedToDecrypt \<Rightarrow> ''failed_to_decrypt''
   | MtRpcMenu \<Rightarrow> ''__Versioned_rpc.Menu''
   | MtGetSomeInitialPeers \<Rightarrow> ''get_some_initial_peers''
   | MtGetStagedLedgerAuxAndPendingCoinbasesAtHash \<Rightarrow>
       ''get_staged_ledger_aux_and_pending_coinbases_at_hash''
   | MtAnswerSyncLedgerQuery \<Rightarrow> ''answer_sync_ledger_query''
   | MtGetAncestry \<Rightarrow> ''get_ancestry''
   | MtGetBestTip \<Rightarrow> ''get_best_tip''
   | MtGetNodeStatus \<Rightarrow> ''get_node_status''
   | MtGetTransitionChainProof \<Rightarrow> ''get_transition_chain_proof''
   | MtGetTransitionChain \<Rightarrow> ''get_transition_chain''
   | MtGetTransitionKnowledge \<Rightarrow> ''get_transition_knowledge''
   | MtGetEpochLedger \<Rightarrow> ''get_epoch_ledger''
   | MtBanNotify \<Rightarrow> ''ban_notify''
   | MtIdentify \<Rightarrow> ''identify''
   | MtIdentifyPush \<Rightarrow> ''identify_push''
   | MtPeerExchange \<Rightarrow> ''peer_exchange''
   | MtBitswapExchange \<Rightarrow> ''bitswap_exchange''
   | MtNodeStatus \<Rightarrow> ''node_status''
   | MtSelect \<Rightarrow> ''select''
   | MtMplex \<Rightarrow> ''mplex''
   | MtYamux \<Rightarrow> ''yamux'')"

definition message_type_from_str :: "string \<Rightarrow> message_type option" where
  "message_type_from_str s =
     (if s = ''subscribe'' then Some MtSubscribe
      else if s = ''unsubscribe'' then Some MtUnsubscribe
      else if s = ''publish_new_state'' then Some MtPublishNewState
      else if s = ''publish_snark_pool_diff'' then Some MtPublishSnarkPoolDiff
      else if s = ''publish_transaction_pool_diff'' then Some MtPublishTransactionPoolDiff
      else if s = ''meshsub_ihave'' then Some MtControlIHave
      else if s = ''meshsub_iwant'' then Some MtControlIWant
      else if s = ''meshsub_graft'' then Some MtControlGraft
      else if s = ''meshsub_prune'' then Some MtControlPrune
      else if s = ''put_value'' then Some MtPutValue
      else if s = ''get_value'' then Some MtGetValue
      else if s = ''add_provider'' then Some MtAddProvider
      else if s = ''get_providers'' then Some MtGetProviders
      else if s = ''find_node'' then Some MtFindNode
      else if s = ''ping'' then Some MtPing
      else if s = ''handshake_payload'' then Some MtHandshakePayload
      else if s = ''failed_to_decrypt'' then Some MtFailedToDecrypt
      else if s = ''__Versioned_rpc.Menu'' then Some MtRpcMenu
      else if s = ''get_some_initial_peers'' then Some MtGetSomeInitialPeers
      else if s = ''get_staged_ledger_aux_and_pending_coinbases_at_hash''
        then Some MtGetStagedLedgerAuxAndPendingCoinbasesAtHash
      else if s = ''answer_sync_ledger_query'' then Some MtAnswerSyncLedgerQuery
      else if s = ''get_ancestry'' then Some MtGetAncestry
      else if s = ''get_best_tip'' then Some MtGetBestTip
      else if s = ''get_node_status'' then Some MtGetNodeStatus
      else if s = ''get_transition_chain_proof'' then Some MtGetTransitionChainProof
      else if s = ''get_transition_chain'' then Some MtGetTransitionChain
      else if s = ''get_transition_knowledge'' then Some MtGetTransitionKnowledge
      else if s = ''get_epoch_ledger'' then Some MtGetEpochLedger
      else if s = ''ban_notify'' then Some MtBanNotify
      else if s = ''identify'' then Some MtIdentify
      else if s = ''identify_push'' then Some MtIdentifyPush
      else if s = ''peer_exchange'' then Some MtPeerExchange
      else if s = ''bitswap_exchange'' then Some MtBitswapExchange
      else if s = ''node_status'' then Some MtNodeStatus
      else if s = ''select'' then Some MtSelect
      else if s = ''mplex'' then Some MtMplex
      else if s = ''yamux'' then Some MtYamux
      else None)"

lemma message_type_roundtrip: "message_type_from_str (message_type_display t) = Some t"
  by (cases t) (simp_all add: message_type_display_def message_type_from_str_def)

section \<open>Data of third-party decoders\<close>

text \<open>The protobuf messages of \<open>meshsub.proto\<close>.\<close>

record pb_sub =
  sub_subscribe :: "bool option"
  sub_topic_id :: "string option"

record pb_message =
  pm_from :: "bytes option"
  pm_data :: "bytes option"
  pm_seqno :: "bytes option"
  pm_topic :: string
  pm_signature :: "bytes option"
  pm_key :: "bytes option"

record pb_ihave =
  ih_topic_id :: "string option"
  ih_message_ids :: "bytes list"

record pb_peer_info =
  pi_peer_id :: "bytes option"
  pi_signed_peer_record :: "bytes option"

record pb_prune =
  pr_topic_id :: "string option"
  pr_peers :: "pb_peer_info list"
  pr_backoff :: "u64 option"

record pb_control =
  pc_ihave :: "pb_ihave list"
  pc_iwant :: "bytes list list"
  pc_graft :: "string option list"
  pc_prune :: "pb_prune list"

record pb_rpc =
  rpc_subscriptions :: "pb_sub list"
  rpc_publish :: "pb_message list"
  rpc_control :: "pb_control option"

text \<open>
  Gossip messages. A statement names the ledgers before and after a snark
  (\<open>source.first_pass_ledger\<close>, \<open>target.first_pass_ledger\<close>, 32 bytes each), and a work is for one
  or two statements. A signed command is known by the two halves of its signature.
\<close>

record statement =
  st_source :: bytes
  st_target :: bytes

datatype one_or_two = One statement | Two statement statement

record 'x snark_work =
  sw_proofs :: one_or_two
  sw_rest :: 'x

datatype user_command = SignedCommand bytes bytes | OtherCommand

record 'x command =
  cmd_data :: user_command
  cmd_rest :: 'x

record 'x pre_diff =
  pd_commands :: "'x command list"
  pd_completed_works :: "'x snark_work list"

record 'x block =
  blk_blockchain_length :: u32
  blk_global_slot :: u32
  blk_diff0 :: "'x pre_diff"
  blk_diff1 :: "'x pre_diff option"

text \<open>\<open>AddSolvedWork\<close> has the statement and the proof of the work, each for one or two statements.\<close>

datatype snark_pool_diff = AddSolvedWork one_or_two one_or_two | EmptyDiff

datatype 'x gossip_v2 =
    NewState "'x block"
  | SnarkPoolDiff snark_pool_diff
  | TransactionPoolDiff "user_command list"

datatype 'y gossip_v1 = NewStateV1 'y | SnarkPoolDiffV1 'y | TransactionPoolDiffV1 'y

datatype kad_type = KadPutValue | KadGetValue | KadAddProvider | KadGetProviders | KadFindNode | KadPing

record ('x, 'y, 'p) decode_ops =
  pb_rpc_decode :: "bytes \<Rightarrow> pb_rpc option"
  kad_decode :: "bytes \<Rightarrow> kad_type option"
  envelope_payload :: "bytes \<Rightarrow> bytes option"
  gossip_v2_read :: "bytes \<Rightarrow> 'x gossip_v2 option"
  gossip_v1_read :: "bytes \<Rightarrow> 'y gossip_v1 option"
  peer_id_from_bytes :: "bytes \<Rightarrow> 'p option"
  blake2b :: "bytes \<Rightarrow> bytes"
  blake2b_mac :: "bytes \<Rightarrow> bytes \<Rightarrow> bytes"
  hex_encode :: "bytes \<Rightarrow> string"
  hex_decode :: "string \<Rightarrow> bytes option"
  read_size :: "bytes \<Rightarrow> (nat \<times> bytes) option"
  read_nat0 :: "bytes \<Rightarrow> (nat \<times> bytes) option"
  read_query_tag :: "bytes \<Rightarrow> (string \<times> bytes) option"

section \<open>Events of a meshsub message\<close>

record control_ihave =
  cih_topic_id :: "string option"
  cih_message_ids :: "string list"

record peer_info =
  peer_id :: "string option"
  signed_peer_record :: "string option"

record control_prune =
  cpr_topic_id :: "string option"
  cpr_peers :: "peer_info list"
  cpr_backoff :: "u64 option"

datatype gossip_preview = PreviewNewState | PreviewSnarkPoolDiff | PreviewTransactionPoolDiff

datatype ('x, 'y, 'p) event =
    Subscribe string
  | Unsubscribe string
  | Publish "string option" "string option" "string option" "string option" string "'y gossip_v1"
  | PublishV2 "'p option" "string option" "string option" "string option" string "'x gossip_v2" bytes
  | PublishPreview string gossip_preview
  | PublishTestingMessage 'p string string bytes
  | Control "control_ihave list" "string list list" "string option list" "control_prune list"

text \<open>\<open>hashes\<close> of \<open>ControlIHave\<close> and of \<open>ControlIWant\<close>: the ids that are 32 bytes in hex.\<close>

definition id_hashes :: "('x, 'y, 'p) decode_ops \<Rightarrow> string list \<Rightarrow> bytes list" where
  "id_hashes ops ids =
     List.map_filter (\<lambda>i. case hex_decode ops i of
         None \<Rightarrow> None
       | Some h \<Rightarrow> if length h = 32 then Some h else None) ids"

text \<open>The message id that gossipsub gives a message: a keyed hash of the data.\<close>

definition message_hash :: "('x, 'y, 'p) decode_ops \<Rightarrow> bool \<Rightarrow> string \<Rightarrow> bytes \<Rightarrow> bytes" where
  "message_hash ops calc_hash topic data =
     (if calc_hash then
        (let key = (if length (as_bytes topic) \<le> 64 then as_bytes topic else blake2b ops (as_bytes topic))
         in blake2b_mac ops key data)
      else replicate 32 0)"

definition preview_v2 :: "'x gossip_v2 \<Rightarrow> gossip_preview" where
  "preview_v2 m = (case m of
     NewState _ \<Rightarrow> PreviewNewState
   | SnarkPoolDiff _ \<Rightarrow> PreviewSnarkPoolDiff
   | TransactionPoolDiff _ \<Rightarrow> PreviewTransactionPoolDiff)"

definition preview_v1 :: "'y gossip_v1 \<Rightarrow> gossip_preview" where
  "preview_v1 m = (case m of
     NewStateV1 _ \<Rightarrow> PreviewNewState
   | SnarkPoolDiffV1 _ \<Rightarrow> PreviewSnarkPoolDiff
   | TransactionPoolDiffV1 _ \<Rightarrow> PreviewTransactionPoolDiff)"

text \<open>
  The closure of \<open>parse_it\<close> for one published message with data. The slice \<open>data[8..]\<close> panics
  when the data is shorter than the 8 bytes of its length.
\<close>

definition publish_event ::
  "('x, 'y, 'p) decode_ops \<Rightarrow> bool \<Rightarrow> bool \<Rightarrow> pb_message \<Rightarrow> bytes \<Rightarrow> (unit, ('x, 'y, 'p) event option) outcome" where
  "publish_event ops preview calc_hash msg data =
     (let topic = pm_topic msg; enc = map_option (hex_encode ops) in
      if length data < 8 then Panic
      else
        let body = drop 8 data in
        case gossip_v2_read ops body of
          Some m \<Rightarrow>
            Done (Some (if preview then PublishPreview topic (preview_v2 m)
                        else PublishV2 (Option.bind (pm_from msg) (peer_id_from_bytes ops))
                               (enc (pm_seqno msg)) (enc (pm_signature msg)) (enc (pm_key msg)) topic m
                               (message_hash ops calc_hash topic data)))
        | None \<Rightarrow>
            if body \<noteq> [] \<and> hd body = 3 then
              Done (if utf8_valid (tl body) then
                      (case Option.bind (pm_from msg) (peer_id_from_bytes ops) of
                         None \<Rightarrow> None
                       | Some from \<Rightarrow>
                           Some (PublishTestingMessage from topic (bytes_str (tl body))
                                   (message_hash ops calc_hash topic data)))
                    else None)
            else
              Done (case gossip_v1_read ops body of
                      None \<Rightarrow> None
                    | Some m \<Rightarrow>
                        Some (if preview then PublishPreview topic (preview_v1 m)
                              else Publish (enc (pm_from msg)) (enc (pm_seqno msg)) (enc (pm_signature msg))
                                     (enc (pm_key msg)) topic m)))"

definition sub_event :: "pb_sub \<Rightarrow> ('x, 'y, 'p) event" where
  "sub_event v =
     (let topic = (case sub_topic_id v of None \<Rightarrow> [] | Some s \<Rightarrow> s) in
      if sub_subscribe v = Some True then Subscribe topic else Unsubscribe topic)"

definition control_event :: "('x, 'y, 'p) decode_ops \<Rightarrow> pb_control \<Rightarrow> ('x, 'y, 'p) event" where
  "control_event ops c =
     Control
       (map (\<lambda>m. \<lparr>cih_topic_id = ih_topic_id m, cih_message_ids = map (hex_encode ops) (ih_message_ids m)\<rparr>) (pc_ihave c))
       (map (map (hex_encode ops)) (pc_iwant c))
       (pc_graft c)
       (map (\<lambda>m. \<lparr>cpr_topic_id = pr_topic_id m,
               cpr_peers = map (\<lambda>p. \<lparr>peer_id = map_option (hex_encode ops) (pi_peer_id p),
                  signed_peer_record = map_option (hex_encode ops) (pi_signed_peer_record p)\<rparr>) (pr_peers m),
               cpr_backoff = pr_backoff m\<rparr>) (pc_prune c))"

text \<open>
  \<open>parse_it\<close> gives an iterator. It is the list of its items here, and \<open>Panic\<close> is an item whose
  computation panics.
\<close>

definition publish_items ::
  "('x, 'y, 'p) decode_ops \<Rightarrow> bool \<Rightarrow> bool \<Rightarrow> pb_message \<Rightarrow> (unit, ('x, 'y, 'p) event) outcome list" where
  "publish_items ops preview calc_hash msg =
     (case pm_data msg of
        None \<Rightarrow> []
      | Some data \<Rightarrow>
          (case publish_event ops preview calc_hash msg data of
             Done None \<Rightarrow> []
           | Done (Some e) \<Rightarrow> [Done e]
           | _ \<Rightarrow> [Panic]))"

definition parse_it ::
  "('x, 'y, 'p) decode_ops \<Rightarrow> bytes \<Rightarrow> bool \<Rightarrow> bool \<Rightarrow> decode_error + (unit, ('x, 'y, 'p) event) outcome list" where
  "parse_it ops bytes preview calc_hash =
     (case pb_rpc_decode ops bytes of
        None \<Rightarrow> Inl DeProtobuf
      | Some rpc \<Rightarrow>
          Inr (map (\<lambda>v. Done (sub_event v)) (rpc_subscriptions rpc) @
               concat (map (publish_items ops preview calc_hash) (rpc_publish rpc)) @
               (case rpc_control rpc of None \<Rightarrow> [] | Some c \<Rightarrow> [Done (control_event ops c)])))"

definition parse_protobuf_publish :: "('x, 'y, 'p) decode_ops \<Rightarrow> bytes \<Rightarrow> bytes list option" where
  "parse_protobuf_publish ops bytes =
     map_option (\<lambda>rpc. List.map_filter pm_data (rpc_publish rpc)) (pb_rpc_decode ops bytes)"

section \<open>Ledger hashes\<close>

datatype ledger_hash =
    LhSource bytes | LhTarget bytes | LhFirstSource bytes | LhMiddle bytes | LhSecondTarget bytes

definition hash31 :: "bytes \<Rightarrow> bytes" where
  "hash31 h = drop 1 h"

datatype snark_with_hash = Leaf bytes bytes | Merge bytes bytes bytes

definition try_from_inner :: "snark_pool_diff \<Rightarrow> snark_with_hash option" where
  "try_from_inner d = (case d of
     AddSolvedWork (Two l r) _ \<Rightarrow> Some (Merge (st_source l) (st_target l) (st_target r))
   | AddSolvedWork (One w) _ \<Rightarrow> Some (Leaf (st_source w) (st_target w))
   | EmptyDiff \<Rightarrow> None)"

definition block_works :: "'x block \<Rightarrow> 'x snark_work list" where
  "block_works b = pd_completed_works (blk_diff0 b) @
     (case blk_diff1 b of None \<Rightarrow> [] | Some d \<Rightarrow> pd_completed_works d)"

definition block_commands :: "'x block \<Rightarrow> 'x command list" where
  "block_commands b = pd_commands (blk_diff0 b) @
     (case blk_diff1 b of None \<Rightarrow> [] | Some d \<Rightarrow> pd_commands d)"

definition snark_of_work :: "'x snark_work \<Rightarrow> snark_with_hash" where
  "snark_of_work w = (case sw_proofs w of
     One s \<Rightarrow> Leaf (st_source s) (st_target s)
   | Two f s \<Rightarrow> Merge (st_source f) (st_target f) (st_target s))"

definition try_from_block :: "'x block \<Rightarrow> snark_with_hash list" where
  "try_from_block b = map snark_of_work (block_works b)"

section \<open>What the index needs\<close>

definition work_hashes :: "'x snark_work \<Rightarrow> ledger_hash list" where
  "work_hashes w = (case sw_proofs w of
     One s \<Rightarrow> [LhSource (hash31 (st_source s)), LhTarget (hash31 (st_target s))]
   | Two f s \<Rightarrow> [LhFirstSource (hash31 (st_source f)), LhMiddle (hash31 (st_target f)),
                 LhSecondTarget (hash31 (st_target s))])"

text \<open>For a single statement the code pushes the source hash twice, also as the target.\<close>

definition diff_hashes :: "snark_pool_diff \<Rightarrow> ledger_hash list" where
  "diff_hashes d = (case d of
     AddSolvedWork (One w) _ \<Rightarrow> [LhSource (hash31 (st_source w)), LhTarget (hash31 (st_source w))]
   | AddSolvedWork (Two f s) _ \<Rightarrow> [LhFirstSource (hash31 (st_source f)), LhMiddle (hash31 (st_target f)),
       LhSecondTarget (hash31 (st_target s))]
   | EmptyDiff \<Rightarrow> [])"

definition publish_type ::
  "('x, 'y, 'p) decode_ops \<Rightarrow> bool \<Rightarrow> bytes \<Rightarrow> message_type option \<times> ledger_hash list" where
  "publish_type ops index_ledger_hash data =
     (if length data \<le> 8 then (None, [])
      else
        let tag = data ! 8; m = gossip_v2_read ops (drop 8 data) in
        if tag = 0 then
          (Some MtPublishNewState,
           case m of
             Some (NewState b) \<Rightarrow> if index_ledger_hash then concat (map work_hashes (block_works b)) else []
           | _ \<Rightarrow> [])
        else if tag = 1 then
          (Some MtPublishSnarkPoolDiff,
           case m of Some (SnarkPoolDiff d) \<Rightarrow> if index_ledger_hash then diff_hashes d else [] | _ \<Rightarrow> [])
        else if tag = 2 then (Some MtPublishTransactionPoolDiff, [])
        else (None, []))"

definition meshsub_parse_types ::
  "('x, 'y, 'p) decode_ops \<Rightarrow> bytes \<Rightarrow> bool \<Rightarrow> decode_error + (message_type list \<times> ledger_hash list)" where
  "meshsub_parse_types ops bytes index_ledger_hash =
     (case pb_rpc_decode ops bytes of
        None \<Rightarrow> Inl DeProtobuf
      | Some rpc \<Rightarrow>
          (let subs = map (\<lambda>v. if sub_subscribe v = Some True then MtSubscribe else MtUnsubscribe)
                        (rpc_subscriptions rpc);
               pub = map (publish_type ops index_ledger_hash) (List.map_filter pm_data (rpc_publish rpc));
               ctl = (case rpc_control rpc of
                        None \<Rightarrow> []
                      | Some c \<Rightarrow>
                          (if pc_ihave c \<noteq> [] then [MtControlIHave] else []) @
                          (if pc_iwant c \<noteq> [] then [MtControlIWant] else []) @
                          (if pc_graft c \<noteq> [] then [MtControlGraft] else []) @
                          (if pc_prune c \<noteq> [] then [MtControlPrune] else []))
           in Inr (subs @ ctl @ List.map_filter fst pub, concat (map snd pub))))"

definition kad_parse_types :: "('x, 'y, 'p) decode_ops \<Rightarrow> bytes \<Rightarrow> decode_error + message_type list" where
  "kad_parse_types ops bytes = (case kad_decode ops bytes of
     None \<Rightarrow> Inl DeProtobuf
   | Some KadPutValue \<Rightarrow> Inr [MtPutValue]
   | Some KadGetValue \<Rightarrow> Inr [MtGetValue]
   | Some KadAddProvider \<Rightarrow> Inr [MtAddProvider]
   | Some KadGetProviders \<Rightarrow> Inr [MtGetProviders]
   | Some KadFindNode \<Rightarrow> Inr [MtFindNode]
   | Some KadPing \<Rightarrow> Inr [MtPing])"

definition mac_mismatch_prefix :: bytes where
  "mac_mismatch_prefix = as_bytes ''mac_mismatch'' @ [0, 0, 0, 0]"

definition noise_parse_types :: "bytes \<Rightarrow> decode_error + message_type list" where
  "noise_parse_types bytes =
     Inr [if starts_with mac_mismatch_prefix bytes then MtFailedToDecrypt else MtHandshakePayload]"

definition noise_payload :: "('x, 'y, 'p) decode_ops \<Rightarrow> bytes \<Rightarrow> decode_error + bytes" where
  "noise_payload ops bytes = (case envelope_payload ops bytes of None \<Rightarrow> Inl DeProtobuf | Some p \<Rightarrow> Inr p)"

definition rpc_parse_types :: "('x, 'y, 'p) decode_ops \<Rightarrow> bytes \<Rightarrow> decode_error + message_type list" where
  "rpc_parse_types ops bytes =
     (case read_size ops bytes of
        None \<Rightarrow> Inl DeBinProt
      | Some (_, r) \<Rightarrow>
          (case read_nat0 ops r of
             None \<Rightarrow> Inl DeBinProt
           | Some (_, r) \<Rightarrow>
               (case read_query_tag ops r of
                  None \<Rightarrow> Inl DeBinProt
                | Some (tag, _) \<Rightarrow>
                    Inr (case message_type_from_str tag of None \<Rightarrow> [] | Some t \<Rightarrow> [t]))))"

text \<open>The choice of a decoder by the kind of the stream, in \<open>DbStream::add\<close>.\<close>

definition types_of_kind ::
  "('x, 'y, 'p) decode_ops \<Rightarrow> bool \<Rightarrow> stream_kind \<Rightarrow> bytes \<Rightarrow> decode_error + (message_type list \<times> ledger_hash list)" where
  "types_of_kind ops index_ledger_hash kind bytes =
     (let plain = map_sum id (\<lambda>ts. (ts, [])) in
      case kind of
        Kind_Unknown \<Rightarrow> Inr ([], [])
      | Kind_Meshsub \<Rightarrow> meshsub_parse_types ops bytes index_ledger_hash
      | Kind_Kad \<Rightarrow> plain (kad_parse_types ops bytes)
      | Kind_Handshake \<Rightarrow> plain (noise_parse_types bytes)
      | Kind_Rpc \<Rightarrow> plain (rpc_parse_types ops bytes)
      | Kind_IpfsId \<Rightarrow> Inr ([MtIdentify], [])
      | Kind_IpfsPush \<Rightarrow> Inr ([MtIdentifyPush], [])
      | Kind_IpfsDelta \<Rightarrow> Inr ([], [])
      | Kind_PeerExchange \<Rightarrow> Inr ([MtPeerExchange], [])
      | Kind_BitswapExchange \<Rightarrow> Inr ([MtBitswapExchange], [])
      | Kind_NodeStatus \<Rightarrow> Inr ([MtNodeStatus], [])
      | Kind_Select \<Rightarrow> Inr ([MtSelect], [])
      | Kind_Mplex \<Rightarrow> Inr ([MtMplex], [])
      | Kind_Yamux \<Rightarrow> Inr ([MtYamux], []))"

section \<open>Looking up a snark by a ledger hash\<close>

text \<open>The test of \<open>fetch_snark_by_hash\<close> whether a snark is what an index entry stands for.\<close>

definition conform :: "snark_with_hash \<Rightarrow> ledger_hash \<Rightarrow> bool" where
  "conform s h = (case (s, h) of
     (Leaf a b, LhSource v) \<Rightarrow> hash31 a = v
   | (Leaf a b, LhTarget v) \<Rightarrow> hash31 b = v
   | (Merge a b c, LhFirstSource v) \<Rightarrow> hash31 a = v
   | (Merge a b c, LhMiddle v) \<Rightarrow> hash31 b = v
   | (Merge a b c, LhSecondTarget v) \<Rightarrow> hash31 c = v
   | _ \<Rightarrow> False)"

section \<open>Small instances for examples\<close>

text \<open>
  A decoder for examples: a message is one publication whose data is the message itself, in
  which a body starts with the tag of the gossip message, followed for a block by its height.
\<close>

definition sample_block :: "u32 \<Rightarrow> unit block" where
  "sample_block h = \<lparr>blk_blockchain_length = h, blk_global_slot = h + 5,
     blk_diff0 = \<lparr>pd_commands = [\<lparr>cmd_data = SignedCommand [1] [2], cmd_rest = ()\<rparr>],
       pd_completed_works = [\<lparr>sw_proofs = One \<lparr>st_source = [1, 2, 3], st_target = [1, 5, 6]\<rparr>, sw_rest = ()\<rparr>]\<rparr>,
     blk_diff1 = None\<rparr>"

definition sample_ops :: "(unit, unit, nat) decode_ops" where
  "sample_ops =
     \<lparr>pb_rpc_decode = (\<lambda>bs. if bs = [] then None else
        Some \<lparr>rpc_subscriptions = [], rpc_publish = [\<lparr>pm_from = Some [7], pm_data = Some bs, pm_seqno = None,
          pm_topic = ''t'', pm_signature = None, pm_key = None\<rparr>], rpc_control = None\<rparr>),
      kad_decode = (\<lambda>bs. Some KadPing), envelope_payload = (\<lambda>bs. Some (drop 2 bs)),
      gossip_v2_read = (\<lambda>bs. case bs of
          a # b # _ \<Rightarrow>
            if a = 0 then Some (NewState (sample_block (ucast b)))
            else if a = 1 then Some (SnarkPoolDiff (AddSolvedWork
              (One \<lparr>st_source = [1, 2, 3], st_target = [1, 5, 6]\<rparr>) (One \<lparr>st_source = [1, 2, 3], st_target = [1, 5, 6]\<rparr>)))
            else if a = 2 then Some (TransactionPoolDiff [SignedCommand [1] [2]])
            else None
        | _ \<Rightarrow> None),
      gossip_v1_read = (\<lambda>bs. None), peer_id_from_bytes = (\<lambda>bs. Some (length bs)),
      blake2b = (\<lambda>bs. replicate 32 1), blake2b_mac = (\<lambda>k bs. replicate 32 (of_nat (length bs))),
      hex_encode = bytes_str, hex_decode = (\<lambda>s. Some (as_bytes s)),
      read_size = (\<lambda>bs. if length bs < 8 then None else Some (from_le (take 8 bs), drop 8 bs)),
      read_nat0 = (\<lambda>bs. case bs of [] \<Rightarrow> None | b # r \<Rightarrow> Some (unat b, r)),
      read_query_tag = (\<lambda>bs. case bs of [] \<Rightarrow> None | b # r \<Rightarrow> Some (''get_best_tip'', r))\<rparr>"

section \<open>Properties\<close>

lemma publish_event_Done:
  "8 \<le> length data \<Longrightarrow> \<exists>x. publish_event ops preview calc_hash msg data = Done x"
  by (cases "gossip_v2_read ops (drop 8 data)") (simp_all add: publish_event_def Let_def)

lemma publish_items_Panic:
  "Panic \<in> set (publish_items ops preview calc_hash msg) \<longleftrightarrow> (\<exists>data. pm_data msg = Some data \<and> length data < 8)"
proof (cases "pm_data msg")
  case (Some data)
  show ?thesis
  proof (cases "length data < 8")
    case True
    thus ?thesis using Some by (simp add: publish_items_def publish_event_def)
  next
    case False
    with publish_event_Done [of data ops preview calc_hash msg] obtain x
      where "publish_event ops preview calc_hash msg data = Done x" by auto
    thus ?thesis using Some False by (cases x) (simp_all add: publish_items_def)
  qed
qed (simp add: publish_items_def)

text \<open>C39: Iterating over the events of a message panics exactly when the message publishes data that is
  shorter than its own length prefix of 8 bytes.\<close>

theorem parse_it_panics:
  assumes "pb_rpc_decode ops bytes = Some rpc" and "parse_it ops bytes preview calc_hash = Inr items"
  shows "Panic \<in> set items \<longleftrightarrow> (\<exists>msg data. msg \<in> set (rpc_publish rpc) \<and> pm_data msg = Some data \<and> length data < 8)"
proof -
  have "Panic \<in> set items \<longleftrightarrow> (\<exists>msg \<in> set (rpc_publish rpc). Panic \<in> set (publish_items ops preview calc_hash msg))"
    using assms by (auto simp: parse_it_def split: option.splits)
  thus ?thesis using publish_items_Panic [of ops preview calc_hash] by auto
qed

theorem parse_it_panics_witness:
  "parse_it sample_ops [1, 2, 3] False True = Inr [Panic] \<and>
   (\<exists>msg data. msg \<in> set (rpc_publish (the (pb_rpc_decode sample_ops [1, 2, 3]))) \<and> pm_data msg = Some data \<and> length data < 8)"
proof -
  have r: "pb_rpc_decode sample_ops [1, 2, 3] = Some (the (pb_rpc_decode sample_ops [1, 2, 3]))"
    by (simp add: sample_ops_def)
  have p: "parse_it sample_ops [1, 2, 3] False True = Inr [Panic]"
    by (simp add: parse_it_def sample_ops_def publish_items_def publish_event_def)
  from parse_it_panics [OF r p] p show ?thesis by simp
qed

text \<open>C40: Every ledger hash that is indexed for a completed work of a block leads back to that work. For a
  work of the snark pool this holds exactly when it is for two statements, or when its source and
  target ledgers agree: the code indexes the source hash as the target of a single statement.\<close>

theorem ledger_index_conforms:
  "list_all (conform (snark_of_work w)) (work_hashes w) \<and>
   (list_all (conform (the (try_from_inner (AddSolvedWork s p)))) (diff_hashes (AddSolvedWork s p)) \<longleftrightarrow>
      (case s of One x \<Rightarrow> hash31 (st_source x) = hash31 (st_target x) | Two _ _ \<Rightarrow> True))"
  by (auto simp: snark_of_work_def work_hashes_def diff_hashes_def try_from_inner_def conform_def split: one_or_two.split)

end
