(* ===== verification/BTree.thy ===== *)
theory BTree
  imports Prelude "HOL-Library.List_Lexorder" "HOL-Library.Product_Lexorder"
begin

text \<open>
  \<open>std::collections::BTreeMap\<close> and \<open>BTreeSet\<close>, as the sorted list of their entries: lookup,
  insertion, removal, \<open>entry(_).or_insert\<close>, and iteration in key order. The locale
  \<open>ordered_map\<close> is what the clients rely on; it is interpreted on this implementation. Byte
  strings are ordered lexicographically, as Rust orders arrays and as the database orders keys.
\<close>

section \<open>Sorted entries\<close>

type_synonym ('k, 'v) btree = "('k \<times> 'v) list"

definition bt_get :: "'k \<Rightarrow> ('k, 'v) btree \<Rightarrow> 'v option" where
  "bt_get k m = map_of m k"

fun bt_insert :: "'k::linorder \<Rightarrow> 'v \<Rightarrow> ('k, 'v) btree \<Rightarrow> ('k, 'v) btree" where
  "bt_insert k v [] = [(k, v)]"
| "bt_insert k v ((l, w) # m) =
     (if k < l then (k, v) # (l, w) # m
      else if k = l then (k, v) # m
      else (l, w) # bt_insert k v m)"

definition bt_remove :: "'k \<Rightarrow> ('k, 'v) btree \<Rightarrow> ('k, 'v) btree" where
  "bt_remove k m = filter (\<lambda>(l, w). l \<noteq> k) m"

text \<open>\<open>entry(k).or_insert(v)\<close>: an entry that is there stays.\<close>

definition bt_or_insert :: "'k::linorder \<Rightarrow> 'v \<Rightarrow> ('k, 'v) btree \<Rightarrow> ('k, 'v) btree" where
  "bt_or_insert k v m = (if bt_get k m = None then bt_insert k v m else m)"

definition bt_values :: "('k, 'v) btree \<Rightarrow> 'v list" where
  "bt_values m = map snd m"

definition bt_inv :: "('k::linorder, 'v) btree \<Rightarrow> bool" where
  "bt_inv m = sorted_wrt (<) (map fst m)"

section \<open>The interface\<close>

locale ordered_map =
  fixes get :: "'k::linorder \<Rightarrow> 'm \<Rightarrow> 'v option"
    and ins :: "'k \<Rightarrow> 'v \<Rightarrow> 'm \<Rightarrow> 'm"
    and rem :: "'k \<Rightarrow> 'm \<Rightarrow> 'm"
    and entries :: "'m \<Rightarrow> ('k \<times> 'v) list"
    and inv :: "'m \<Rightarrow> bool"
  assumes get_ins: "get k (ins l v m) = (if k = l then Some v else get k m)"
    and get_rem: "get k (rem l m) = (if k = l then None else get k m)"
    and inv_ins: "inv m \<Longrightarrow> inv (ins l v m)"
    and inv_rem: "inv m \<Longrightarrow> inv (rem l m)"
    and entries_sorted: "inv m \<Longrightarrow> sorted_wrt (<) (map fst (entries m))"
    and entries_get: "inv m \<Longrightarrow> (k, v) \<in> set (entries m) \<longleftrightarrow> get k m = Some v"
begin

lemma get_rem_all: "get k (foldl (\<lambda>m l. rem l m) m ls) = (if k \<in> set ls then None else get k m)"
  by (induction ls arbitrary: m) (auto simp: get_rem)

lemma entries_distinct:
  assumes "inv m"
  shows "distinct (map fst (entries m))"
proof -
  have "distinct xs" if "sorted_wrt (<) xs" for xs :: "'k list"
    using that by (induction xs) auto
  with entries_sorted [OF assms] show ?thesis by blast
qed

lemma entries_ext:
  assumes "inv m" and "inv m'" and "\<And>k. get k m = get k m'"
  shows "entries m = entries m'"
proof -
  have s: "set (entries m) = set (entries m')"
    using entries_get [OF assms(1)] entries_get [OF assms(2)] assms(3) by auto
  have "sorted_wrt (\<lambda>p q. fst p < fst q) (entries m)" "sorted_wrt (\<lambda>p q. fst p < fst q) (entries m')"
    using entries_sorted [OF assms(1)] entries_sorted [OF assms(2)] by (simp_all add: sorted_wrt_map)
  moreover have "xs = ys" if "sorted_wrt (\<lambda>p q. fst p < fst q) xs"
    "sorted_wrt (\<lambda>p q. fst p < fst q) ys" "set xs = set ys" for xs ys :: "('k \<times> 'v) list"
    using that
  proof (induction xs arbitrary: ys)
    case (Cons x xs)
    then obtain y zs where ys: "ys = y # zs" by (cases ys) auto
    have "x = y"
    proof (rule ccontr)
      assume "x \<noteq> y"
      hence "x \<in> set zs" "y \<in> set xs" using Cons.prems(3) ys by auto
      hence "fst y < fst x" "fst x < fst y" using Cons.prems(1,2) ys by auto
      thus False by simp
    qed
    moreover have "x \<notin> set xs" "y \<notin> set zs" using Cons.prems(1,2) ys by auto
    ultimately have "set xs = set zs" using Cons.prems(3) ys by auto
    with Cons.IH [of zs] Cons.prems(1,2) ys \<open>x = y\<close> show ?case by simp
  qed simp
  ultimately show ?thesis using s by blast
qed

end

lemma bt_get_insert: "bt_get k (bt_insert l v m) = (if k = l then Some v else bt_get k m)"
  by (induction l v m rule: bt_insert.induct) (auto simp: bt_get_def)

lemma bt_get_remove: "bt_get k (bt_remove l m) = (if k = l then None else bt_get k m)"
  by (induction m) (auto simp: bt_get_def bt_remove_def)

lemma bt_insert_keys: "set (map fst (bt_insert k v m)) = insert k (set (map fst m))"
  by (induction k v m rule: bt_insert.induct) auto

lemma bt_inv_insert: "bt_inv m \<Longrightarrow> bt_inv (bt_insert k v m)"
proof (induction k v m rule: bt_insert.induct)
  case (2 k v l w m)
  thus ?case using bt_insert_keys [of k v m] by (auto simp: bt_inv_def)
qed (simp add: bt_inv_def)

lemma bt_inv_remove: "bt_inv m \<Longrightarrow> bt_inv (bt_remove k m)"
  by (induction m) (auto simp: bt_inv_def bt_remove_def)

lemma bt_entries_get: "bt_inv m \<Longrightarrow> (k, v) \<in> set m \<longleftrightarrow> bt_get k m = Some v"
proof (induction m)
  case (Cons p m)
  have "bt_inv m" using Cons.prems by (simp add: bt_inv_def)
  moreover have "fst p \<notin> fst ` set m" using Cons.prems by (auto simp: bt_inv_def)
  ultimately show ?case using Cons.IH by (cases p) (auto simp: bt_get_def dest: map_of_SomeD intro: rev_image_eqI)
qed (simp add: bt_get_def)

interpretation bt: ordered_map bt_get bt_insert bt_remove "\<lambda>m. m" bt_inv
  by unfold_locales
    (simp_all add: bt_get_insert bt_get_remove bt_inv_insert bt_inv_remove bt_entries_get, simp add: bt_inv_def)

lemma bt_inv_Nil [simp]: "bt_inv []"
  by (simp add: bt_inv_def)

lemma bt_get_Nil [simp]: "bt_get k [] = None"
  by (simp add: bt_get_def)

lemma bt_get_or_insert:
  "bt_get k (bt_or_insert l v m) = (if k = l \<and> bt_get l m = None then Some v else bt_get k m)"
  by (simp add: bt_or_insert_def bt.get_ins)

lemma bt_inv_or_insert: "bt_inv m \<Longrightarrow> bt_inv (bt_or_insert k v m)"
  by (simp add: bt_or_insert_def bt.inv_ins)

lemmas bt_simps = bt.get_ins bt.get_rem bt_get_or_insert

end
