(* ===== verification/Stats.thy ===== *)
theory Stats
  imports Decode BTree
begin

text \<open>
  Statistics of gossip (\<open>mina-recorder/src/stats.rs\<close> with the data of
  \<open>decode/meshsub_stats.rs\<close>): which node saw which block when, which transactions and snark works
  a block contains. \<open>observe\<close> and \<open>update_block_stats\<close> are given with their loops and early exits;
  every \<open>unwrap\<close> is a panic.
\<close>

section \<open>Data\<close>

record 'p stat_event =
  ev_producer_id :: 'p
  ev_hash :: bytes
  ev_block_height :: u32
  ev_global_slot :: u32
  ev_incoming :: bool
  ev_message_kind :: message_type
  ev_message_id :: u64
  ev_time :: duration
  ev_better_time :: duration
  ev_latency :: "duration option"
  ev_sender_addr :: socket_addr
  ev_receiver_addr :: socket_addr

definition node_address :: "'p stat_event \<Rightarrow> socket_addr" where
  "node_address e = (if ev_incoming e then ev_receiver_addr e else ev_sender_addr e)"

record 'p block_stat =
  bs_height :: u32
  bs_events :: "'p stat_event list"

definition block_stat_clear :: "'p block_stat \<Rightarrow> 'p block_stat" where
  "block_stat_clear b = b\<lparr>bs_events := []\<rparr>"

record ('x, 'p) tx =
  tx_producer_id :: 'p
  tx_time :: duration
  tx_command :: "'x command"
  tx_latency :: duration

record ('x, 'p) snark =
  sn_producer_id :: 'p
  sn_time :: duration
  sn_work :: "'x snark_work"
  sn_latency :: duration

record ('x, 'p) tx_stat =
  ts_block_time :: duration
  ts_block_height :: u32
  ts_transactions :: "('x, 'p) tx list"
  ts_snarks :: "('x, 'p) snark list"
  ts_pending_txs :: "u64 list"

record 'p description =
  de_time :: duration
  de_producer_id :: 'p
  de_block_height :: u32
  de_global_slot :: u32

record 'p tx_desc =
  td_time :: duration
  td_producer_id :: 'p
  td_message_id :: u64

type_synonym signature = "bytes \<times> bytes"

record ('x, 'p) stats_state =
  ss_first :: "(bytes, 'p description) btree"
  ss_block_stat :: "'p block_stat"
  ss_txs :: "(signature, 'p tx_desc) btree"
  ss_snarks :: "(bytes, 'p tx_desc) btree"
  ss_tx_stat :: "('x, 'p) tx_stat option"

definition stats_state_default :: "('x, 'p) stats_state" where
  "stats_state_default = \<lparr>ss_first = [], ss_block_stat = \<lparr>bs_height = 0, bs_events = []\<rparr>, ss_txs = [],
     ss_snarks = [], ss_tx_stat = None\<rparr>"

text \<open>The arguments of \<open>observe\<close> that stay the same for all events of a message.\<close>

record stat_args =
  sa_message_id :: u64
  sa_incoming :: bool
  sa_time :: duration
  sa_better_time :: duration
  sa_peer :: socket_addr
  sa_node_address :: socket_addr

definition sender_receiver :: "stat_args \<Rightarrow> socket_addr \<times> socket_addr" where
  "sender_receiver a = (if sa_incoming a then (sa_peer a, sa_node_address a) else (sa_node_address a, sa_peer a))"

definition mk_event :: "stat_args \<Rightarrow> 'p \<Rightarrow> bytes \<Rightarrow> u32 \<Rightarrow> u32 \<Rightarrow> message_type \<Rightarrow> duration option \<Rightarrow> 'p stat_event" where
  "mk_event a producer hash height slot kind latency =
     \<lparr>ev_producer_id = producer, ev_hash = hash, ev_block_height = height, ev_global_slot = slot,
      ev_incoming = sa_incoming a, ev_message_kind = kind, ev_message_id = sa_message_id a,
      ev_time = sa_time a, ev_better_time = sa_better_time a, ev_latency = latency,
      ev_sender_addr = fst (sender_receiver a), ev_receiver_addr = snd (sender_receiver a)\<rparr>"

section \<open>Testing messages\<close>

text \<open>
  \<open>message.split("slot: ").nth(1)?.parse().ok()\<close>: the text between the first two occurrences
  of the separator, as a decimal number of 32 bits.
\<close>

fun find_sub :: "'a list \<Rightarrow> 'a list \<Rightarrow> ('a list \<times> 'a list) option" where
  "find_sub p [] = (if p = [] then Some ([], []) else None)"
| "find_sub p (c # s) =
     (if starts_with p (c # s) then Some ([], drop (length p) (c # s))
      else map_option (\<lambda>(a, b). (c # a, b)) (find_sub p s))"

definition split_nth1 :: "'a list \<Rightarrow> 'a list \<Rightarrow> 'a list option" where
  "split_nth1 p s = (case find_sub p s of
     None \<Rightarrow> None
   | Some (_, rest) \<Rightarrow> Some (case find_sub p rest of None \<Rightarrow> rest | Some (piece, _) \<Rightarrow> piece))"

definition dec_val :: "char \<Rightarrow> nat option" where
  "dec_val c = (let v = of_char c in if 48 \<le> v \<and> v \<le> 57 then Some (v - 48) else (None :: nat option))"

fun dec_accum :: "nat \<Rightarrow> string \<Rightarrow> nat option" where
  "dec_accum acc [] = Some acc"
| "dec_accum acc (c # cs) =
     (case dec_val c of
        None \<Rightarrow> None
      | Some d \<Rightarrow> if acc * 10 + d < 2 ^ 32 then dec_accum (acc * 10 + d) cs else None)"

definition u32_from_str :: "string \<Rightarrow> u32 option" where
  "u32_from_str s =
     (if s = [] \<or> s = ''+'' \<or> s = ''-'' then None
      else map_option of_nat (dec_accum 0 (if hd s = CHR ''+'' then tl s else s)))"

definition parse_block_height :: "string \<Rightarrow> u32 option" where
  "parse_block_height message = Option.bind (split_nth1 ''slot: '' message) u32_from_str"

section \<open>Blocks\<close>

text \<open>
  The loops over the commands and the completed works of a new block: what was pending is
  removed and reported. \<open>None\<close> is the panic of \<open>duration_since(..).unwrap()\<close> for an entry that is
  newer than the block. The last component is \<open>tx_stat_updated\<close>.
\<close>

fun take_txs ::
  "duration \<Rightarrow> 'x command list \<Rightarrow> (signature, 'p tx_desc) btree \<Rightarrow> ('x, 'p) tx_stat \<Rightarrow> bool
     \<Rightarrow> ((signature, 'p tx_desc) btree \<times> ('x, 'p) tx_stat \<times> bool) option" where
  "take_txs time [] txs ts u = Some (txs, ts, u)"
| "take_txs time (c # cs) txs ts u =
     (case cmd_data c of
        OtherCommand \<Rightarrow> take_txs time cs txs ts u
      | SignedCommand r s \<Rightarrow>
          (case bt_get (r, s) txs of
             None \<Rightarrow> take_txs time cs txs ts u
           | Some d \<Rightarrow>
               (case duration_since time (td_time d) of
                  None \<Rightarrow> None
                | Some l \<Rightarrow>
                    take_txs time cs (bt_remove (r, s) txs)
                      (ts\<lparr>ts_transactions := ts_transactions ts @ [\<lparr>tx_producer_id = td_producer_id d,
                         tx_time = td_time d, tx_command = c, tx_latency = l\<rparr>]\<rparr>) True)))"

text \<open>The ledger by which a work is known: the target of its last statement.\<close>

definition work_hash :: "one_or_two \<Rightarrow> bytes" where
  "work_hash p = (case p of One s \<Rightarrow> st_target s | Two _ s \<Rightarrow> st_target s)"

fun take_snarks ::
  "duration \<Rightarrow> 'x snark_work list \<Rightarrow> (bytes, 'p tx_desc) btree \<Rightarrow> ('x, 'p) tx_stat \<Rightarrow> bool
     \<Rightarrow> ((bytes, 'p tx_desc) btree \<times> ('x, 'p) tx_stat \<times> bool) option" where
  "take_snarks time [] snarks ts u = Some (snarks, ts, u)"
| "take_snarks time (w # ws) snarks ts u =
     (case bt_get (work_hash (sw_proofs w)) snarks of
        None \<Rightarrow> take_snarks time ws snarks ts u
      | Some d \<Rightarrow>
          (case duration_since time (td_time d) of
             None \<Rightarrow> None
           | Some l \<Rightarrow>
               take_snarks time ws (bt_remove (work_hash (sw_proofs w)) snarks)
                 (ts\<lparr>ts_snarks := ts_snarks ts @ [\<lparr>sn_producer_id = td_producer_id d,
                    sn_time = td_time d, sn_work = w, sn_latency = l\<rparr>]\<rparr>) True))"

text \<open>The first sight of a block: it becomes known, and its contents are no longer pending.\<close>

definition new_block ::
  "stat_args \<Rightarrow> 'p \<Rightarrow> bytes \<Rightarrow> 'x block \<Rightarrow> ('x, 'p) stats_state \<Rightarrow> bool \<Rightarrow> (('x, 'p) stats_state \<times> bool) option" where
  "new_block a producer hash b st u =
     (let time = sa_time a; height = blk_blockchain_length b;
          first = bt_insert hash \<lparr>de_time = time, de_producer_id = producer, de_block_height = height,
                    de_global_slot = blk_global_slot b\<rparr> (ss_first st);
          ts = (case ss_tx_stat st of
                  Some ts \<Rightarrow> ts
                | None \<Rightarrow> \<lparr>ts_block_time = time, ts_block_height = height, ts_transactions = [], ts_snarks = [],
                            ts_pending_txs = []\<rparr>)
      in case take_txs time (block_commands b) (ss_txs st) ts u of
           None \<Rightarrow> None
         | Some (txs, ts, u) \<Rightarrow>
             (let ts = ts\<lparr>ts_pending_txs := map td_message_id (bt_values txs)\<rparr> in
              case take_snarks time (block_works b) (ss_snarks st) ts u of
                None \<Rightarrow> None
              | Some (snarks, ts, u) \<Rightarrow>
                  Some (st\<lparr>ss_first := first, ss_txs := txs, ss_snarks := snarks, ss_tx_stat := Some ts\<rparr>, u)))"

text \<open>
  The state of the loop of \<open>observe\<close>: the statistics, the flags \<open>block_stat_updated\<close> and
  \<open>tx_stat_updated\<close>, and the events for the aggregator.
\<close>

type_synonym ('x, 'p) observing = "('x, 'p) stats_state \<times> bool \<times> bool \<times> 'p stat_event list"

definition push_event :: "'p stat_event \<Rightarrow> ('x, 'p) stats_state \<Rightarrow> ('x, 'p) stats_state" where
  "push_event e st = st\<lparr>ss_block_stat := (ss_block_stat st)\<lparr>bs_events := bs_events (ss_block_stat st) @ [e]\<rparr>\<rparr>"

definition observe_block ::
  "stat_args \<Rightarrow> 'p \<Rightarrow> bytes \<Rightarrow> 'x block \<Rightarrow> ('x, 'p) observing \<Rightarrow> ('x, 'p) observing option" where
  "observe_block a producer hash b obs =
     (case obs of (st, bu, tu, evs) \<Rightarrow>
        (let height = blk_blockchain_length b;
             higher = bs_height (ss_block_stat st) < height;
             st = (if higher
                   then st\<lparr>ss_first := [], ss_block_stat := (block_stat_clear (ss_block_stat st))\<lparr>bs_height := height\<rparr>,
                          ss_tx_stat := None\<rparr>
                   else st);
             bu = (bu \<or> higher)
         in if height < bs_height (ss_block_stat st) then Some (st, bu, tu, evs)
            else
              case (case bt_get hash (ss_first st) of
                      Some d \<Rightarrow>
                        Some (st, tu, Some (case duration_since (sa_time a) (de_time d) of
                                              None \<Rightarrow> duration_zero | Some l \<Rightarrow> l))
                    | None \<Rightarrow> map_option (\<lambda>(st, tu). (st, tu, None)) (new_block a producer hash b st tu)) of
                None \<Rightarrow> None
              | Some (st, tu, latency) \<Rightarrow>
                  (let e = mk_event a producer hash height (blk_global_slot b) MtPublishNewState latency
                   in Some (push_event e st, True, tu, evs @ [e]))))"

section \<open>Pools and control messages\<close>

definition observe_tx_pool :: "stat_args \<Rightarrow> 'p \<Rightarrow> user_command list \<Rightarrow> ('x, 'p) stats_state \<Rightarrow> ('x, 'p) stats_state" where
  "observe_tx_pool a producer cs st =
     foldl (\<lambda>st c. case c of
         OtherCommand \<Rightarrow> st
       | SignedCommand r s \<Rightarrow>
           st\<lparr>ss_txs := bt_or_insert (r, s) \<lparr>td_time = sa_time a, td_producer_id = producer,
                td_message_id = sa_message_id a\<rparr> (ss_txs st)\<rparr>) st cs"

definition observe_snark_pool :: "stat_args \<Rightarrow> 'p \<Rightarrow> snark_pool_diff \<Rightarrow> ('x, 'p) stats_state \<Rightarrow> ('x, 'p) stats_state" where
  "observe_snark_pool a producer d st = (case d of
     EmptyDiff \<Rightarrow> st
   | AddSolvedWork _ proof \<Rightarrow>
       st\<lparr>ss_snarks := bt_or_insert (work_hash proof) \<lparr>td_time = sa_time a, td_producer_id = producer,
            td_message_id = sa_message_id a\<rparr> (ss_snarks st)\<rparr>)"

definition observe_id :: "stat_args \<Rightarrow> bytes \<times> message_type \<Rightarrow> ('x, 'p) observing \<Rightarrow> ('x, 'p) observing" where
  "observe_id a hk obs =
     (case obs of (st, bu, tu, evs) \<Rightarrow>
        (case bt_get (fst hk) (ss_first st) of
           None \<Rightarrow> obs
         | Some d \<Rightarrow>
             if de_block_height d = bs_height (ss_block_stat st) then
               (let e = mk_event a (de_producer_id d) (fst hk) (de_block_height d) (de_global_slot d) (snd hk)
                          (duration_since (sa_time a) (de_time d))
                in (push_event e st, True, tu, evs @ [e]))
             else obs))"

definition observe_control ::
  "('x, 'y, 'p) decode_ops \<Rightarrow> stat_args \<Rightarrow> control_ihave list \<Rightarrow> string list list \<Rightarrow> ('x, 'p) observing \<Rightarrow> ('x, 'p) observing" where
  "observe_control ops a ihave iwant obs =
     foldl (\<lambda>obs hk. observe_id a hk obs) obs
       (concat (map (\<lambda>m. map (\<lambda>h. (h, MtControlIHave)) (id_hashes ops (cih_message_ids m))) ihave) @
        concat (map (\<lambda>ids. map (\<lambda>h. (h, MtControlIWant)) (id_hashes ops ids)) iwant))"

section \<open>Observing a message\<close>

definition observe_event ::
  "('x, 'y, 'p) decode_ops \<Rightarrow> stat_args \<Rightarrow> ('x, 'y, 'p) event \<Rightarrow> ('x, 'p) observing \<Rightarrow> ('x, 'p) observing option" where
  "observe_event ops a e obs =
     (case obs of (st, bu, tu, evs) \<Rightarrow>
        (case e of
           PublishV2 (Some producer) _ _ _ _ m hash \<Rightarrow>
             (case m of
                NewState b \<Rightarrow> observe_block a producer hash b obs
              | TransactionPoolDiff cs \<Rightarrow> Some (observe_tx_pool a producer cs st, bu, tu, evs)
              | SnarkPoolDiff d \<Rightarrow> Some (observe_snark_pool a producer d st, bu, tu, evs))
         | Control ihave iwant _ _ \<Rightarrow> Some (observe_control ops a ihave iwant obs)
         | PublishTestingMessage from _ message _ \<Rightarrow>
             (case parse_block_height message of
                None \<Rightarrow> Some obs
              | Some height \<Rightarrow>
                  Some (push_event (mk_event a from (replicate 32 0) height height MtPublishNewState None) st,
                        True, tu, evs))
         | _ \<Rightarrow> Some obs))"

fun observe_all ::
  "('x, 'y, 'p) decode_ops \<Rightarrow> stat_args \<Rightarrow> (unit, ('x, 'y, 'p) event) outcome list \<Rightarrow> ('x, 'p) observing
     \<Rightarrow> ('x, 'p) observing option" where
  "observe_all ops a [] obs = Some obs"
| "observe_all ops a (Done e # es) obs =
     (case observe_event ops a e obs of None \<Rightarrow> None | Some obs \<Rightarrow> observe_all ops a es obs)"
| "observe_all ops a (_ # es) obs = None"

text \<open>\<open>StatsState::observe\<close>; \<open>None\<close> is a panic.\<close>

definition observe ::
  "('x, 'y, 'p) decode_ops \<Rightarrow> stat_args \<Rightarrow> bytes \<Rightarrow> ('x, 'p) stats_state \<Rightarrow> ('x, 'p) observing option" where
  "observe ops a msg st =
     (case parse_it ops msg False True of
        Inl _ \<Rightarrow> None
      | Inr es \<Rightarrow> observe_all ops a es (st, False, True, []))"

text \<open>
  \<open>update_block_stats\<close> writes an event for every block and every testing message; \<open>put\<close> is
  \<open>db.stats_block_v2\<close>, whose error ends the loop.
\<close>

definition block_event :: "stat_args \<Rightarrow> ('x, 'y, 'p) event \<Rightarrow> 'p stat_event option" where
  "block_event a e = (case e of
     PublishV2 (Some producer) _ _ _ _ (NewState b) hash \<Rightarrow>
       Some (mk_event a producer hash (blk_blockchain_length b) (blk_global_slot b) MtPublishNewState None)
   | PublishTestingMessage from _ message hash \<Rightarrow>
       map_option (\<lambda>height. mk_event a from hash height height MtPublishNewState None) (parse_block_height message)
   | _ \<Rightarrow> None)"

fun put_block_events ::
  "('p stat_event \<Rightarrow> 'w \<Rightarrow> ('e, unit) outcome \<times> 'w) \<Rightarrow> stat_args \<Rightarrow> (unit, ('x, 'y, 'p) event) outcome list \<Rightarrow> 'w
     \<Rightarrow> ('e, unit) outcome \<times> 'w" where
  "put_block_events put a [] w = (Done (), w)"
| "put_block_events put a (Done e # es) w =
     (case block_event a e of
        None \<Rightarrow> put_block_events put a es w
      | Some ev \<Rightarrow> (case put ev w of (Done _, w) \<Rightarrow> put_block_events put a es w | (r, w) \<Rightarrow> (r, w)))"
| "put_block_events put a (_ # es) w = (Panic, w)"

definition update_block_stats ::
  "('x, 'y, 'p) decode_ops \<Rightarrow> ('p stat_event \<Rightarrow> 'w \<Rightarrow> ('e, unit) outcome \<times> 'w) \<Rightarrow> stat_args \<Rightarrow> bytes \<Rightarrow> 'w
     \<Rightarrow> ('e, unit) outcome \<times> 'w" where
  "update_block_stats ops put a msg w =
     (case parse_it ops msg False True of
        Inl _ \<Rightarrow> (Panic, w)
      | Inr es \<Rightarrow> put_block_events put a es w)"

section \<open>What a new block settles\<close>

text \<open>
  Reference for the two loops: the items of the block that are pending when their turn comes,
  with what is known of them. An item counts once, however often the block lists it.
\<close>

fun settled :: "('c \<Rightarrow> 'k option) \<Rightarrow> ('k \<rightharpoonup> 'd) \<Rightarrow> 'c list \<Rightarrow> ('c \<times> 'd) list" where
  "settled key pend [] = []"
| "settled key pend (c # cs) =
     (case Option.bind (key c) pend of
        None \<Rightarrow> settled key pend cs
      | Some d \<Rightarrow> (c, d) # settled key (pend(the (key c) := None)) cs)"

definition signature_of :: "'x command \<Rightarrow> signature option" where
  "signature_of c = (case cmd_data c of SignedCommand r s \<Rightarrow> Some (r, s) | OtherCommand \<Rightarrow> None)"

definition report_tx :: "duration \<Rightarrow> 'x command \<times> 'p tx_desc \<Rightarrow> ('x, 'p) tx" where
  "report_tx time cd = \<lparr>tx_producer_id = td_producer_id (snd cd), tx_time = td_time (snd cd),
     tx_command = fst cd, tx_latency = the (duration_since time (td_time (snd cd)))\<rparr>"

definition report_snark :: "duration \<Rightarrow> 'x snark_work \<times> 'p tx_desc \<Rightarrow> ('x, 'p) snark" where
  "report_snark time wd = \<lparr>sn_producer_id = td_producer_id (snd wd), sn_time = td_time (snd wd),
     sn_work = fst wd, sn_latency = the (duration_since time (td_time (snd wd)))\<rparr>"

definition newer :: "duration \<Rightarrow> 'c \<times> 'p tx_desc \<Rightarrow> bool" where
  "newer time cd = (duration_since time (td_time (snd cd)) = None)"

lemma bt_remove_fun: "(\<lambda>k. bt_get k (bt_remove l m)) = (\<lambda>k. bt_get k m)(l := None)"
  by (rule ext) (simp add: bt_get_remove)

lemma take_txs_spec:
  "take_txs time cs txs ts u =
     (let s = settled signature_of (\<lambda>k. bt_get k txs) cs in
      if list_ex (newer time) s then None
      else Some (foldl (\<lambda>m k. bt_remove k m) txs (map (\<lambda>c. the (signature_of (fst c))) s),
             ts\<lparr>ts_transactions := ts_transactions ts @ map (report_tx time) s\<rparr>, u \<or> s \<noteq> []))"
proof (induction cs arbitrary: txs ts u)
  case (Cons c cs)
  show ?case
  proof (cases "cmd_data c")
    case (SignedCommand r s)
    thus ?thesis using Cons.IH
      by (auto simp: signature_of_def bt_remove_fun newer_def report_tx_def Let_def split: option.splits)
  qed (simp add: Cons.IH signature_of_def Let_def)
qed simp

lemma take_snarks_spec:
  "take_snarks time ws snarks ts u =
     (let s = settled (\<lambda>w. Some (work_hash (sw_proofs w))) (\<lambda>k. bt_get k snarks) ws in
      if list_ex (newer time) s then None
      else Some (foldl (\<lambda>m k. bt_remove k m) snarks (map (\<lambda>w. work_hash (sw_proofs (fst w))) s),
             ts\<lparr>ts_snarks := ts_snarks ts @ map (report_snark time) s\<rparr>, u \<or> s \<noteq> []))"
proof (induction ws arbitrary: snarks ts u)
  case (Cons w ws)
  show ?case using Cons.IH
    by (auto simp: bt_remove_fun newer_def report_snark_def Let_def split: option.splits)
qed simp

lemma settled_keys:
  "(\<lambda>c. the (key (fst c))) ` set (settled key pend cs) = {k. (\<exists>c \<in> set cs. key c = Some k) \<and> pend k \<noteq> None}"
proof (induction key pend cs rule: settled.induct)
  case (2 key pend c cs)
  show ?case
  proof (cases "Option.bind (key c) pend")
    case None
    with 2(1) show ?thesis by (cases "key c") auto
  next
    case (Some d)
    then obtain l where l: "key c = Some l" "pend l = Some d" by (cases "key c") auto
    have "(\<lambda>c. the (key (fst c))) ` set (settled key pend (c # cs)) =
        insert l {k. (\<exists>c \<in> set cs. key c = Some k) \<and> (pend(l := None)) k \<noteq> None}"
      using Some l by (simp only: settled.simps option.case list.set image_insert fst_conv option.sel
          2(2) [OF Some, unfolded l option.sel])
    also have "\<dots> = {k. (\<exists>c \<in> set (c # cs). key c = Some k) \<and> pend k \<noteq> None}" using l by auto
    finally show ?thesis .
  qed
qed simp

lemma settled_removed:
  fixes k :: "'k::linorder"
  shows "bt_get k (foldl (\<lambda>m k. bt_remove k m) m (map (\<lambda>c. the (key (fst c))) (settled key (\<lambda>k. bt_get k m) cs))) =
     (if \<exists>c \<in> set cs. key c = Some k then None else bt_get k m)"
proof -
  have "k \<in> set (map (\<lambda>c. the (key (fst c))) (settled key (\<lambda>k. bt_get k m) cs)) \<longleftrightarrow>
      (\<exists>c \<in> set cs. key c = Some k) \<and> bt_get k m \<noteq> None"
    using settled_keys [of key "\<lambda>k. bt_get k m" cs] by simp
  thus ?thesis by (simp only: bt.get_rem_all) auto
qed

lemma bt_inv_removes: "bt_inv (m :: ('k::linorder, 'v) btree) \<Longrightarrow> bt_inv (foldl (\<lambda>m k. bt_remove k m) m ks)"
  by (induction ks arbitrary: m) (simp_all add: bt.inv_rem)

section \<open>Invariant\<close>

definition stats_inv :: "('x, 'p) stats_state \<Rightarrow> bool" where
  "stats_inv st = (bt_inv (ss_first st) \<and> bt_inv (ss_txs st) \<and> bt_inv (ss_snarks st) \<and>
     list_all (\<lambda>(h, d). de_block_height d = bs_height (ss_block_stat st)) (ss_first st))"

text \<open>How one step of the loop may change the state of the loop.\<close>

definition obs_step :: "('x, 'p) observing \<Rightarrow> ('x, 'p) observing \<Rightarrow> bool" where
  "obs_step o1 o2 = (case (o1, o2) of ((st, bu, tu, evs), (st', bu', tu', evs')) \<Rightarrow>
     (stats_inv st \<longrightarrow> stats_inv st') \<and> bs_height (ss_block_stat st) \<le> bs_height (ss_block_stat st') \<and>
     (tu \<longrightarrow> tu') \<and> (bu \<longrightarrow> bu') \<and> (\<not> bu' \<longrightarrow> ss_block_stat st' = ss_block_stat st) \<and>
     (\<exists>new. evs' = evs @ new \<and>
        (stats_inv st \<longrightarrow> list_all (\<lambda>e. ev_block_height e \<le> bs_height (ss_block_stat st')) new)))"

lemma obs_stepI:
  assumes "stats_inv st \<Longrightarrow> stats_inv st'" and "bs_height (ss_block_stat st) \<le> bs_height (ss_block_stat st')"
    and "tu \<Longrightarrow> tu'" and "bu \<Longrightarrow> bu'" and "\<not> bu' \<Longrightarrow> ss_block_stat st' = ss_block_stat st"
    and "evs' = evs @ new"
    and "stats_inv st \<Longrightarrow> list_all (\<lambda>e. ev_block_height e \<le> bs_height (ss_block_stat st')) new"
  shows "obs_step (st, bu, tu, evs) (st', bu', tu', evs')"
  using assms by (auto simp: obs_step_def)

lemma obs_step_refl [simp]: "obs_step o1 o1"
  by (simp add: obs_step_def split: prod.split)

lemma obs_step_trans:
  assumes "obs_step o1 o2" and "obs_step o2 o3"
  shows "obs_step o1 o3"
proof -
  obtain st1 b1 t1 e1 where 1: "o1 = (st1, b1, t1, e1)" by (cases o1)
  obtain st2 b2 t2 e2 where 2: "o2 = (st2, b2, t2, e2)" by (cases o2)
  obtain st3 b3 t3 e3 where 3: "o3 = (st3, b3, t3, e3)" by (cases o3)
  obtain n1 where a: "stats_inv st1 \<longrightarrow> stats_inv st2" "bs_height (ss_block_stat st1) \<le> bs_height (ss_block_stat st2)"
    "t1 \<longrightarrow> t2" "b1 \<longrightarrow> b2" "\<not> b2 \<longrightarrow> ss_block_stat st2 = ss_block_stat st1" "e2 = e1 @ n1"
    "stats_inv st1 \<longrightarrow> list_all (\<lambda>e. ev_block_height e \<le> bs_height (ss_block_stat st2)) n1"
    using assms(1) by (simp only: 1 2 obs_step_def prod.case) blast
  obtain n2 where b: "stats_inv st2 \<longrightarrow> stats_inv st3" "bs_height (ss_block_stat st2) \<le> bs_height (ss_block_stat st3)"
    "t2 \<longrightarrow> t3" "b2 \<longrightarrow> b3" "\<not> b3 \<longrightarrow> ss_block_stat st3 = ss_block_stat st2" "e3 = e2 @ n2"
    "stats_inv st2 \<longrightarrow> list_all (\<lambda>e. ev_block_height e \<le> bs_height (ss_block_stat st3)) n2"
    using assms(2) by (simp only: 2 3 obs_step_def prod.case) blast
  show ?thesis unfolding 1 3
  proof (rule obs_stepI [where new = "n1 @ n2"])
    show "bs_height (ss_block_stat st1) \<le> bs_height (ss_block_stat st3)" using a(2) b(2) by (rule order_trans)
    show "ss_block_stat st3 = ss_block_stat st1" if "\<not> b3" using a(5) b(4,5) that by simp
    show "e3 = e1 @ n1 @ n2" using a(6) b(6) by simp
    assume i: "stats_inv st1"
    show "list_all (\<lambda>e. ev_block_height e \<le> bs_height (ss_block_stat st3)) (n1 @ n2)"
      using a(1,7) b(7) i order_trans [OF _ b(2)] by (simp add: list_all_iff ball_Un)
  qed (use a b in simp_all)
qed

lemma list_all_bt_insert: "list_all P m \<Longrightarrow> P (k, v) \<Longrightarrow> list_all P (bt_insert k v m)"
  by (induction k v m rule: bt_insert.induct) auto

lemma new_block_frame:
  assumes "new_block a p h b st u = Some (st', u')"
  shows "ss_block_stat st' = ss_block_stat st \<and> (u \<longrightarrow> u') \<and>
    (stats_inv st \<and> blk_blockchain_length b = bs_height (ss_block_stat st) \<longrightarrow> stats_inv st')"
  using assms
  by (auto simp: new_block_def Let_def take_txs_spec take_snarks_spec stats_inv_def bt.inv_ins
      intro!: list_all_bt_insert bt_inv_removes split: if_splits)

lemma observe_block_step:
  assumes "observe_block a p h b obs = Some obs'"
  shows "obs_step obs obs'"
proof -
  obtain st bu tu evs where o: "obs = (st, bu, tu, evs)" by (cases obs)
  define st1 where "st1 = (if bs_height (ss_block_stat st) < blk_blockchain_length b
     then st\<lparr>ss_first := [], ss_block_stat := (block_stat_clear (ss_block_stat st))\<lparr>bs_height := blk_blockchain_length b\<rparr>,
        ss_tx_stat := None\<rparr> else st)"
  define bu1 where "bu1 = (bu \<or> bs_height (ss_block_stat st) < blk_blockchain_length b)"
  have 1: "obs_step (st, bu, tu, evs) (st1, bu1, tu, evs)"
    by (rule obs_stepI [where new = "[]"]) (auto simp: st1_def bu1_def stats_inv_def)
  show ?thesis
  proof (cases "blk_blockchain_length b < bs_height (ss_block_stat st1)")
    case True
    hence "obs' = (st1, bu1, tu, evs)" using assms o by (simp add: observe_block_def Let_def st1_def [symmetric] bu1_def)
    thus ?thesis using 1 o by simp
  next
    case False
    have h: "blk_blockchain_length b = bs_height (ss_block_stat st1)"
      using False by (auto simp: st1_def split: if_splits)
    from assms o False obtain st2 tu2 l where
      r: "obs' = (push_event (mk_event a p h (blk_blockchain_length b) (blk_global_slot b) MtPublishNewState l) st2, True,
            tu2, evs @ [mk_event a p h (blk_blockchain_length b) (blk_global_slot b) MtPublishNewState l])"
      and s: "(st2 = st1 \<and> tu2 = tu) \<or> new_block a p h b st1 tu = Some (st2, tu2)"
      by (auto simp: observe_block_def Let_def st1_def [symmetric] split: option.splits if_splits)
    have f: "ss_block_stat st2 = ss_block_stat st1" "tu \<longrightarrow> tu2" "stats_inv st1 \<longrightarrow> stats_inv st2"
      using s h by (auto dest: new_block_frame)
    have "obs_step (st1, bu1, tu, evs) obs'" unfolding r
      by (rule obs_stepI) (use f h in \<open>auto simp: push_event_def stats_inv_def mk_event_def\<close>)
    with 1 o show ?thesis using obs_step_trans by blast
  qed
qed

lemma observe_id_step: "obs_step obs (observe_id a hk obs)"
proof -
  obtain st bu tu evs where o: "obs = (st, bu, tu, evs)" by (cases obs)
  show ?thesis
  proof (cases "bt_get (fst hk) (ss_first st)")
    case (Some d)
    show ?thesis
    proof (cases "de_block_height d = bs_height (ss_block_stat st)")
      case True
      show ?thesis unfolding o observe_id_def using Some True
        by (simp add: Let_def) (rule obs_stepI, auto simp: push_event_def stats_inv_def mk_event_def)
    qed (simp add: o observe_id_def Some)
  qed (simp add: o observe_id_def)
qed

lemma observe_control_step: "obs_step obs (observe_control ops a ihave iwant obs)"
proof -
  have "obs_step obs (foldl (\<lambda>obs hk. observe_id a hk obs) obs hks)" for hks
  proof (induction hks arbitrary: obs)
    case (Cons hk hks)
    show ?case using obs_step_trans [OF observe_id_step Cons.IH] by simp
  qed simp
  thus ?thesis unfolding observe_control_def by blast
qed

lemma observe_tx_pool_frame:
  "ss_block_stat (observe_tx_pool a p cs st) = ss_block_stat st \<and> (stats_inv st \<longrightarrow> stats_inv (observe_tx_pool a p cs st))"
proof (induction cs arbitrary: st)
  case (Cons c cs)
  let ?st = "observe_tx_pool a p [c] st"
  have c: "observe_tx_pool a p (c # cs) st = observe_tx_pool a p cs ?st" by (simp add: observe_tx_pool_def)
  have "ss_block_stat ?st = ss_block_stat st \<and> (stats_inv st \<longrightarrow> stats_inv ?st)"
    by (cases c) (simp_all add: observe_tx_pool_def stats_inv_def bt_inv_or_insert)
  with Cons.IH [of ?st] c show ?case by simp
qed (simp add: observe_tx_pool_def)

lemma observe_snark_pool_frame:
  "ss_block_stat (observe_snark_pool a p d st) = ss_block_stat st \<and> (stats_inv st \<longrightarrow> stats_inv (observe_snark_pool a p d st))"
  by (cases d) (simp_all add: observe_snark_pool_def stats_inv_def bt_inv_or_insert)

lemma obs_step_pool:
  assumes "ss_block_stat st' = ss_block_stat st \<and> (stats_inv st \<longrightarrow> stats_inv st')"
  shows "obs_step (st, bu, tu, evs) (st', bu, tu, evs)"
  by (rule obs_stepI [where new = "[]"]) (use assms in auto)

lemma observe_event_step: "observe_event ops a e obs = Some obs' \<Longrightarrow> obs_step obs obs'"
proof -
  assume r: "observe_event ops a e obs = Some obs'"
  obtain st bu tu evs where o: "obs = (st, bu, tu, evs)" by (cases obs)
  have push: "obs_step (st, bu, tu, evs) (push_event ev st, True, tu, evs)" for ev
    by (rule obs_stepI [where new = "[]"]) (auto simp: push_event_def stats_inv_def)
  show ?thesis
  proof (cases e)
    case (PublishV2 src sq sg ky tp m hash)
    show ?thesis
    proof (cases src)
      case (Some p)
      show ?thesis using r PublishV2 Some o
        by (cases m) (auto simp: observe_event_def intro: observe_block_step
            obs_step_pool [OF observe_tx_pool_frame] obs_step_pool [OF observe_snark_pool_frame])
    qed (use r PublishV2 o in \<open>simp add: observe_event_def\<close>)
  next
    case (Control ihave iwant)
    thus ?thesis using r o observe_control_step [of obs ops a ihave iwant] by (simp add: observe_event_def)
  next
    case (PublishTestingMessage src topic message hash)
    thus ?thesis using r o push by (cases "parse_block_height message") (auto simp: observe_event_def)
  qed (use r o in \<open>simp_all add: observe_event_def\<close>)
qed

lemma observe_all_step: "observe_all ops a es obs = Some obs' \<Longrightarrow> obs_step obs obs'"
proof (induction ops a es obs rule: observe_all.induct)
  case (2 ops a e es obs)
  then obtain o1 where o1: "observe_event ops a e obs = Some o1" "observe_all ops a es o1 = Some obs'"
    by (auto split: option.splits)
  show ?case by (rule obs_step_trans [OF observe_event_step [OF o1(1)] 2(1) [OF o1]])
qed simp_all

section \<open>Properties\<close>

text \<open>A state and arguments for examples: a transaction is pending, and a block of height 9 is known.\<close>

definition sample_args :: stat_args where
  "sample_args = \<lparr>sa_message_id = 3, sa_incoming = True, sa_time = \<lparr>as_secs = 10, subsec_nanos = 0\<rparr>,
     sa_better_time = \<lparr>as_secs = 10, subsec_nanos = 0\<rparr>, sa_peer = \<lparr>ip = V4 1, port = 1\<rparr>,
     sa_node_address = \<lparr>ip = V4 2, port = 2\<rparr>\<rparr>"

definition sample_stats :: "(unit, nat) stats_state" where
  "sample_stats = stats_state_default\<lparr>ss_block_stat := \<lparr>bs_height = 9, bs_events = []\<rparr>,
     ss_txs := [(([1], [2]), \<lparr>td_time = \<lparr>as_secs = 7, subsec_nanos = 0\<rparr>, td_producer_id = 1, td_message_id = 2\<rparr>)],
     ss_first := [([4], \<lparr>de_time = \<lparr>as_secs = 8, subsec_nanos = 0\<rparr>, de_producer_id = 1, de_block_height = 9,
        de_global_slot = 14\<rparr>)]\<rparr>"

text \<open>C24: Observing a message keeps the statistics consistent: every known block has the current height,
  and the maps stay ordered. The height never decreases, no event for the aggregator is above
  it, the statistics of the block change only when this is reported, and the transaction
  statistics are always reported as changed.\<close>

theorem observe_inv:
  assumes "stats_inv st" and "observe ops a msg st = Some (st', b, t, evs)"
  shows "stats_inv st' \<and> bs_height (ss_block_stat st) \<le> bs_height (ss_block_stat st') \<and> t \<and>
    (b \<or> ss_block_stat st' = ss_block_stat st) \<and>
    list_all (\<lambda>e. ev_block_height e \<le> bs_height (ss_block_stat st')) evs"
proof -
  from assms(2) obtain es where "observe_all ops a es (st, False, True, []) = Some (st', b, t, evs)"
    by (auto simp: observe_def split: sum.splits)
  from observe_all_step [OF this] assms(1) show ?thesis by (auto simp: obs_step_def)
qed

lemma sample_observe:
  "observe sample_ops sample_args [0, 0, 0, 0, 0, 0, 0, 0, 0, 12] sample_stats =
     observe_block sample_args 1 (replicate 32 10) (sample_block 12) (sample_stats, False, True, [])"
  by (simp add: observe_def parse_it_def publish_items_def publish_event_def sample_ops_def message_hash_def
      observe_event_def as_bytes_def split: option.splits)

theorem observe_inv_witness:
  "stats_inv sample_stats \<and>
   (\<exists>st' b t evs. observe sample_ops sample_args [0, 0, 0, 0, 0, 0, 0, 0, 0, 12] sample_stats = Some (st', b, t, evs) \<and>
     stats_inv st' \<and> bs_height (ss_block_stat sample_stats) \<le> bs_height (ss_block_stat st') \<and> t)"
proof -
  have i: "stats_inv sample_stats" by (simp add: stats_inv_def sample_stats_def stats_state_default_def bt_inv_def)
  have "\<exists>r. observe_block sample_args 1 (replicate 32 10) (sample_block 12) (sample_stats, False, True, []) = Some r"
    by (simp add: observe_block_def new_block_def sample_stats_def stats_state_default_def sample_block_def
        sample_args_def block_commands_def block_works_def bt_get_def work_hash_def duration_since_def dur_nanos_def Let_def)
      blast
  then obtain st' b t evs where
    o: "observe sample_ops sample_args [0, 0, 0, 0, 0, 0, 0, 0, 0, 12] sample_stats = Some (st', b, t, evs)"
    unfolding sample_observe by auto
  from observe_inv [OF i o] i o show ?thesis by blast
qed

text \<open>C25: The first sight of a block panics exactly when one of its transactions or works was recorded
  with a later time. Otherwise it settles them: exactly the contents of the block stop being
  pending, each settled item is reported once in the order of the block with its latency, and
  the pending transactions are listed in the order of their signatures.\<close>

theorem new_block_settles:
  "let txs = settled signature_of (\<lambda>k. bt_get k (ss_txs st)) (block_commands b);
       works = settled (\<lambda>w. Some (work_hash (sw_proofs w))) (\<lambda>k. bt_get k (ss_snarks st)) (block_works b)
   in case new_block a producer hash b st u of
        None \<Rightarrow> list_ex (newer (sa_time a)) txs \<or> list_ex (newer (sa_time a)) works
      | Some (st', u') \<Rightarrow>
          \<not> list_ex (newer (sa_time a)) txs \<and> \<not> list_ex (newer (sa_time a)) works \<and>
          (\<forall>k. bt_get k (ss_txs st') =
             (if \<exists>c \<in> set (block_commands b). signature_of c = Some k then None else bt_get k (ss_txs st))) \<and>
          (\<forall>k. bt_get k (ss_snarks st') =
             (if \<exists>w \<in> set (block_works b). work_hash (sw_proofs w) = k then None else bt_get k (ss_snarks st))) \<and>
          (\<exists>ts. ss_tx_stat st' = Some ts \<and>
             ts_transactions ts = (case ss_tx_stat st of None \<Rightarrow> [] | Some ts \<Rightarrow> ts_transactions ts) @ map (report_tx (sa_time a)) txs \<and>
             ts_snarks ts = (case ss_tx_stat st of None \<Rightarrow> [] | Some ts \<Rightarrow> ts_snarks ts) @ map (report_snark (sa_time a)) works \<and>
             ts_pending_txs ts = map td_message_id (bt_values (ss_txs st')))"
proof -
  note r = settled_removed [of _ "ss_txs st" signature_of "block_commands b"]
    settled_removed [of _ "ss_snarks st" "\<lambda>w. Some (work_hash (sw_proofs w))" "block_works b"]
  show ?thesis
    by (simp add: new_block_def Let_def take_txs_spec take_snarks_spec split: option.split)
       (use r in \<open>simp split: option.split\<close>)
qed

end
