(* ===== verification/MinaProtocol.thy ===== *)
theory MinaProtocol
  imports Accumulator Stats
begin

text \<open>
  The protocols inside a multiplexed stream (\<open>mina-recorder/src/connection/mina_protocol\<close>):
  \<open>rpc.rs\<close> pairs RPC responses with their queries, \<open>mod.rs\<close> dispatches on the kind of the stream and
  sends meshsub messages to the database, the statistics and the aggregator. The binprot codec of
  the RPC headers is the parameter \<open>rpc_codec\<close>.
\<close>

section \<open>RPC\<close>

type_synonym i32 = "32 word"
type_synonym i64 = "64 word"

record rpc_header =
  rh_tag :: bytes
  rh_version :: i32

datatype message_header = Heartbeat | Query bytes i32 i64 | Response i64

text \<open>
  \<open>rc_decode_size\<close> is \<open>utils::stream_decode_size\<close> with the position behind the size,
  \<open>rc_read_header\<close> is \<open>MessageHeader::binprot_read\<close> with the position behind the header, and
  \<open>rc_write_query\<close> is \<open>QueryHeader::binprot_write\<close>.
\<close>

record rpc_codec =
  rc_decode_size :: size_decoder
  rc_read_header :: "bytes \<Rightarrow> (message_header \<times> nat) option"
  rc_write_query :: "bytes \<Rightarrow> i32 \<Rightarrow> i64 \<Rightarrow> bytes option"

datatype rpc_error = ResponseWithoutRequest i64 | DecodeSize | WriteQueryHeader

record rpc_state =
  rs_acc :: accumulator
  rs_pending :: "i64 \<rightharpoonup> rpc_header"

definition rpc_state_default :: rpc_state where
  "rpc_state_default = \<lparr>rs_acc = accumulator_default, rs_pending = Map.empty\<rparr>"

definition rpc_post_process ::
  "rpc_codec \<Rightarrow> bytes \<Rightarrow> rpc_state \<Rightarrow> (rpc_error, bytes option) outcome \<times> rpc_state" where
  "rpc_post_process codec bytes st =
     (case rc_decode_size codec bytes of
        None \<Rightarrow> (Fail DecodeSize, st)
      | Some (l0, _) \<Rightarrow>
          if length bytes < l0 then (Panic, st)
          else
            let stream = drop l0 bytes in
            (case rc_read_header codec stream of
               None \<Rightarrow> (Done None, st)
             | Some (Heartbeat, _) \<Rightarrow> (Done None, st)
             | Some (Query tag version qid, _) \<Rightarrow>
                 (Done (Some bytes),
                  st\<lparr>rs_pending := (rs_pending st)(qid \<mapsto> \<lparr>rh_tag = tag, rh_version = version\<rparr>)\<rparr>)
             | Some (Response qid, position) \<Rightarrow>
                 (case rs_pending st qid of
                    Some h \<Rightarrow>
                      (let st = st\<lparr>rs_pending := (rs_pending st)(qid := None)\<rparr> in
                       case rc_write_query codec (rh_tag h) (rh_version h) qid of
                         None \<Rightarrow> (Fail WriteQueryHeader, st)
                       | Some q \<Rightarrow>
                           (let remaining = drop (min position (length stream)) stream;
                                body = [2] @ q @ remaining;
                                new_len = (of_nat (8 + length body) - of_nat l0 :: u64)
                            in (Done (Some (to_le 8 (unat new_len) @ body)), st)))
                  | None \<Rightarrow>
                      if qid \<noteq> 4411474 then (Fail (ResponseWithoutRequest qid), st)
                      else (Done None, st))))"

definition rpc_extend ::
  "rpc_codec \<Rightarrow> bytes \<Rightarrow> rpc_state \<Rightarrow> (rpc_error, bytes option) outcome \<times> rpc_state" where
  "rpc_extend codec bytes st =
     (case acc_extend (rc_decode_size codec) bytes (rs_acc st) of
        (True, acc) \<Rightarrow> (Done None, st\<lparr>rs_acc := acc\<rparr>)
      | (False, acc) \<Rightarrow> rpc_post_process codec bytes (st\<lparr>rs_acc := acc\<rparr>))"

definition rpc_next_msg ::
  "rpc_codec \<Rightarrow> rpc_state \<Rightarrow> (rpc_error, bytes option) outcome \<times> rpc_state" where
  "rpc_next_msg codec st =
     (case acc_next_msg (rc_decode_size codec) (rs_acc st) of
        (None, acc) \<Rightarrow> (Done None, st\<lparr>rs_acc := acc\<rparr>)
      | (Some msg, acc) \<Rightarrow> rpc_post_process codec msg (st\<lparr>rs_acc := acc\<rparr>))"

lemma rpc_post_process_acc: "rs_acc (snd (rpc_post_process codec bytes st)) = rs_acc st"
  by (auto simp: rpc_post_process_def Let_def split: option.split message_header.split)

lemma rpc_next_msg_progress:
  assumes "rpc_next_msg codec st = (r, st')" and "r \<noteq> Done None"
  shows "acc_ahead (rs_acc st') < acc_ahead (rs_acc st)"
proof -
  obtain m acc where n: "acc_next_msg (rc_decode_size codec) (rs_acc st) = (m, acc)" by fastforce
  with assms obtain msg where "m = Some msg" by (cases m) (auto simp: rpc_next_msg_def)
  with n assms(1) acc_next_progress [of "rc_decode_size codec" "rs_acc st" msg acc]
    rpc_post_process_acc [of codec msg "st\<lparr>rs_acc := acc\<rparr>"]
  show ?thesis by (simp add: rpc_next_msg_def)
qed

section \<open>Where meshsub messages go\<close>

text \<open>
  What \<open>meshsub_sink\<close> uses of the context: the addresses of the known applications, the
  statistics per node, the tables of the database, and the aggregator if there is one.
\<close>

record ('x, 'p, 'e, 'w) sink_ops =
  sk_app :: "u32 \<Rightarrow> 'w \<Rightarrow> socket_addr option"
  sk_stats :: "socket_addr \<Rightarrow> 'w \<Rightarrow> ('x, 'p) stats_state option"
  sk_set_stats :: "socket_addr \<Rightarrow> ('x, 'p) stats_state \<Rightarrow> 'w \<Rightarrow> 'w"
  sk_stats_block_v2 :: "'p stat_event \<Rightarrow> 'w \<Rightarrow> ('e, unit) outcome \<times> 'w"
  sk_db_stats :: "u32 \<Rightarrow> socket_addr \<Rightarrow> 'p block_stat \<Rightarrow> 'w \<Rightarrow> ('e, unit) outcome \<times> 'w"
  sk_db_stats_tx :: "u32 \<Rightarrow> ('x, 'p) tx_stat \<Rightarrow> 'w \<Rightarrow> ('e, unit) outcome \<times> 'w"
  sk_has_aggregator :: bool
  sk_post_event :: "'p stat_event \<Rightarrow> 'w \<Rightarrow> 'w"

definition default_node_address :: socket_addr where
  "default_node_address = \<lparr>ip = V4 0, port = 8302\<rparr>"

definition sink_node_address :: "('x, 'p, 'e, 'w) sink_ops \<Rightarrow> directed_id \<Rightarrow> 'w \<Rightarrow> socket_addr" where
  "sink_node_address sk did w =
     (case sk_app sk (ci_pid (md_id (metadata did))) w of Some a \<Rightarrow> a | None \<Rightarrow> default_node_address)"

definition sink_args :: "directed_id \<Rightarrow> u64 \<Rightarrow> socket_addr \<Rightarrow> stat_args" where
  "sink_args did message_id node =
     \<lparr>sa_message_id = message_id, sa_incoming = incoming did, sa_time = md_time (metadata did),
      sa_better_time = md_better_time (metadata did), sa_peer = ci_addr (md_id (metadata did)),
      sa_node_address = node\<rparr>"

text \<open>\<open>r.unwrap()\<close> for a result whose value is not used.\<close>

definition unwrap_unit :: "('e, unit) outcome \<Rightarrow> ('e, unit) outcome" where
  "unwrap_unit r = (case r of Fail _ \<Rightarrow> Panic | _ \<Rightarrow> r)"

text \<open>What follows \<open>observe\<close>: events to the aggregator, then the two tables.\<close>

definition sink_store ::
  "('x, 'p, 'e, 'w) sink_ops \<Rightarrow> socket_addr \<Rightarrow> ('x, 'p) observing \<Rightarrow> 'w \<Rightarrow> ('e, unit) outcome \<times> 'w" where
  "sink_store sk node obs w =
     (case obs of (st, b, t, events) \<Rightarrow>
        (let w = (if sk_has_aggregator sk then foldl (\<lambda>w e. sk_post_event sk e w) w events else w);
             (r, w) = (if b then sk_db_stats sk (bs_height (ss_block_stat st)) node (ss_block_stat st) w else (Done (), w))
         in case unwrap_unit r of
              Done _ \<Rightarrow>
                (case ss_tx_stat st of
                   Some stat \<Rightarrow>
                     if t then
                       (let (r, w) = sk_db_stats_tx sk (bs_height (ss_block_stat st)) stat w in (unwrap_unit r, w))
                     else (Done (), w)
                 | None \<Rightarrow> (Done (), w))
            | r \<Rightarrow> (r, w)))"

definition meshsub_sink ::
  "('x, 'y, 'p) decode_ops \<Rightarrow> ('e, 'w) db_ops \<Rightarrow> ('x, 'p, 'e, 'w) sink_ops \<Rightarrow> directed_id \<Rightarrow> stream_id \<Rightarrow> bytes \<Rightarrow> 'w
     \<Rightarrow> ('e, unit) outcome \<times> 'w" where
  "meshsub_sink ops db sk did stream msg w =
     (let node = sink_node_address sk did w;
          (r, w) = db_add db stream did Kind_Meshsub msg w
      in case r of
           Done message_id \<Rightarrow>
             (let args = sink_args did message_id node;
                  (r, w) = update_block_stats ops (sk_stats_block_v2 sk) args msg w
              in case r of
                   Panic \<Rightarrow> (Panic, w)
                 | Hang \<Rightarrow> (Hang, w)
                 | _ \<Rightarrow>
                     (let st = (case sk_stats sk node w of Some st \<Rightarrow> st | None \<Rightarrow> stats_state_default) in
                      case observe ops args msg st of
                        None \<Rightarrow> (Panic, w)
                      | Some obs \<Rightarrow> sink_store sk node obs (sk_set_stats sk node (fst obs) w)))
         | Fail _ \<Rightarrow> (Done (), w)
         | Panic \<Rightarrow> (Panic, w)
         | Hang \<Rightarrow> (Hang, w))"

section \<open>The dispatcher\<close>

record mina_state =
  mp_stream_id :: stream_id
  mp_kind :: stream_kind
  mp_rpc_state :: "rpc_state option"
  mp_meshsub_state :: "accumulator option"

definition mina_from_name :: "string \<Rightarrow> stream_id \<Rightarrow> mina_state" where
  "mina_from_name name stream =
     (let kind = stream_kind_from_str name in
      \<lparr>mp_stream_id = stream, mp_kind = kind,
       mp_rpc_state = (if kind = Kind_Rpc then Some rpc_state_default else None),
       mp_meshsub_state = (if kind = Kind_Meshsub then Some accumulator_default else None)\<rparr>)"

text \<open>
  Storing one message of a stream; an error of the database is only logged. Then the loop over
  the messages in the buffer of an RPC stream, which errors do not stop, but \<open>Ok(None)\<close> does.
\<close>

definition add_logged ::
  "('e, 'w) db_ops \<Rightarrow> stream_id \<Rightarrow> directed_id \<Rightarrow> stream_kind \<Rightarrow> bytes \<Rightarrow> 'w \<Rightarrow> ('e, unit) outcome \<times> 'w" where
  "add_logged db stream did kind msg w =
     (let (r, w) = db_add db stream did kind msg w
      in (case r of Panic \<Rightarrow> Panic | Hang \<Rightarrow> Hang | _ \<Rightarrow> Done (), w))"

function rpc_loop ::
  "rpc_codec \<Rightarrow> ('e, 'w) db_ops \<Rightarrow> stream_id \<Rightarrow> directed_id \<Rightarrow> rpc_state \<Rightarrow> 'w \<Rightarrow> ('e, unit) outcome \<times> rpc_state \<times> 'w" where
  "rpc_loop codec db stream did st w =
     (case rpc_next_msg codec st of
        (Done None, st') \<Rightarrow> (Done (), st', w)
      | (Done (Some msg), st') \<Rightarrow>
          (case add_logged db stream did Kind_Rpc msg w of
             (Done _, w) \<Rightarrow> rpc_loop codec db stream did st' w
           | (r, w) \<Rightarrow> (r, st', w))
      | (Fail _, st') \<Rightarrow> rpc_loop codec db stream did st' w
      | (Panic, st') \<Rightarrow> (Panic, st', w)
      | (Hang, st') \<Rightarrow> (Hang, st', w))"
  by pat_completeness auto
termination
  by (relation "measure (\<lambda>(codec, db, stream, did, st, w). acc_ahead (rs_acc st))")
     (auto dest: rpc_next_msg_progress [OF sym])

declare rpc_loop.simps [simp del]

definition rpc_on_data ::
  "rpc_codec \<Rightarrow> ('e, 'w) db_ops \<Rightarrow> stream_id \<Rightarrow> directed_id \<Rightarrow> bytes \<Rightarrow> rpc_state \<Rightarrow> 'w
     \<Rightarrow> ('e, unit) outcome \<times> rpc_state \<times> 'w" where
  "rpc_on_data codec db stream did bytes st w =
     (case rpc_extend codec bytes st of
        (Fail _, st) \<Rightarrow> (Done (), st, w)
      | (Done None, st) \<Rightarrow> rpc_loop codec db stream did st w
      | (Done (Some msg), st) \<Rightarrow> (let (r, w) = add_logged db stream did Kind_Rpc msg w in (r, st, w))
      | (Panic, st) \<Rightarrow> (Panic, st, w)
      | (Hang, st) \<Rightarrow> (Hang, st, w))"

fun sink_all ::
  "('x, 'y, 'p) decode_ops \<Rightarrow> ('e, 'w) db_ops \<Rightarrow> ('x, 'p, 'e, 'w) sink_ops \<Rightarrow> directed_id \<Rightarrow> stream_id \<Rightarrow> bytes list \<Rightarrow> 'w
     \<Rightarrow> ('e, unit) outcome \<times> 'w" where
  "sink_all ops db sk did stream [] w = (Done (), w)"
| "sink_all ops db sk did stream (m # ms) w =
     (case meshsub_sink ops db sk did stream m w of
        (Done _, w) \<Rightarrow> sink_all ops db sk did stream ms w
      | (r, w) \<Rightarrow> (r, w))"

definition meshsub_on_data ::
  "varint_decoder \<Rightarrow> ('x, 'y, 'p) decode_ops \<Rightarrow> ('e, 'w) db_ops \<Rightarrow> ('x, 'p, 'e, 'w) sink_ops \<Rightarrow> stream_id \<Rightarrow> directed_id
     \<Rightarrow> bytes \<Rightarrow> accumulator \<Rightarrow> 'w \<Rightarrow> ('e, unit) outcome \<times> accumulator \<times> 'w" where
  "meshsub_on_data vdec ops db sk stream did bytes acc w =
     (case acc_feed (meshsub_decode_size vdec) bytes acc of
        (msgs, acc) \<Rightarrow> (let (r, w) = sink_all ops db sk did stream msgs w in (r, acc, w)))"

definition mina_on_data ::
  "rpc_codec \<Rightarrow> varint_decoder \<Rightarrow> ('x, 'y, 'p) decode_ops \<Rightarrow> ('e, 'w) db_ops \<Rightarrow> ('x, 'p, 'e, 'w) sink_ops
     \<Rightarrow> ('e, mina_state, 'w) on_data" where
  "mina_on_data codec vdec ops db sk did bytes st w =
     (let stream = mp_stream_id st;
          (r, st, w) =
            (if mp_kind st = Kind_Rpc then
               (case mp_rpc_state st of
                  None \<Rightarrow> (Panic, st, w)
                | Some rs \<Rightarrow>
                    (let (r, rs, w) = rpc_on_data codec db stream did bytes rs w
                     in (r, st\<lparr>mp_rpc_state := Some rs\<rparr>, w)))
             else if mp_kind st = Kind_Meshsub then
               (case mp_meshsub_state st of
                  None \<Rightarrow> (Panic, st, w)
                | Some acc \<Rightarrow>
                    (let (r, acc, w) = meshsub_on_data vdec ops db sk stream did bytes acc w
                     in (r, st\<lparr>mp_meshsub_state := Some acc\<rparr>, w)))
             else
               (let (r, w) = db_add db stream did (mp_kind st) bytes w
                in (map_outcome id (\<lambda>_. ()) r, st, w)))
      in case r of
           Done _ \<Rightarrow>
             (let (r, w) = db_update db (connection_stats_default\<lparr>stat_messages := 1\<rparr>) (incoming did) w
              in (r, st, db_drop db w))
         | _ \<Rightarrow> (r, st, db_drop db w))"

section \<open>A query and its response\<close>

text \<open>Processing messages one after the other, and the messages that are about a query.\<close>

definition rpc_run :: "rpc_codec \<Rightarrow> bytes list \<Rightarrow> rpc_state \<Rightarrow> rpc_state" where
  "rpc_run codec ms st = foldl (\<lambda>st m. snd (rpc_post_process codec m st)) st ms"

definition rpc_about :: "rpc_codec \<Rightarrow> i64 \<Rightarrow> bytes \<Rightarrow> bool" where
  "rpc_about codec i m =
     (case rc_decode_size codec m of
        None \<Rightarrow> False
      | Some (l0, _) \<Rightarrow>
          (case rc_read_header codec (drop l0 m) of
             Some (Query _ _ j, _) \<Rightarrow> j = i
           | Some (Response j, _) \<Rightarrow> j = i
           | _ \<Rightarrow> False))"

lemma rpc_post_process_other:
  "\<not> rpc_about codec i m \<Longrightarrow> rs_pending (snd (rpc_post_process codec m st)) i = rs_pending st i"
  by (auto simp: rpc_about_def rpc_post_process_def Let_def split: option.splits message_header.splits)

lemma rpc_run_other:
  "list_all (\<lambda>m. \<not> rpc_about codec i m) ms \<Longrightarrow> rs_pending (rpc_run codec ms st) i = rs_pending st i"
proof (induction ms arbitrary: st)
  case (Cons m ms)
  have "rpc_run codec (m # ms) st = rpc_run codec ms (snd (rpc_post_process codec m st))" by (simp add: rpc_run_def)
  with Cons rpc_post_process_other [of codec i m st] show ?case by simp
qed (simp add: rpc_run_def)

section \<open>The messages of an RPC stream\<close>

text \<open>
  Reference: the complete messages one by one, until one of them gives \<open>Ok(None)\<close>. The last
  component is what is not looked at.
\<close>

fun rpc_seq ::
  "rpc_codec \<Rightarrow> ('e, 'w) db_ops \<Rightarrow> stream_id \<Rightarrow> directed_id \<Rightarrow> bytes list \<Rightarrow> rpc_state \<Rightarrow> 'w
     \<Rightarrow> ('e, unit) outcome \<times> rpc_state \<times> 'w \<times> bytes list" where
  "rpc_seq codec db stream did [] st w = (Done (), st, w, [])"
| "rpc_seq codec db stream did (m # ms) st w =
     (case rpc_post_process codec m st of
        (Done None, st') \<Rightarrow> (Done (), st', w, ms)
      | (Done (Some msg), st') \<Rightarrow>
          (case add_logged db stream did Kind_Rpc msg w of
             (Done _, w) \<Rightarrow> rpc_seq codec db stream did ms st' w
           | (r, w) \<Rightarrow> (r, st', w, ms))
      | (Fail _, st') \<Rightarrow> rpc_seq codec db stream did ms st' w
      | (Panic, st') \<Rightarrow> (Panic, st', w, ms)
      | (Hang, st') \<Rightarrow> (Hang, st', w, ms))"

lemma rpc_post_process_set_acc:
  "rpc_post_process codec m (st\<lparr>rs_acc := acc\<rparr>) =
     (fst (rpc_post_process codec m st), (snd (rpc_post_process codec m st))\<lparr>rs_acc := acc\<rparr>)"
  by (auto simp: rpc_post_process_def Let_def split: option.split message_header.split)

text \<open>The reference and the code agree up to the buffer, which holds what is not looked at.\<close>

definition rpc_agree ::
  "('e, unit) outcome \<times> rpc_state \<times> 'w \<Rightarrow> ('e, unit) outcome \<times> rpc_state \<times> 'w \<times> bytes list \<Rightarrow> bytes \<Rightarrow> bool" where
  "rpc_agree x y r = (case (x, y) of ((a, st, w), (b, st', w', left)) \<Rightarrow>
     a = b \<and> w = w' \<and> rs_pending st = rs_pending st' \<and> acc_inv (rs_acc st) \<and>
     acc_rest (rs_acc st) = concat left @ r)"

lemma rpc_agree_cong:
  assumes "rpc_agree (rpc_loop codec db stream did st1 w) (rpc_seq codec db stream did ms st1 w) r"
    and "st1 = st'\<lparr>rs_acc := acc\<rparr>"
  shows "rpc_agree (rpc_loop codec db stream did (st'\<lparr>rs_acc := acc\<rparr>) w) (rpc_seq codec db stream did ms st' w) r"
proof -
  have "rpc_seq codec db stream did ms (s\<lparr>rs_acc := acc\<rparr>) w =
      (let (a, t, v, l) = rpc_seq codec db stream did ms s w in (a, t\<lparr>rs_acc := acc\<rparr>, v, l))" for s w
    by (induction codec db stream did ms s w rule: rpc_seq.induct)
      (auto simp: rpc_post_process_set_acc split: outcome.splits option.splits prod.splits)
  with assms show ?thesis by (auto simp: rpc_agree_def split: prod.splits)
qed

lemma drain_rest_concat:
  assumes "size_prefix ds" and "drain (acc_frame ds) bs = (ms, r)"
  shows "bs = concat ms @ r"
  using lossless_framing.drain_lossless [OF size_prefix.acc_lossless [OF assms(1)], of bs] assms(2) by simp

lemma drain_Cons_acc:
  assumes "drain (acc_frame ds) (acc_rest acc) = (m # ms, r)" and "size_prefix ds" and "acc_inv acc"
  obtains acc1 where "acc_next_msg ds acc = (Some m, acc1)" and "acc_inv acc1"
    and "drain (acc_frame ds) (acc_rest acc1) = (ms, r)"
proof -
  from assms(1) obtain n where f: "acc_frame ds (acc_rest acc) = Some (m, n)"
    and d: "drain (acc_frame ds) (drop n (acc_rest acc)) = (ms, r)"
    by (auto simp: drain.simps [of _ "acc_rest acc"] split: option.splits prod.splits if_splits)
  have "\<not> acc_overflow ds (acc_rest acc)"
    using f by (auto simp: acc_frame_def acc_overflow_def split: option.splits if_splits)
  from size_prefix.acc_next_frame [OF assms(2,3) this] f d show ?thesis
    by (cases "acc_next_msg ds acc") (auto intro: that)
qed

lemma rpc_loop_seq:
  fixes codec :: rpc_codec
  defines "ds \<equiv> rc_decode_size codec"
  assumes "size_prefix ds" and "acc_inv (rs_acc st)" and "drain (acc_frame ds) (acc_rest (rs_acc st)) = (ms, r)"
    and "\<not> acc_overflow ds r"
  shows "rpc_agree (rpc_loop codec db stream did st w) (rpc_seq codec db stream did ms st w) r"
  using assms(3,4)
proof (induction ms arbitrary: st w)
  case Nil
  hence "acc_frame ds (acc_rest (rs_acc st)) = None" "r = acc_rest (rs_acc st)"
    using framing.drain_Nil [OF lossless_framing.axioms(1) [OF size_prefix.acc_lossless [OF assms(2)]]] by simp_all
  with size_prefix.acc_next_frame [OF assms(2) Nil.prems(1)] assms(5)
  have "fst (acc_next_msg ds (rs_acc st)) = None" "acc_rest (snd (acc_next_msg ds (rs_acc st))) = r"
    "acc_inv (snd (acc_next_msg ds (rs_acc st)))" by simp_all
  thus ?case
    by (cases "acc_next_msg ds (rs_acc st)")
      (simp add: rpc_loop.simps [of codec db stream did st w] rpc_next_msg_def ds_def rpc_agree_def)
next
  case (Cons m ms)
  from drain_Cons_acc [OF Cons.prems(2) assms(2) Cons.prems(1)] obtain acc1 where
    n: "acc_next_msg ds (rs_acc st) = (Some m, acc1)" and i: "acc_inv acc1"
    and d: "drain (acc_frame ds) (acc_rest acc1) = (ms, r)" .
  obtain p st1 where pp: "rpc_post_process codec m st = (p, st1)" by fastforce
  have nx: "rpc_next_msg codec st = (p, st1\<lparr>rs_acc := acc1\<rparr>)"
    using n pp by (simp add: rpc_next_msg_def ds_def rpc_post_process_set_acc)
  have IH: "rpc_agree (rpc_loop codec db stream did (st1\<lparr>rs_acc := acc1\<rparr>) v) (rpc_seq codec db stream did ms st1 v) r" for v
    using rpc_agree_cong [OF Cons.IH [of "st1\<lparr>rs_acc := acc1\<rparr>" v] refl] i d by simp
  have rest: "acc_rest acc1 = concat ms @ r" using drain_rest_concat [OF assms(2) d] .
  note l = rpc_loop.simps [of codec db stream did st w] nx pp
  show ?case
  proof (cases p)
    case (Done x)
    show ?thesis
    proof (cases x)
      case (Some msg)
      obtain a v where al: "add_logged db stream did Kind_Rpc msg w = (a, v)" by fastforce
      show ?thesis using l Done Some al IH [of v] i rest by (cases a) (simp_all add: rpc_agree_def)
    qed (use l Done i rest in \<open>simp add: rpc_agree_def\<close>)
  qed (use l i rest IH in \<open>simp_all add: rpc_agree_def\<close>)
qed

section \<open>The messages of a meshsub stream\<close>

fun meshsub_feed ::
  "varint_decoder \<Rightarrow> ('x, 'y, 'p) decode_ops \<Rightarrow> ('e, 'w) db_ops \<Rightarrow> ('x, 'p, 'e, 'w) sink_ops \<Rightarrow> stream_id \<Rightarrow> directed_id
     \<Rightarrow> bytes list \<Rightarrow> accumulator \<Rightarrow> 'w \<Rightarrow> ('e, unit) outcome \<times> accumulator \<times> 'w" where
  "meshsub_feed vdec ops db sk stream did [] acc w = (Done (), acc, w)"
| "meshsub_feed vdec ops db sk stream did (c # cs) acc w =
     (case meshsub_on_data vdec ops db sk stream did c acc w of
        (Done _, acc, w) \<Rightarrow> meshsub_feed vdec ops db sk stream did cs acc w
      | (r, acc, w) \<Rightarrow> (r, acc, w))"

lemma sink_all_append:
  "sink_all ops db sk did stream (ms @ ns) w =
     (case sink_all ops db sk did stream ms w of
        (Done _, w) \<Rightarrow> sink_all ops db sk did stream ns w
      | (r, w) \<Rightarrow> (r, w))"
  by (induction ms arbitrary: w) (auto split: outcome.splits prod.splits)

lemma meshsub_feed_sink:
  assumes "acc_feed_chunks (meshsub_decode_size vdec) cs acc = (ms, acc')"
    and "fst (sink_all ops db sk did stream ms w) = Done ()"
  shows "meshsub_feed vdec ops db sk stream did cs acc w = (Done (), acc', snd (sink_all ops db sk did stream ms w))"
  using assms
proof (induction cs arbitrary: acc ms w)
  case (Cons c cs)
  obtain m1 a1 where f: "acc_feed (meshsub_decode_size vdec) c acc = (m1, a1)" by fastforce
  obtain m2 where m2: "acc_feed_chunks (meshsub_decode_size vdec) cs a1 = (m2, acc')" "ms = m1 @ m2"
    using Cons.prems(1) f by (auto split: prod.splits)
  obtain r1 w1 where s: "sink_all ops db sk did stream m1 w = (r1, w1)" by fastforce
  have "r1 = Done ()" "fst (sink_all ops db sk did stream m2 w1) = Done ()"
    using Cons.prems(2) m2(2) s by (cases r1; simp add: sink_all_append)+
  with Cons.IH [OF m2(1), of w1] f s m2(2) show ?case
    by (simp add: meshsub_on_data_def sink_all_append)
qed simp

lemma put_block_events_not_Hang:
  assumes "\<And>e v. fst (put e v) \<noteq> Hang"
  shows "fst (put_block_events put a es v) \<noteq> Hang"
  using assms
proof (induction put a es v rule: put_block_events.induct)
  case (2 put a e es w)
  show ?case
  proof (cases "block_event a e")
    case (Some ev)
    obtain r w1 where p: "put ev w = (r, w1)" by fastforce
    have "r \<noteq> Hang" using 2(3) [of ev w] p by simp
    thus ?thesis using 2(2) [OF Some p [symmetric]] 2(3) Some p by (cases r) simp_all
  qed (use 2(1,3) in simp)
qed simp_all

section \<open>Instances for examples\<close>

text \<open>
  A codec with sizes of 8 bytes in little endian, in which a header is one byte for the message
  and one for its id, and a sink that counts what it is given.
\<close>

definition sample_size :: size_decoder where
  "sample_size bs = (if length bs < 8 then None else Some (8, from_le (take 8 bs)))"

definition sample_codec :: rpc_codec where
  "sample_codec = \<lparr>rc_decode_size = sample_size,
     rc_read_header = (\<lambda>bs. case bs of
         a # b # _ \<Rightarrow> Some (if a = 0 then Heartbeat else if a = 1 then Query [7] 1 (ucast b) else Response (ucast b), 2)
       | _ \<Rightarrow> None),
     rc_write_query = (\<lambda>tag v i. Some (tag @ [ucast v, ucast i]))\<rparr>"

definition sample_sink :: "(unit, nat, string, (stream_id \<times> stream_kind \<times> bytes) list) sink_ops" where
  "sample_sink = \<lparr>sk_app = (\<lambda>p w. None), sk_stats = (\<lambda>a w. None), sk_set_stats = (\<lambda>a st w. w),
     sk_stats_block_v2 = (\<lambda>e w. (Done (), w)), sk_db_stats = (\<lambda>h a b w. (Done (), w)),
     sk_db_stats_tx = (\<lambda>h t w. (Done (), w)), sk_has_aggregator = False, sk_post_event = (\<lambda>e w. w)\<rparr>"

lemma sample_size_prefix: "size_prefix sample_size"
  by unfold_locales (auto simp: sample_size_def split: if_splits)

section \<open>Properties\<close>

text \<open>C19: A response is stored as a message of its own with the header of its query: whatever is processed
  between the query and the response, as long as it is not about the same id, the response is
  found to belong to the query, is rewritten with the tag and version of the query, announces
  its new length, and the query is no longer pending.\<close>

theorem rpc_response_rewritten:
  assumes "rc_decode_size codec qb = Some (lq, nq)" and "lq \<le> length qb"
    and "rc_read_header codec (drop lq qb) = Some (Query tag version i, pq)"
    and "list_all (\<lambda>m. \<not> rpc_about codec i m) between"
    and "rc_decode_size codec rb = Some (8, nr)" and "8 \<le> length rb"
    and "rc_read_header codec (drop 8 rb) = Some (Response i, pr)"
    and "rc_write_query codec tag version i = Some q"
    and "length q + length rb < 2 ^ 63"
  shows "\<exists>st' m. rpc_post_process codec rb (rpc_run codec between (snd (rpc_post_process codec qb st))) = (Done (Some m), st') \<and>
    fst (rpc_post_process codec qb st) = Done (Some qb) \<and>
    m = to_le 8 (length m - 8) @ [2] @ q @ drop (8 + pr) rb \<and> from_le (take 8 m) = length m - 8 \<and>
    rs_pending st' i = None"
proof -
  let ?q = "rpc_post_process codec qb st"
  have q: "?q = (Done (Some qb), st\<lparr>rs_pending := (rs_pending st)(i \<mapsto> \<lparr>rh_tag = tag, rh_version = version\<rparr>)\<rparr>)"
    using assms(1-3) by (simp add: rpc_post_process_def)
  define st1 where "st1 = rpc_run codec between (snd ?q)"
  have p: "rs_pending st1 i = Some \<lparr>rh_tag = tag, rh_version = version\<rparr>"
    using rpc_run_other [OF assms(4)] q by (simp add: st1_def)
  define body where "body = [2] @ q @ drop (8 + pr) rb"
  have b: "[2] @ q @ drop (min pr (length (drop 8 rb))) (drop 8 rb) = body" by (simp add: body_def min_def add.commute)
  have lb: "length body < 2 ^ 64" using assms(9) by (simp add: body_def)
  hence u: "unat (of_nat (8 + length body) - of_nat 8 :: u64) = length body" by (simp add: unat_of_nat)
  have s: "\<not> length rb < 8" using assms(6) by simp
  have r: "rpc_post_process codec rb st1 =
      (Done (Some (to_le 8 (length body) @ body)), st1\<lparr>rs_pending := (rs_pending st1)(i := None)\<rparr>)"
    by (simp only: rpc_post_process_def Let_def assms(5,7,8) p option.case prod.case message_header.case
        rpc_header.select_convs b u s if_False)
  have "from_le (to_le 8 (length body)) = length body" using lb by (simp add: from_to_le)
  thus ?thesis using r q by (simp add: st1_def body_def)
qed

theorem rpc_response_rewritten_witness:
  "\<exists>st' m. rpc_post_process sample_codec [3, 0, 0, 0, 0, 0, 0, 0, 2, 5, 9]
     (rpc_run sample_codec [] (snd (rpc_post_process sample_codec [2, 0, 0, 0, 0, 0, 0, 0, 1, 5] rpc_state_default))) =
       (Done (Some m), st') \<and> m = [5, 0, 0, 0, 0, 0, 0, 0, 2, 7, 1, 5, 9] \<and> rs_pending st' 5 = None"
proof -
  have "\<exists>st' m. rpc_post_process sample_codec [3, 0, 0, 0, 0, 0, 0, 0, 2, 5, 9]
      (rpc_run sample_codec [] (snd (rpc_post_process sample_codec [2, 0, 0, 0, 0, 0, 0, 0, 1, 5] rpc_state_default))) =
        (Done (Some m), st') \<and>
      fst (rpc_post_process sample_codec [2, 0, 0, 0, 0, 0, 0, 0, 1, 5] rpc_state_default) = Done (Some [2, 0, 0, 0, 0, 0, 0, 0, 1, 5]) \<and>
      m = to_le 8 (length m - 8) @ [2] @ [7, 1, 5] @ drop (8 + 2) [3, 0, 0, 0, 0, 0, 0, 0, 2, 5, 9] \<and>
      from_le (take 8 m) = length m - 8 \<and> rs_pending st' 5 = None"
    by (rule rpc_response_rewritten [where tag = "[7]" and version = 1 and lq = 8 and nq = 2 and nr = 3 and pq = 2])
       (simp_all add: sample_codec_def sample_size_def from_le_def from_be_def)
  then obtain st' m where m: "rpc_post_process sample_codec [3, 0, 0, 0, 0, 0, 0, 0, 2, 5, 9]
      (rpc_run sample_codec [] (snd (rpc_post_process sample_codec [2, 0, 0, 0, 0, 0, 0, 0, 1, 5] rpc_state_default))) =
        (Done (Some m), st')" "m = to_le 8 (length m - 8) @ [2, 7, 1, 5, 9]" "rs_pending st' 5 = None" by auto
  have "length m = 13" using arg_cong [OF m(2), of length] by simp
  moreover have "to_le 8 5 = [5, 0, 0, 0, 0, 0, 0, 0]" by code_simp
  ultimately have "m = [5, 0, 0, 0, 0, 0, 0, 0, 2, 7, 1, 5, 9]" using m(2) by simp
  with m show ?thesis by blast
qed

text \<open>C20: A chunk of an RPC stream does what processing the complete messages of the buffer one by one
  does, until a message that is not stored (a heartbeat, an unreadable header, the menu): from
  there on the messages stay in the buffer until the next chunk. Nothing is lost.\<close>

theorem rpc_loop_sequential:
  assumes "size_prefix (rc_decode_size codec)" and "acc_inv (rs_acc st)"
    and "drain (acc_frame (rc_decode_size codec)) (acc_rest (rs_acc st)) = (ms, r)"
    and "\<not> acc_overflow (rc_decode_size codec) r"
  shows "case (rpc_loop codec db stream did st w, rpc_seq codec db stream did ms st w) of
    ((a, st1, w1), (b, st2, w2, left)) \<Rightarrow> a = b \<and> w1 = w2 \<and> rs_pending st1 = rs_pending st2 \<and>
      acc_rest (rs_acc st1) = concat left @ r"
  using rpc_loop_seq [OF assms, of db stream did w] by (auto simp: rpc_agree_def)

theorem rpc_loop_sequential_witness:
  "case (rpc_loop sample_codec list_db Handshake (sample_did True)
      (rpc_state_default\<lparr>rs_acc := \<lparr>acc_pos = 0, acc_buf = [2, 0, 0, 0, 0, 0, 0, 0, 0, 5, 2, 0, 0, 0, 0, 0, 0, 0, 1, 5]\<rparr>\<rparr>) [],
     rpc_seq sample_codec list_db Handshake (sample_did True) [[2, 0, 0, 0, 0, 0, 0, 0, 0, 5], [2, 0, 0, 0, 0, 0, 0, 0, 1, 5]]
      (rpc_state_default\<lparr>rs_acc := \<lparr>acc_pos = 0, acc_buf = [2, 0, 0, 0, 0, 0, 0, 0, 0, 5, 2, 0, 0, 0, 0, 0, 0, 0, 1, 5]\<rparr>\<rparr>) []) of
    ((a, st1, w1), (b, st2, w2, left)) \<Rightarrow> a = b \<and> w1 = w2 \<and> acc_rest (rs_acc st1) = concat left @ []"
proof -
  let ?st = "rpc_state_default\<lparr>rs_acc := \<lparr>acc_pos = 0, acc_buf = [2, 0, 0, 0, 0, 0, 0, 0, 0, 5, 2, 0, 0, 0, 0, 0, 0, 0, 1, 5]\<rparr>\<rparr>"
  let ?f = "acc_frame sample_size"
  have s: "rc_decode_size sample_codec = sample_size" by (simp add: sample_codec_def)
  have f: "?f [2, 0, 0, 0, 0, 0, 0, 0, 0, 5, 2, 0, 0, 0, 0, 0, 0, 0, 1, 5] = Some ([2, 0, 0, 0, 0, 0, 0, 0, 0, 5], 10)"
    "?f [2, 0, 0, 0, 0, 0, 0, 0, 1, 5] = Some ([2, 0, 0, 0, 0, 0, 0, 0, 1, 5], 10)" "?f [] = None"
    "\<not> acc_overflow sample_size []"
    by (simp_all add: acc_frame_def acc_overflow_def sample_size_def from_le_def from_be_def)
  have d: "drain ?f (acc_rest (rs_acc ?st)) = ([[2, 0, 0, 0, 0, 0, 0, 0, 0, 5], [2, 0, 0, 0, 0, 0, 0, 0, 1, 5]], [])"
    by (simp add: acc_rest_def drain.simps [of ?f "[2, 0, 0, 0, 0, 0, 0, 0, 0, 5, 2, 0, 0, 0, 0, 0, 0, 0, 1, 5]"]
        drain.simps [of ?f "[2, 0, 0, 0, 0, 0, 0, 0, 1, 5]"] drain_None f)
  have i: "acc_inv (rs_acc ?st)" by (simp add: acc_inv_def)
  from rpc_loop_sequential [of sample_codec, unfolded s, OF sample_size_prefix i d f(4), of list_db Handshake "sample_did True" "[]"]
  show ?thesis by (auto split: prod.splits)
qed

text \<open>C27: However a meshsub stream is cut into chunks, the sink gets exactly its complete messages in
  order, and only an incomplete message stays in the buffer.\<close>

theorem meshsub_stream_sink:
  assumes "varint vdec" and "drain (acc_frame (meshsub_decode_size vdec)) (concat cs) = (ms, r)"
    and "\<not> acc_overflow (meshsub_decode_size vdec) r"
    and "sink_all ops db sk did stream ms w = (Done (), w')"
  shows "\<exists>acc. meshsub_feed vdec ops db sk stream did cs accumulator_default w = (Done (), acc, w') \<and> acc_rest acc = r"
proof -
  have sp: "size_prefix (meshsub_decode_size vdec)" by (rule varint.meshsub_prefix [OF assms(1)])
  have n: "acc_frame (meshsub_decode_size vdec) [] = None"
    by (auto simp: acc_frame_def dest: size_prefix.size_bounds [OF sp] split: option.split)
  have "acc_rest accumulator_default = []" "acc_inv accumulator_default"
    by (simp_all add: accumulator_default_def acc_rest_def acc_inv_def)
  with size_prefix.acc_feed_chunks_drain [OF sp, of accumulator_default cs ms r] assms(2,3) n
  obtain acc where a: "acc_feed_chunks (meshsub_decode_size vdec) cs accumulator_default = (ms, acc)" "acc_rest acc = r"
    by auto
  from meshsub_feed_sink [OF a(1), of ops db sk did stream w] assms(4) a(2) show ?thesis by simp
qed

lemma sample_sink_msg:
  "meshsub_sink sample_ops list_db sample_sink (sample_did True) (Forward 1) [8, 2, 0, 0, 0, 0, 0, 0, 9] w =
     (Done (), w @ [(Forward 1, Kind_Meshsub, [8, 2, 0, 0, 0, 0, 0, 0, 9])])"
  by (simp add: meshsub_sink_def list_db_def sample_sink_def update_block_stats_def parse_it_def sample_ops_def
      publish_items_def publish_event_def observe_def sink_store_def stats_state_default_def unwrap_unit_def Let_def)

theorem meshsub_stream_sink_witness:
  "\<exists>acc. meshsub_feed leb_u64 sample_ops list_db sample_sink (Forward 1) (sample_did True)
      [[8, 2, 0, 0], [0, 0, 0, 0, 9, 1]] accumulator_default [] =
     (Done (), acc, [(Forward 1, Kind_Meshsub, [8, 2, 0, 0, 0, 0, 0, 0, 9])]) \<and> acc_rest acc = [1]"
proof -
  let ?f = "acc_frame (meshsub_decode_size leb_u64)"
  have f: "?f [8, 2, 0, 0, 0, 0, 0, 0, 9, 1] = Some ([8, 2, 0, 0, 0, 0, 0, 0, 9], 9)" "?f [1] = None"
    "\<not> acc_overflow (meshsub_decode_size leb_u64) [1]"
    by (simp_all add: acc_frame_def acc_overflow_def meshsub_decode_size_def leb_u64_small)
  have d: "drain ?f (concat [[8, 2, 0, 0], [0, 0, 0, 0, 9, 1]]) = ([[8, 2, 0, 0, 0, 0, 0, 0, 9]], [1])"
    by (simp add: drain.simps [of ?f "[8, 2, 0, 0, 0, 0, 0, 0, 9, 1]"] drain_None f)
  have s: "sink_all sample_ops list_db sample_sink (sample_did True) (Forward 1) [[8, 2, 0, 0, 0, 0, 0, 0, 9]] [] =
      (Done (), [(Forward 1, Kind_Meshsub, [8, 2, 0, 0, 0, 0, 0, 0, 9])])" by (simp add: sample_sink_msg)
  from meshsub_stream_sink [OF leb128.varint_axioms d f(3) s] show ?thesis by simp
qed

text \<open>C28: A meshsub message that can be decoded and is stored, but publishes less than 8 bytes of data,
  stops the recorder with a panic.\<close>

theorem meshsub_sink_panics:
  assumes "pb_rpc_decode ops msg = Some rpc" and "\<exists>m data. m \<in> set (rpc_publish rpc) \<and> pm_data m = Some data \<and> length data < 8"
    and "db_add db stream did Kind_Meshsub msg w = (Done i, wa)"
    and "\<And>e v. fst (sk_stats_block_v2 sk e v) \<noteq> Hang"
  shows "fst (meshsub_sink ops db sk did stream msg w) = Panic"
proof -
  obtain es where es: "parse_it ops msg False True = Inr es" using assms(1) by (simp add: parse_it_def)
  have p: "Panic \<in> set es"
  proof -
    from assms(2) obtain m where m: "m \<in> set (rpc_publish rpc)" "Panic \<in> set (publish_items ops False True m)"
      using publish_items_Panic by blast
    thus ?thesis using es assms(1) by (auto simp: parse_it_def)
  qed
  have "observe_all ops a es obs = None" if "Panic \<in> set es" for a obs
    using that by (induction ops a es obs rule: observe_all.induct) (auto split: option.splits)
  hence o: "observe ops a msg st = None" for a st using p es by (simp add: observe_def)
  from put_block_events_not_Hang [of "sk_stats_block_v2 sk", OF assms(4)]
  have u: "fst (update_block_stats ops (sk_stats_block_v2 sk) a msg v) \<noteq> Hang" for a v
    using es by (simp add: update_block_stats_def)
  show ?thesis
    using assms(3) o u [of "sink_args did i (sink_node_address sk did w)" wa]
    by (auto simp: meshsub_sink_def Let_def split: prod.splits outcome.splits)
qed

theorem meshsub_sink_panics_witness:
  "fst (meshsub_sink sample_ops list_db sample_sink (sample_did True) (Forward 1) [2, 1, 2] []) = Panic"
  by (rule meshsub_sink_panics [where rpc = "the (pb_rpc_decode sample_ops [2, 1, 2])" and i = 0
        and wa = "[(Forward 1, Kind_Meshsub, [2, 1, 2])]"])
     (auto simp: sample_ops_def list_db_def sample_sink_def)

end
