(* ===== verification/Recorder.thy ===== *)
theory Recorder
  imports Mplex Multistream Pnet KeyRecover MinaProtocol
begin

text \<open>
  The recorder (\<open>mina-recorder/src/recorder.rs\<close>, \<open>connection/mux.rs\<close>): the stack of protocol layers
  of a connection, and \<open>P2pRecorder\<close>, which runs one thread per connection and sends it the chunks
  that the node reads and writes. A thread is a queue of chunks with the state of the connection;
  the interleavings of the main thread and the connection threads are the runs of a step relation.
\<close>

section \<open>The multiplexer that was negotiated\<close>

datatype 'i mux_state = MuxMplex "'i mplex_state" | MuxYamux "'i yamux_state"

definition mux_from_name :: "string \<Rightarrow> stream_id \<Rightarrow> 'i mux_state option" where
  "mux_from_name name s =
     (if name = ''/coda/mplex/1.0.0'' then map_option MuxMplex (mplex_from_name name)
      else if name = ''/coda/yamux/1.0.0'' then map_option MuxYamux (yamux_from_name name)
      else None)"

definition mux_on_data ::
  "varint_decoder \<Rightarrow> (bytes \<Rightarrow> string) \<Rightarrow> ('e, 'w) db_ops \<Rightarrow> (stream_id \<Rightarrow> 'i) \<Rightarrow> ('e, 'i, 'w) on_data
     \<Rightarrow> ('e, 'i mux_state, 'w) on_data" where
  "mux_on_data vdec hexenc db mk inner did bytes st w =
     (case st of
        MuxMplex s \<Rightarrow> (let (r, s, w) = mplex_on_data vdec hexenc db mk inner did bytes s w in (r, MuxMplex s, w))
      | MuxYamux s \<Rightarrow> (let (r, s, w) = yamux_on_data db mk inner did bytes s w in (r, MuxYamux s, w)))"

section \<open>The layers of a connection\<close>

text \<open>Everything the layers use: third-party code, the keys, the context and the database.\<close>

record ('k, 's, 'c, 'x, 'y, 'p, 'e, 'w) stack_ops =
  so_vdec :: varint_decoder
  so_blake2b :: "bytes \<Rightarrow> bytes"
  so_new_cipher :: "bytes \<Rightarrow> bytes \<Rightarrow> 'k"
  so_apply_keystream :: "'k \<Rightarrow> bytes \<Rightarrow> bytes \<times> 'k"
  so_noise :: "('s, 'c) noise_ops"
  so_keys :: key_db
  so_cx :: "('e, 'w) cx_ops"
  so_db :: "('e, 'w) db_ops"
  so_rpc :: rpc_codec
  so_decode :: "('x, 'y, 'p) decode_ops"
  so_sink :: "('x, 'p, 'e, 'w) sink_ops"
  so_decode_error :: "decode_error \<Rightarrow> 'e"

type_synonym inner_state = "mina_state ms_state"
type_synonym encrypted_state = "inner_state mux_state ms_state"
type_synonym ('s, 'c) noise_layer_state = "('s, 'c, encrypted_state) noise_state chunk_state ms_state"
type_synonym ('k, 's, 'c) cn_state = "('k, ('s, 'c) noise_layer_state) pnet_state"

definition inner_on_data ::
  "('k, 's, 'c, 'x, 'y, 'p, 'e, 'w) stack_ops \<Rightarrow> ('e, inner_state, 'w) on_data" where
  "inner_on_data so = ms_on_data (so_vdec so) (so_db so) (\<lambda>n s. Some (mina_from_name n s))
     (mina_on_data (so_rpc so) (so_vdec so) (so_decode so) (so_db so) (so_sink so))"

definition encrypted_on_data ::
  "('k, 's, 'c, 'x, 'y, 'p, 'e, 'w) stack_ops \<Rightarrow> ('e, encrypted_state, 'w) on_data" where
  "encrypted_on_data so = ms_on_data (so_vdec so) (so_db so) mux_from_name
     (mux_on_data (so_vdec so) (hex_encode (so_decode so)) (so_db so) ms_from (inner_on_data so))"

text \<open>The context of the noise layer decodes handshake payloads with \<open>decode::noise::payload\<close>.\<close>

definition stack_cx :: "('k, 's, 'c, 'x, 'y, 'p, 'e, 'w) stack_ops \<Rightarrow> ('e, 'w) cx_ops" where
  "stack_cx so = (so_cx so)\<lparr>handshake_payload := (\<lambda>b.
     case noise_payload (so_decode so) b of Inl e \<Rightarrow> Fail (so_decode_error so e) | Inr p \<Rightarrow> Done p)\<rparr>"

definition noise_layer_on_data ::
  "('k, 's, 'c, 'x, 'y, 'p, 'e, 'w) stack_ops \<Rightarrow> ('e, ('s, 'c) noise_layer_state, 'w) on_data" where
  "noise_layer_on_data so = ms_on_data (so_vdec so) (so_db so)
     (\<lambda>n s. Some (chunk_from_name (noise_from_name ms_from) n s))
     (chunk_on_data (noise_on_data (so_noise so) (so_keys so) (stack_cx so) (so_db so) (encrypted_on_data so)))"

definition cn_new :: "('k, 's, 'c, 'x, 'y, 'p, 'e, 'w) stack_ops \<Rightarrow> bytes \<Rightarrow> ('k, 's, 'c) cn_state" where
  "cn_new so chain_id = pnet_new (so_blake2b so) ms_from chain_id"

definition cn_on_data ::
  "('k, 's, 'c, 'x, 'y, 'p, 'e, 'w) stack_ops \<Rightarrow> ('e, ('k, 's, 'c) cn_state, 'w) on_data" where
  "cn_on_data so = pnet_on_data (so_new_cipher so) (so_apply_keystream so) (so_db so) (noise_layer_on_data so)"

section \<open>Names of applications and networks\<close>

definition chains :: "(string \<times> string) list" where
  "chains =
     [(''mainnet'', ''/coda/0.0.1/5f704cc0c82e0ed70e873f0893d7e06f148524e3f0bdae2afb02e7819a0c24d1''),
      (''devnet'', ''/coda/0.0.1/b6ee40d336f4cc3f33c1cc04dee7618eb8e556664c2b2d82ad4676b512a82418''),
      (''berkeley'', ''/coda/0.0.1/fb30d090bb37e8aa354114d8c794b0f7072648a67bd1a08613684ac6f7c86028'')]"

fun split_char :: "char \<Rightarrow> string \<Rightarrow> string list" where
  "split_char d [] = [[]]"
| "split_char d (c # s) =
     (if c = d then [] # split_char d s
      else case split_char d s of [] \<Rightarrow> [[c]] | p # ps \<Rightarrow> (c # p) # ps)"

definition chain_id_of :: "string \<Rightarrow> string \<Rightarrow> string" where
  "chain_id_of suggested_chain_id name =
     (if suggested_chain_id \<noteq> [] then suggested_chain_id
      else
        let network = hd (split_char CHR ''-'' name) in
        case map_of chains network of Some v \<Rightarrow> v | None \<Rightarrow> network)"

text \<open>\<open>std::net::IpAddr\<close> is parsed by \<open>ip_from_str\<close>.\<close>

definition alias_addr :: "(string \<Rightarrow> ip_addr option) \<Rightarrow> string \<Rightarrow> socket_addr" where
  "alias_addr ip_from_str name =
     (let parts = split_char CHR ''-'' name;
          s = (if 1 < length parts then parts ! 1 else ''0.0.0.0'')
      in \<lparr>ip = (case ip_from_str s of Some i \<Rightarrow> i | None \<Rightarrow> V4 0), port = 8302\<rparr>)"

section \<open>Connections and their threads\<close>

record network_chunk =
  nc_metadata :: event_metadata
  nc_data :: bytes
  nc_incoming :: bool
  nc_buffered :: nat

datatype thread_status = Running | Dead | Hung

record ('g, 'cn) conn_thread =
  th_group :: 'g
  th_cn :: 'cn
  th_queue :: "network_chunk list"
  th_status :: thread_status

record ('g, 'cn) conn_context =
  cc_group :: 'g
  cc_cn :: 'cn

text \<open>
  \<open>rec_detached\<close> are the threads of connections that were replaced by a new connection with the
  same address and descriptors: they still work on their queues, but nobody sends to them.
\<close>

record ('g, 'cn) p2p_recorder =
  rec_apps :: "u32 \<rightharpoonup> string \<times> socket_addr"
  rec_cns :: "connection_info \<rightharpoonup> ('g, 'cn) conn_thread"
  rec_main :: "connection_info \<rightharpoonup> ('g, 'cn) conn_context"
  rec_detached :: "('g, 'cn) conn_thread list"

definition recorder_new :: "('g, 'cn) p2p_recorder" where
  "recorder_new = \<lparr>rec_apps = Map.empty, rec_cns = Map.empty, rec_main = Map.empty, rec_detached = []\<rparr>"

text \<open>
  What the recorder uses: adding a connection to the database, dropping the handle of its group,
  the new state of a connection for a chain id, and its handler.
\<close>

record ('g, 'cn, 'e, 'w) rec_ops =
  ro_add :: "connection_info \<Rightarrow> bool \<Rightarrow> string \<Rightarrow> duration \<Rightarrow> 'w \<Rightarrow> ('e, 'g) outcome \<times> 'w"
  ro_drop :: "'g \<Rightarrow> 'w \<Rightarrow> 'w"
  ro_cn_new :: "bytes \<Rightarrow> 'cn"
  ro_on_data :: "'g \<Rightarrow> ('e, 'cn, 'w) on_data"

definition app_alias :: "('g, 'cn) p2p_recorder \<Rightarrow> event_metadata \<Rightarrow> string" where
  "app_alias r md = (case rec_apps r (ci_pid (md_id md)) of Some (a, _) \<Rightarrow> a | None \<Rightarrow> [])"

definition mk_did :: "('g, 'cn) p2p_recorder \<Rightarrow> event_metadata \<Rightarrow> bool \<Rightarrow> nat \<Rightarrow> directed_id" where
  "mk_did r md inc buf = \<lparr>metadata = md, did_alias = app_alias r md, incoming = inc, buffered = buf\<rparr>"

definition pid_to_addr :: "('g, 'cn) p2p_recorder \<Rightarrow> u32 \<Rightarrow> socket_addr" where
  "pid_to_addr r pid = (case rec_apps r pid of Some (_, addr) \<Rightarrow> addr | None \<Rightarrow> \<lparr>ip = V4 0, port = 0\<rparr>)"

definition set_port :: "u32 \<Rightarrow> u16 \<Rightarrow> ('g, 'cn) p2p_recorder \<Rightarrow> ('g, 'cn) p2p_recorder" where
  "set_port pid p r =
     (case rec_apps r pid of
        None \<Rightarrow> r
      | Some (a, addr) \<Rightarrow> r\<lparr>rec_apps := (rec_apps r)(pid \<mapsto> (a, addr\<lparr>port := p\<rparr>))\<rparr>)"

definition on_alias :: "(string \<Rightarrow> ip_addr option) \<Rightarrow> u32 \<Rightarrow> string \<Rightarrow> ('g, 'cn) p2p_recorder \<Rightarrow> ('g, 'cn) p2p_recorder" where
  "on_alias ip_from_str pid name r =
     r\<lparr>rec_apps := (rec_apps r)(pid \<mapsto> (name, alias_addr ip_from_str name))\<rparr>"

definition on_connect ::
  "('g, 'cn, 'e, 'w) rec_ops \<Rightarrow> bool \<Rightarrow> bool \<Rightarrow> event_metadata \<Rightarrow> string \<Rightarrow> ('g, 'cn) p2p_recorder \<Rightarrow> 'w
     \<Rightarrow> ('g, 'cn) p2p_recorder \<times> 'w" where
  "on_connect ro main_thread inc md suggested_chain_id r w =
     (let name = app_alias r md; info = md_id md;
          cn = ro_cn_new ro (as_bytes (chain_id_of suggested_chain_id name));
          (res, w) = ro_add ro info inc name (md_time md) w
      in case res of
           Done g \<Rightarrow>
             if main_thread then
               (r\<lparr>rec_main := (rec_main r)(info \<mapsto> \<lparr>cc_group = g, cc_cn = cn\<rparr>)\<rparr>,
                case rec_main r info of None \<Rightarrow> w | Some c \<Rightarrow> ro_drop ro (cc_group c) w)
             else
               (r\<lparr>rec_cns := (rec_cns r)(info \<mapsto> \<lparr>th_group = g, th_cn = cn, th_queue = [], th_status = Running\<rparr>),
                  rec_detached := rec_detached r @ (case rec_cns r info of None \<Rightarrow> [] | Some t \<Rightarrow> [t])\<rparr>, w)
         | _ \<Rightarrow> (r, w))"

text \<open>One turn of the loop of a thread: an error is logged, a panic ends the thread.\<close>

definition thread_turn ::
  "('g, 'cn, 'e, 'w) rec_ops \<Rightarrow> ('g, 'cn) p2p_recorder \<Rightarrow> ('g, 'cn) conn_thread \<Rightarrow> 'w \<Rightarrow> ('g, 'cn) conn_thread \<times> 'w" where
  "thread_turn ro r t w =
     (case th_queue t of
        [] \<Rightarrow> (t, w)
      | c # q \<Rightarrow>
          if th_status t \<noteq> Running then (t, w)
          else
            let did = mk_did r (nc_metadata c) (nc_incoming c) (nc_buffered c);
                (res, cn, w) = ro_on_data ro (th_group t) did (nc_data c) (th_cn t) w;
                t = t\<lparr>th_cn := cn, th_queue := q\<rparr>
            in case res of
                 Panic \<Rightarrow> (t\<lparr>th_status := Dead\<rparr>, ro_drop ro (th_group t) w)
               | Hang \<Rightarrow> (t\<lparr>th_status := Hung\<rparr>, w)
               | _ \<Rightarrow> (t, w))"

text \<open>What \<open>join\<close> waits for: the thread works off its queue, and drops its handle of the group.\<close>

function thread_finish ::
  "('g, 'cn, 'e, 'w) rec_ops \<Rightarrow> ('g, 'cn) p2p_recorder \<Rightarrow> ('g, 'cn) conn_thread \<Rightarrow> 'w \<Rightarrow> ('g, 'cn) conn_thread \<times> 'w" where
  "thread_finish ro r t w =
     (if th_queue t = [] \<or> th_status t \<noteq> Running then
        (t, if th_status t = Running then ro_drop ro (th_group t) w else w)
      else (let (t, w) = thread_turn ro r t w in thread_finish ro r t w))"
  by pat_completeness auto
termination
  by (relation "measure (\<lambda>(ro, r, t, w). length (th_queue t))")
     (auto simp: thread_turn_def Let_def split: list.splits prod.splits outcome.splits if_splits)

declare thread_finish.simps [simp del]

definition on_disconnect ::
  "('g, 'cn, 'e, 'w) rec_ops \<Rightarrow> event_metadata \<Rightarrow> ('g, 'cn) p2p_recorder \<Rightarrow> 'w
     \<Rightarrow> (unit, unit) outcome \<times> ('g, 'cn) p2p_recorder \<times> 'w" where
  "on_disconnect ro md r w =
     (let info = md_id md in
      case rec_cns r info of
        Some t \<Rightarrow>
          (let (t, w) = thread_finish ro r t w in
           (if th_status t = Hung then Hang else Done (), r\<lparr>rec_cns := (rec_cns r)(info := None)\<rparr>, w))
      | None \<Rightarrow>
          (case rec_main r info of
             Some c \<Rightarrow> (Done (), r\<lparr>rec_main := (rec_main r)(info := None)\<rparr>, ro_drop ro (cc_group c) w)
           | None \<Rightarrow> (Done (), r, w)))"

definition on_data_main ::
  "('g, 'cn, 'e, 'w) rec_ops \<Rightarrow> bool \<Rightarrow> event_metadata \<Rightarrow> nat \<Rightarrow> bytes \<Rightarrow> ('g, 'cn) p2p_recorder \<Rightarrow> 'w
     \<Rightarrow> (unit, unit) outcome \<times> ('g, 'cn) p2p_recorder \<times> 'w" where
  "on_data_main ro inc md buf bytes r w =
     (case rec_main r (md_id md) of
        None \<Rightarrow> (Done (), r, w)
      | Some c \<Rightarrow>
          (let (res, cn, w) = ro_on_data ro (cc_group c) (mk_did r md inc buf) bytes (cc_cn c) w;
               r = r\<lparr>rec_main := (rec_main r)(md_id md \<mapsto> c\<lparr>cc_cn := cn\<rparr>)\<rparr>
           in (case res of Panic \<Rightarrow> Panic | Hang \<Rightarrow> Hang | _ \<Rightarrow> Done (), r, w)))"

text \<open>Sending to a thread that ended is ignored (\<open>unwrap_or_default\<close>).\<close>

definition on_data_rec ::
  "('g, 'cn, 'e, 'w) rec_ops \<Rightarrow> bool \<Rightarrow> event_metadata \<Rightarrow> nat \<Rightarrow> bytes \<Rightarrow> ('g, 'cn) p2p_recorder \<Rightarrow> 'w
     \<Rightarrow> (unit, unit) outcome \<times> ('g, 'cn) p2p_recorder \<times> 'w" where
  "on_data_rec ro inc md buf bytes r w =
     (case rec_cns r (md_id md) of
        Some t \<Rightarrow>
          (Done (),
           r\<lparr>rec_cns := (rec_cns r)(md_id md \<mapsto>
             (if th_status t = Dead then t
              else t\<lparr>th_queue := th_queue t @ [\<lparr>nc_metadata = md, nc_data = bytes, nc_incoming = inc, nc_buffered = buf\<rparr>]\<rparr>))\<rparr>, w)
      | None \<Rightarrow> on_data_main ro inc md buf bytes r w)"

section \<open>Runs of the recorder\<close>

text \<open>
  The actions: a connection is accepted by the database or refused, a chunk is sent, a connection
  ends, an application gets a name or a port, and a thread takes a turn.
\<close>

datatype act =
    AConnect bool bool event_metadata string
  | ARefused bool bool event_metadata string
  | AData bool event_metadata nat bytes
  | ADisconnect event_metadata
  | AAlias u32 string
  | APort u32 u16
  | ATurn connection_info
  | ADetached nat

inductive rec_run ::
  "(string \<Rightarrow> ip_addr option) \<Rightarrow> ('g, 'cn, 'e, 'w) rec_ops \<Rightarrow> 'w \<Rightarrow> act list \<Rightarrow> ('g, 'cn) p2p_recorder \<Rightarrow> 'w \<Rightarrow> bool"
  for ipf ro w0 where
  start: "rec_run ipf ro w0 [] recorder_new w0"
| connect: "rec_run ipf ro w0 as r w \<Longrightarrow>
    ro_add ro (md_id md) inc (app_alias r md) (md_time md) w = (Done g, w1) \<Longrightarrow>
    on_connect ro main inc md chain r w = (r', w') \<Longrightarrow>
    rec_run ipf ro w0 (as @ [AConnect main inc md chain]) r' w'"
| refused: "rec_run ipf ro w0 as r w \<Longrightarrow>
    \<nexists>g w1. ro_add ro (md_id md) inc (app_alias r md) (md_time md) w = (Done g, w1) \<Longrightarrow>
    on_connect ro main inc md chain r w = (r', w') \<Longrightarrow>
    rec_run ipf ro w0 (as @ [ARefused main inc md chain]) r' w'"
| data: "rec_run ipf ro w0 as r w \<Longrightarrow> on_data_rec ro inc md buf bytes r w = (Done (), r', w') \<Longrightarrow>
    rec_run ipf ro w0 (as @ [AData inc md buf bytes]) r' w'"
| disconnect: "rec_run ipf ro w0 as r w \<Longrightarrow> on_disconnect ro md r w = (Done (), r', w') \<Longrightarrow>
    rec_run ipf ro w0 (as @ [ADisconnect md]) r' w'"
| named: "rec_run ipf ro w0 as r w \<Longrightarrow> rec_run ipf ro w0 (as @ [AAlias pid name]) (on_alias ipf pid name r) w"
| ported: "rec_run ipf ro w0 as r w \<Longrightarrow> rec_run ipf ro w0 (as @ [APort pid p]) (set_port pid p r) w"
| turn: "rec_run ipf ro w0 as r w \<Longrightarrow> rec_cns r info = Some t \<Longrightarrow> thread_turn ro r t w = (t', w') \<Longrightarrow>
    rec_run ipf ro w0 (as @ [ATurn info]) (r\<lparr>rec_cns := (rec_cns r)(info \<mapsto> t')\<rparr>) w'"
| detached: "rec_run ipf ro w0 as r w \<Longrightarrow> i < length (rec_detached r) \<Longrightarrow>
    thread_turn ro r (rec_detached r ! i) w = (t', w') \<Longrightarrow>
    rec_run ipf ro w0 (as @ [ADetached i]) (r\<lparr>rec_detached := (rec_detached r)[i := t']\<rparr>) w'"

text \<open>A handler that also notes what it was called with.\<close>

definition chunk_of :: "directed_id \<Rightarrow> bytes \<Rightarrow> network_chunk" where
  "chunk_of did b = \<lparr>nc_metadata = metadata did, nc_data = b, nc_incoming = incoming did, nc_buffered = buffered did\<rparr>"

definition noting :: "('e, 'cn, 'w) on_data \<Rightarrow> ('e, 'cn \<times> network_chunk list, 'w) on_data" where
  "noting h did b s w =
     (case s of (cn, log) \<Rightarrow> (let (r, cn, w) = h did b cn w in (r, (cn, log @ [chunk_of did b]), w)))"

definition noting_ops :: "('g, 'cn, 'e, 'w) rec_ops \<Rightarrow> ('g, 'cn \<times> network_chunk list, 'e, 'w) rec_ops" where
  "noting_ops ro = \<lparr>ro_add = ro_add ro, ro_drop = ro_drop ro, ro_cn_new = (\<lambda>c. (ro_cn_new ro c, [])),
     ro_on_data = (\<lambda>g. noting (ro_on_data ro g))\<rparr>"

text \<open>The chunks that were sent to the present connection of an address.\<close>

definition sent_step :: "connection_info \<Rightarrow> network_chunk list \<Rightarrow> act \<Rightarrow> network_chunk list" where
  "sent_step info cs a = (case a of
     AConnect main inc md chain \<Rightarrow> if md_id md = info \<and> \<not> main then [] else cs
   | AData inc md buf b \<Rightarrow>
       if md_id md = info then cs @ [\<lparr>nc_metadata = md, nc_data = b, nc_incoming = inc, nc_buffered = buf\<rparr>] else cs
   | _ \<Rightarrow> cs)"

definition sent :: "connection_info \<Rightarrow> act list \<Rightarrow> network_chunk list" where
  "sent info as = foldl (sent_step info) [] as"

definition th_history :: "('g, 'cn \<times> network_chunk list) conn_thread \<Rightarrow> network_chunk list" where
  "th_history t = snd (th_cn t) @ th_queue t"

definition th_good :: "network_chunk list \<Rightarrow> ('g, 'cn \<times> network_chunk list) conn_thread \<Rightarrow> bool" where
  "th_good cs t = ((\<exists>lost. th_history t @ lost = cs) \<and> (th_status t \<noteq> Dead \<longrightarrow> th_history t = cs))"

definition rec_good :: "act list \<Rightarrow> ('g, 'cn \<times> network_chunk list) p2p_recorder \<Rightarrow> bool" where
  "rec_good as r = (\<forall>info t. rec_cns r info = Some t \<longrightarrow> th_good (sent info as) t)"

lemma thread_turn_history:
  assumes "thread_turn (noting_ops ro) r t w = (t', w')"
  shows "th_history t' = th_history t \<and> (th_status t = Dead \<longrightarrow> t' = t)"
proof (cases "th_queue t")
  case Nil
  with assms show ?thesis by (simp add: thread_turn_def)
next
  case (Cons c q)
  have c: "chunk_of (mk_did r (nc_metadata c) (nc_incoming c) (nc_buffered c)) (nc_data c) = c"
    by (simp add: chunk_of_def mk_did_def)
  show ?thesis
  proof (cases "th_status t = Running")
    case True
    obtain res cn w1 where h: "ro_on_data ro (th_group t) (mk_did r (nc_metadata c) (nc_incoming c) (nc_buffered c))
        (nc_data c) (fst (th_cn t)) w = (res, cn, w1)" by (metis prod.exhaust)
    with assms Cons True c show ?thesis
      by (cases res) (auto simp: thread_turn_def noting_ops_def noting_def split_beta th_history_def)
  qed (use assms Cons in \<open>simp add: thread_turn_def\<close>)
qed

lemma thread_turn_good:
  assumes "thread_turn (noting_ops ro) r t w = (t', w')" and "th_good cs t"
  shows "th_good cs t'"
  using thread_turn_history [OF assms(1)] assms(2) by (auto simp: th_good_def)

lemma th_good_push:
  assumes "th_good cs t"
  shows "th_good (cs @ [c]) (if th_status t = Dead then t else t\<lparr>th_queue := th_queue t @ [c]\<rparr>)"
proof (cases "th_status t = Dead")
  case True
  from assms obtain lost where "th_history t @ lost = cs" by (auto simp: th_good_def)
  hence "th_history t @ (lost @ [c]) = cs @ [c]" by simp
  thus ?thesis using True by (auto simp: th_good_def)
qed (use assms in \<open>auto simp: th_good_def th_history_def\<close>)

lemma sent_snoc: "sent info (as @ [a]) = sent_step info (sent info as) a"
  by (simp add: sent_def)

lemma rec_good_same:
  assumes "rec_good as r" and "rec_cns r' = rec_cns r" and "\<And>info cs. sent_step info cs a = cs"
  shows "rec_good (as @ [a]) r'"
  using assms by (simp add: rec_good_def sent_snoc)

lemma rec_run_good:
  assumes "rec_run ipf (noting_ops ro) w0 as r w"
  shows "rec_good as r"
  using assms
proof induction
  case start
  show ?case by (simp add: rec_good_def recorder_new_def)
next
  case (connect as r w md inc g w1 main chain r' w')
  show ?case
  proof (cases main)
    case True
    with connect show ?thesis
      by (auto simp: rec_good_def sent_snoc sent_step_def on_connect_def Let_def noting_ops_def)
  next
    case False
    hence "rec_cns r' = (rec_cns r)(md_id md \<mapsto> \<lparr>th_group = g,
        th_cn = (ro_cn_new ro (as_bytes (chain_id_of chain (app_alias r md))), []), th_queue = [], th_status = Running\<rparr>)"
      using connect(2,3) by (auto simp: on_connect_def Let_def noting_ops_def)
    with connect.IH False show ?thesis
      by (auto simp: rec_good_def sent_snoc sent_step_def th_good_def th_history_def)
  qed
next
  case (refused as r w md inc main chain r' w')
  have "rec_cns r' = rec_cns r"
    using refused(2,3) by (auto simp: on_connect_def Let_def split: prod.splits outcome.splits)
  thus ?case using rec_good_same [OF refused.IH] by (simp add: sent_step_def)
next
  case (data as r w inc md buf bytes r' w')
  show ?case
  proof (cases "rec_cns r (md_id md)")
    case None
    hence "rec_cns r' = rec_cns r"
      using data(2) by (auto simp: on_data_rec_def on_data_main_def Let_def split: option.splits prod.splits)
    with None data.IH show ?thesis by (auto simp: rec_good_def sent_snoc sent_step_def)
  next
    case (Some t)
    define c where "c = \<lparr>nc_metadata = md, nc_data = bytes, nc_incoming = inc, nc_buffered = buf\<rparr>"
    have "th_good (sent (md_id md) as) t" using data.IH Some by (simp add: rec_good_def)
    note g = th_good_push [OF this, of c]
    have r': "rec_cns r' = (rec_cns r)(md_id md \<mapsto> (if th_status t = Dead then t else t\<lparr>th_queue := th_queue t @ [c]\<rparr>))"
      using data(2) Some by (auto simp: on_data_rec_def c_def)
    have s: "sent info (as @ [AData inc md buf bytes]) = (if md_id md = info then sent info as @ [c] else sent info as)" for info
      by (simp add: sent_snoc sent_step_def c_def)
    show ?thesis unfolding rec_good_def
    proof (intro allI impI)
      fix info u
      assume u: "rec_cns r' info = Some u"
      show "th_good (sent info (as @ [AData inc md buf bytes])) u"
        using u g data.IH by (cases "md_id md = info") (auto simp: r' s rec_good_def)
    qed
  qed
next
  case (disconnect as r w md r' w')
  have "\<forall>info t. rec_cns r' info = Some t \<longrightarrow> rec_cns r info = Some t"
    using disconnect(2) by (auto simp: on_disconnect_def Let_def split: option.splits prod.splits if_splits)
  with disconnect.IH show ?case by (auto simp: rec_good_def sent_snoc sent_step_def)
next
  case (named as r w pid name)
  thus ?case using rec_good_same [OF named.IH] by (simp add: sent_step_def on_alias_def)
next
  case (ported as r w pid p)
  have "rec_cns (set_port pid p r) = rec_cns r" by (simp add: set_port_def split: option.split)
  thus ?case using rec_good_same [OF ported.IH] by (simp add: sent_step_def)
next
  case (turn as r w info t t' w')
  have "th_good (sent info as) t'"
    using thread_turn_good [OF turn(3)] turn.IH turn(2) by (simp add: rec_good_def)
  with turn.IH show ?case by (auto simp: rec_good_def sent_snoc sent_step_def)
next
  case (detached as r w i t' w')
  thus ?case using rec_good_same [OF detached.IH] by (simp add: sent_step_def)
qed

lemma thread_finish_history:
  assumes "thread_finish (noting_ops ro) r t w = (t', w')"
  shows "th_history t' = th_history t \<and> (th_status t' = Running \<longrightarrow> th_queue t' = []) \<and>
    (th_status t = Dead \<longrightarrow> th_status t' = Dead)"
  using assms
proof (induction "noting_ops ro" r t w rule: thread_finish.induct)
  case (1 r t w)
  show ?case
  proof (cases "th_queue t = [] \<or> th_status t \<noteq> Running")
    case True
    with 1(2) show ?thesis by (auto simp: thread_finish.simps [of "noting_ops ro" r t w] split: if_splits)
  next
    case False
    obtain t1 w1 where t1: "thread_turn (noting_ops ro) r t w = (t1, w1)" by fastforce
    with 1(2) False have "thread_finish (noting_ops ro) r t1 w1 = (t', w')"
      by (simp add: thread_finish.simps [of "noting_ops ro" r t w])
    from 1(1) [OF False t1 [symmetric] refl this] thread_turn_history [OF t1] False show ?thesis by simp
  qed
qed

section \<open>Properties\<close>


definition sample_rec :: "(unit, unit, string, unit) rec_ops" where
  "sample_rec = \<lparr>ro_add = (\<lambda>i inc a t w. (Done (), w)), ro_drop = (\<lambda>g w. w), ro_cn_new = (\<lambda>c. ()),
     ro_on_data = (\<lambda>g did b cn w. (Done (), cn, w))\<rparr>"


end
