(* ===== verification/Coding.thy ===== *)
theory Coding
  imports Stats
begin

text \<open>
  The binary form of what the database stores: \<open>mina-recorder/src/custom_coding.rs\<close>,
  \<open>chunk.rs\<close>, \<open>database/index.rs\<close> and the coded types of \<open>database/types.rs\<close>. The crate
  \<open>radiation\<close> codes integers, strings and byte arrays and is a parameter, the record \<open>radiation\<close>;
  its derive macros code a structure as its fields in order and an enumeration as its tag followed
  by the fields, a variant without an explicit tag has the tag of its predecessor plus one. The
  locale \<open>radiation_laws\<close> states what the program relies on. Lemmas: every coding can be read back,
  with the exceptions that the code has, and keys of one index are ordered by message id.
\<close>

section \<open>The crate radiation\<close>

text \<open>\<open>absorb\<close> gives the value and what follows it; the state of the outcome is the input left.\<close>

type_synonym 'a absorb = "bytes \<Rightarrow> (unit, 'a) outcome \<times> bytes"

record radiation =
  emit_u8 :: "u8 \<Rightarrow> bytes"
  absorb_u8 :: "u8 absorb"
  emit_u16 :: "u16 \<Rightarrow> bytes"
  absorb_u16 :: "u16 absorb"
  emit_u32 :: "u32 \<Rightarrow> bytes"
  absorb_u32 :: "u32 absorb"
  emit_u64 :: "u64 \<Rightarrow> bytes"
  absorb_u64 :: "u64 absorb"
  emit_i64 :: "u64 \<Rightarrow> bytes"
  absorb_i64 :: "u64 absorb"
  emit_bool :: "bool \<Rightarrow> bytes"
  absorb_bool :: "bool absorb"
  emit_vec :: "bytes \<Rightarrow> bytes"
  absorb_vec :: "bytes absorb"
  emit_string :: "string \<Rightarrow> bytes"
  absorb_string :: "string absorb"
  emit_array :: "bytes \<Rightarrow> bytes"
  absorb_array :: "nat \<Rightarrow> bytes absorb"
  rest_ok :: "bytes \<Rightarrow> bool"

text \<open>\<open>absorb_ext\<close> reads a value from a whole buffer; whether it accepts a rest is up to the crate.\<close>

definition absorb_ext :: "radiation \<Rightarrow> 'a absorb \<Rightarrow> bytes \<Rightarrow> (unit, 'a) outcome" where
  "absorb_ext rd p bs =
     (case p bs of (Done v, r) \<Rightarrow> if rest_ok rd r then Done v else Fail () | (e, _) \<Rightarrow> e)"

locale radiation_laws =
  fixes rd :: radiation
  assumes u8_rt: "absorb_u8 rd (emit_u8 rd a @ r) = (Done a, r)"
    and u16_rt: "absorb_u16 rd (emit_u16 rd b @ r) = (Done b, r)"
    and u32_rt: "absorb_u32 rd (emit_u32 rd c @ r) = (Done c, r)"
    and u64_rt: "absorb_u64 rd (emit_u64 rd d @ r) = (Done d, r)"
    and i64_rt: "absorb_i64 rd (emit_i64 rd d @ r) = (Done d, r)"
    and bool_rt: "absorb_bool rd (emit_bool rd e @ r) = (Done e, r)"
    and vec_rt: "length bs < 2 ^ 32 \<Longrightarrow> absorb_vec rd (emit_vec rd bs @ r) = (Done bs, r)"
    and string_rt: "length s < 2 ^ 32 \<Longrightarrow> absorb_string rd (emit_string rd s @ r) = (Done s, r)"
    and array_rt: "length bs = n \<Longrightarrow> absorb_array rd n (emit_array rd bs @ r) = (Done bs, r)"
    and u8_bytes: "emit_u8 rd a = [a]"
    and u16_bytes: "emit_u16 rd b = u16_be b"
    and u32_bytes: "emit_u32 rd c = u32_be c"
    and u64_bytes: "emit_u64 rd d = u64_be d"
    and i64_bytes: "emit_i64 rd d = u64_be d"
    and bool_bytes: "length (emit_bool rd e) = 1"
    and array_bytes: "emit_array rd bs = bs"
    and rest_nil: "rest_ok rd []"
begin

lemmas read_back = u8_rt u16_rt u32_rt u64_rt i64_rt bool_rt

lemma ext_rt:
  assumes "\<And>r. p (bs @ r) = (Done v, r)"
  shows "absorb_ext rd p bs = Done v"
  using assms [of "[]"] rest_nil by (simp add: absorb_ext_def)

end

section \<open>Custom codings\<close>

text \<open>
  \<open>Duration::new\<close> carries the nanoseconds over and panics when the seconds overflow. A
  \<open>SystemTime\<close> has signed seconds, so that \<open>UNIX_EPOCH + d\<close> panics from \<open>2^63\<close> seconds on.
\<close>

definition duration_new :: "u64 \<Rightarrow> u32 \<Rightarrow> duration option" where
  "duration_new secs nanos =
     (let s = unat secs + unat nanos div 1000000000 in
      if s < 2 ^ 64 then Some \<lparr>as_secs = of_nat s, subsec_nanos = nanos mod 1000000000\<rparr> else None)"

definition duration_absorb :: "radiation \<Rightarrow> duration absorb" where
  "duration_absorb rd bs =
     bind_outcome (absorb_u64 rd bs) (\<lambda>secs bs. bind_outcome (absorb_u32 rd bs) (\<lambda>nanos bs.
       case duration_new secs nanos of None \<Rightarrow> (Panic, bs) | Some d \<Rightarrow> (Done d, bs)))"

definition duration_emit :: "radiation \<Rightarrow> duration \<Rightarrow> bytes" where
  "duration_emit rd value = emit_u64 rd (as_secs value) @ emit_u32 rd (subsec_nanos value)"

definition duration_opt_absorb :: "radiation \<Rightarrow> duration option absorb" where
  "duration_opt_absorb rd bs = bind_outcome (duration_absorb rd bs) (\<lambda>duration bs.
     (Done (if duration = duration_zero then None else Some duration), bs))"

definition duration_opt_emit :: "radiation \<Rightarrow> duration option \<Rightarrow> bytes" where
  "duration_opt_emit rd value = duration_emit rd (case value of None \<Rightarrow> duration_zero | Some d \<Rightarrow> d)"

definition time_absorb :: "radiation \<Rightarrow> duration absorb" where
  "time_absorb rd bs = bind_outcome (duration_absorb rd bs) (\<lambda>d bs.
     if as_secs d < 0x8000000000000000 then (Done d, bs) else (Panic, bs))"

definition time_emit :: "radiation \<Rightarrow> duration \<Rightarrow> bytes" where
  "time_emit rd value = duration_emit rd value"

definition v4_mapped_prefix :: bytes where
  "v4_mapped_prefix = replicate 10 0 @ [0xff, 0xff]"

definition addr_absorb :: "radiation \<Rightarrow> socket_addr absorb" where
  "addr_absorb rd bs =
     bind_outcome (absorb_array rd 16 bs) (\<lambda>octets bs. bind_outcome (absorb_u16 rd bs) (\<lambda>p bs.
       (Done (if take 12 octets = v4_mapped_prefix then \<lparr>ip = V4 (be_u32 (drop 12 octets)), port = p\<rparr>
              else \<lparr>ip = V6 (of_nat (from_be octets)), port = p\<rparr>), bs)))"

definition addr_octets :: "ip_addr \<Rightarrow> bytes" where
  "addr_octets a = (case a of V6 w \<Rightarrow> to_be 16 (unat w) | V4 w \<Rightarrow> v4_mapped_prefix @ u32_be w)"

definition addr_emit :: "radiation \<Rightarrow> socket_addr \<Rightarrow> bytes" where
  "addr_emit rd value = emit_array rd (addr_octets (ip value)) @ emit_u16 rd (port value)"

definition peer_id_absorb :: "radiation \<Rightarrow> (bytes \<Rightarrow> 'p option) \<Rightarrow> 'p absorb" where
  "peer_id_absorb rd from_bytes bs = bind_outcome (absorb_vec rd bs) (\<lambda>v bs.
     case from_bytes v of None \<Rightarrow> (Fail (), bs) | Some p \<Rightarrow> (Done p, bs))"

definition peer_id_emit :: "radiation \<Rightarrow> ('p \<Rightarrow> bytes) \<Rightarrow> 'p \<Rightarrow> bytes" where
  "peer_id_emit rd to_bytes value = emit_vec rd (to_bytes value)"

definition binprot_absorb :: "radiation \<Rightarrow> (bytes \<Rightarrow> 't option) \<Rightarrow> 't absorb" where
  "binprot_absorb rd binprot_read bs = bind_outcome (absorb_vec rd bs) (\<lambda>v bs.
     case binprot_read v of None \<Rightarrow> (Fail (), bs) | Some p \<Rightarrow> (Done p, bs))"

definition binprot_emit :: "radiation \<Rightarrow> ('t \<Rightarrow> bytes) \<Rightarrow> 't \<Rightarrow> bytes" where
  "binprot_emit rd binprot_write value = emit_vec rd (binprot_write value)"

section \<open>Coded types of the database\<close>

definition stream_kind_emit :: "radiation \<Rightarrow> stream_kind \<Rightarrow> bytes" where
  "stream_kind_emit rd k = emit_u16 rd (stream_kind_u16 k)"

definition stream_kind_absorb :: "radiation \<Rightarrow> stream_kind absorb" where
  "stream_kind_absorb rd bs = bind_outcome (absorb_u16 rd bs) (\<lambda>d bs. (Done (stream_kind_of_u16 d), bs))"

definition stream_id_emit :: "radiation \<Rightarrow> stream_id \<Rightarrow> bytes" where
  "stream_id_emit rd s = emit_i64 rd (stream_id_code s)"

definition stream_id_absorb :: "radiation \<Rightarrow> stream_id absorb" where
  "stream_id_absorb rd bs = bind_outcome (absorb_i64 rd bs) (\<lambda>d bs. (Done (stream_id_of_code d), bs))"

definition connection_info_emit :: "radiation \<Rightarrow> connection_info \<Rightarrow> bytes" where
  "connection_info_emit rd v =
     addr_emit rd (ci_addr v) @ emit_u32 rd (ci_pid v) @ emit_u32 rd (ci_fd v)"

definition connection_info_absorb :: "radiation \<Rightarrow> connection_info absorb" where
  "connection_info_absorb rd bs =
     bind_outcome (addr_absorb rd bs) (\<lambda>a bs. bind_outcome (absorb_u32 rd bs) (\<lambda>p bs.
     bind_outcome (absorb_u32 rd bs) (\<lambda>f bs. (Done \<lparr>ci_addr = a, ci_pid = p, ci_fd = f\<rparr>, bs))))"

definition connection_stats_emit :: "radiation \<Rightarrow> connection_stats \<Rightarrow> bytes" where
  "connection_stats_emit rd v =
     emit_u64 rd (total_bytes v) @ emit_u64 rd (decrypted_bytes v) @
     emit_u64 rd (decrypted_chunks v) @ emit_u64 rd (stat_messages v)"

definition connection_stats_absorb :: "radiation \<Rightarrow> connection_stats absorb" where
  "connection_stats_absorb rd bs =
     bind_outcome (absorb_u64 rd bs) (\<lambda>t bs. bind_outcome (absorb_u64 rd bs) (\<lambda>d bs.
     bind_outcome (absorb_u64 rd bs) (\<lambda>c bs. bind_outcome (absorb_u64 rd bs) (\<lambda>m bs.
       (Done \<lparr>total_bytes = t, decrypted_bytes = d, decrypted_chunks = c, stat_messages = m\<rparr>, bs)))))"

record connection =
  cn_info :: connection_info
  cn_incoming :: bool
  cn_timestamp :: duration
  cn_stats_in :: connection_stats
  cn_stats_out :: connection_stats
  cn_timestamp_close :: duration
  cn_alias :: string

definition connection_emit :: "radiation \<Rightarrow> connection \<Rightarrow> bytes" where
  "connection_emit rd v =
     connection_info_emit rd (cn_info v) @ emit_bool rd (cn_incoming v) @
     time_emit rd (cn_timestamp v) @ connection_stats_emit rd (cn_stats_in v) @
     connection_stats_emit rd (cn_stats_out v) @ time_emit rd (cn_timestamp_close v) @
     emit_string rd (cn_alias v)"

definition connection_absorb :: "radiation \<Rightarrow> connection absorb" where
  "connection_absorb rd bs =
     bind_outcome (connection_info_absorb rd bs) (\<lambda>i bs. bind_outcome (absorb_bool rd bs) (\<lambda>inc bs.
     bind_outcome (time_absorb rd bs) (\<lambda>t bs. bind_outcome (connection_stats_absorb rd bs) (\<lambda>si bs.
     bind_outcome (connection_stats_absorb rd bs) (\<lambda>so bs. bind_outcome (time_absorb rd bs) (\<lambda>tc bs.
     bind_outcome (absorb_string rd bs) (\<lambda>a bs.
       (Done \<lparr>cn_info = i, cn_incoming = inc, cn_timestamp = t, cn_stats_in = si, cn_stats_out = so,
              cn_timestamp_close = tc, cn_alias = a\<rparr>, bs))))))))"

record message =
  msg_connection_id :: u64
  msg_stream_id :: stream_id
  msg_stream_kind :: stream_kind
  msg_incoming :: bool
  msg_timestamp :: duration
  msg_offset :: u64
  msg_size :: u32
  msg_brief :: string

definition message_emit :: "radiation \<Rightarrow> message \<Rightarrow> bytes" where
  "message_emit rd v =
     emit_u64 rd (msg_connection_id v) @ stream_id_emit rd (msg_stream_id v) @
     stream_kind_emit rd (msg_stream_kind v) @ emit_bool rd (msg_incoming v) @
     time_emit rd (msg_timestamp v) @ emit_u64 rd (msg_offset v) @ emit_u32 rd (msg_size v) @
     emit_string rd (msg_brief v)"

definition message_absorb :: "radiation \<Rightarrow> message absorb" where
  "message_absorb rd bs =
     bind_outcome (absorb_u64 rd bs) (\<lambda>c bs. bind_outcome (stream_id_absorb rd bs) (\<lambda>s bs.
     bind_outcome (stream_kind_absorb rd bs) (\<lambda>k bs. bind_outcome (absorb_bool rd bs) (\<lambda>inc bs.
     bind_outcome (time_absorb rd bs) (\<lambda>t bs. bind_outcome (absorb_u64 rd bs) (\<lambda>off bs.
     bind_outcome (absorb_u32 rd bs) (\<lambda>sz bs. bind_outcome (absorb_string rd bs) (\<lambda>b bs.
       (Done \<lparr>msg_connection_id = c, msg_stream_id = s, msg_stream_kind = k, msg_incoming = inc,
              msg_timestamp = t, msg_offset = off, msg_size = sz, msg_brief = b\<rparr>, bs)))))))))"

section \<open>Message types and keys\<close>

definition message_type_tag :: "message_type \<Rightarrow> u16" where
  "message_type_tag t = (case t of
     MtSubscribe \<Rightarrow> 0x0100 | MtUnsubscribe \<Rightarrow> 0x0101 | MtPublishNewState \<Rightarrow> 0x0102
   | MtPublishSnarkPoolDiff \<Rightarrow> 0x0103 | MtPublishTransactionPoolDiff \<Rightarrow> 0x0104
   | MtControlIHave \<Rightarrow> 0x0105 | MtControlIWant \<Rightarrow> 0x0106 | MtControlGraft \<Rightarrow> 0x0107
   | MtControlPrune \<Rightarrow> 0x0108
   | MtPutValue \<Rightarrow> 0x0200 | MtGetValue \<Rightarrow> 0x0201 | MtAddProvider \<Rightarrow> 0x0202
   | MtGetProviders \<Rightarrow> 0x0203 | MtFindNode \<Rightarrow> 0x0204 | MtPing \<Rightarrow> 0x0205
   | MtHandshakePayload \<Rightarrow> 0x0300 | MtFailedToDecrypt \<Rightarrow> 0x0301
   | MtRpcMenu \<Rightarrow> 0x0400 | MtGetSomeInitialPeers \<Rightarrow> 0x0401
   | MtGetStagedLedgerAuxAndPendingCoinbasesAtHash \<Rightarrow> 0x0402 | MtAnswerSyncLedgerQuery \<Rightarrow> 0x0403
   | MtGetAncestry \<Rightarrow> 0x0404 | MtGetBestTip \<Rightarrow> 0x0405 | MtGetNodeStatus \<Rightarrow> 0x0406
   | MtGetTransitionChainProof \<Rightarrow> 0x0407 | MtGetTransitionChain \<Rightarrow> 0x0408
   | MtGetTransitionKnowledge \<Rightarrow> 0x0409 | MtGetEpochLedger \<Rightarrow> 0x040a | MtBanNotify \<Rightarrow> 0x040b
   | MtIdentify \<Rightarrow> 0x0500 | MtIdentifyPush \<Rightarrow> 0x0501 | MtPeerExchange \<Rightarrow> 0x0600
   | MtBitswapExchange \<Rightarrow> 0x0700 | MtNodeStatus \<Rightarrow> 0x0800 | MtSelect \<Rightarrow> 0x0900
   | MtMplex \<Rightarrow> 0x0a00 | MtYamux \<Rightarrow> 0x0b00)"

definition message_types :: "message_type list" where
  "message_types =
     [MtSubscribe, MtUnsubscribe, MtPublishNewState, MtPublishSnarkPoolDiff,
      MtPublishTransactionPoolDiff, MtControlIHave, MtControlIWant, MtControlGraft, MtControlPrune,
      MtPutValue, MtGetValue, MtAddProvider, MtGetProviders, MtFindNode, MtPing,
      MtHandshakePayload, MtFailedToDecrypt,
      MtRpcMenu, MtGetSomeInitialPeers, MtGetStagedLedgerAuxAndPendingCoinbasesAtHash,
      MtAnswerSyncLedgerQuery, MtGetAncestry, MtGetBestTip, MtGetNodeStatus,
      MtGetTransitionChainProof, MtGetTransitionChain, MtGetTransitionKnowledge, MtGetEpochLedger,
      MtBanNotify, MtIdentify, MtIdentifyPush, MtPeerExchange, MtBitswapExchange, MtNodeStatus,
      MtSelect, MtMplex, MtYamux]"

definition message_type_emit :: "radiation \<Rightarrow> message_type \<Rightarrow> bytes" where
  "message_type_emit rd t = emit_u16 rd (message_type_tag t)"

definition message_type_absorb :: "radiation \<Rightarrow> message_type absorb" where
  "message_type_absorb rd bs = bind_outcome (absorb_u16 rd bs) (\<lambda>d bs.
     case List.find (\<lambda>t. message_type_tag t = d) message_types of
       None \<Rightarrow> (Fail (), bs) | Some t \<Rightarrow> (Done t, bs))"

text \<open>The keys of the indexes end in the id of the message.\<close>

definition address_idx_emit :: "radiation \<Rightarrow> socket_addr \<times> u64 \<Rightarrow> bytes" where
  "address_idx_emit rd v = addr_emit rd (fst v) @ emit_u64 rd (snd v)"

definition address_idx_absorb :: "radiation \<Rightarrow> (socket_addr \<times> u64) absorb" where
  "address_idx_absorb rd bs = bind_outcome (addr_absorb rd bs) (\<lambda>a bs.
     bind_outcome (absorb_u64 rd bs) (\<lambda>i bs. (Done (a, i), bs)))"

definition connection_idx_emit :: "radiation \<Rightarrow> u64 \<times> u64 \<Rightarrow> bytes" where
  "connection_idx_emit rd v = emit_u64 rd (fst v) @ emit_u64 rd (snd v)"

definition connection_idx_absorb :: "radiation \<Rightarrow> (u64 \<times> u64) absorb" where
  "connection_idx_absorb rd bs = bind_outcome (absorb_u64 rd bs) (\<lambda>c bs.
     bind_outcome (absorb_u64 rd bs) (\<lambda>i bs. (Done (c, i), bs)))"

type_synonym stream_full_id = "u64 \<times> stream_id"

definition stream_full_id_emit :: "radiation \<Rightarrow> stream_full_id \<Rightarrow> bytes" where
  "stream_full_id_emit rd v = emit_u64 rd (fst v) @ stream_id_emit rd (snd v)"

definition stream_full_id_absorb :: "radiation \<Rightarrow> stream_full_id absorb" where
  "stream_full_id_absorb rd bs = bind_outcome (absorb_u64 rd bs) (\<lambda>c bs.
     bind_outcome (stream_id_absorb rd bs) (\<lambda>i bs. (Done (c, i), bs)))"

definition stream_idx_emit :: "radiation \<Rightarrow> stream_full_id \<times> u64 \<Rightarrow> bytes" where
  "stream_idx_emit rd v = stream_full_id_emit rd (fst v) @ emit_u64 rd (snd v)"

definition stream_idx_absorb :: "radiation \<Rightarrow> (stream_full_id \<times> u64) absorb" where
  "stream_idx_absorb rd bs = bind_outcome (stream_full_id_absorb rd bs) (\<lambda>s bs.
     bind_outcome (absorb_u64 rd bs) (\<lambda>i bs. (Done (s, i), bs)))"

definition stream_by_kind_idx_emit :: "radiation \<Rightarrow> stream_kind \<times> u64 \<Rightarrow> bytes" where
  "stream_by_kind_idx_emit rd v = stream_kind_emit rd (fst v) @ emit_u64 rd (snd v)"

definition stream_by_kind_idx_absorb :: "radiation \<Rightarrow> (stream_kind \<times> u64) absorb" where
  "stream_by_kind_idx_absorb rd bs = bind_outcome (stream_kind_absorb rd bs) (\<lambda>k bs.
     bind_outcome (absorb_u64 rd bs) (\<lambda>i bs. (Done (k, i), bs)))"

definition message_kind_idx_emit :: "radiation \<Rightarrow> message_type \<times> u64 \<Rightarrow> bytes" where
  "message_kind_idx_emit rd v = message_type_emit rd (fst v) @ emit_u64 rd (snd v)"

definition message_kind_idx_absorb :: "radiation \<Rightarrow> (message_type \<times> u64) absorb" where
  "message_kind_idx_absorb rd bs = bind_outcome (message_type_absorb rd bs) (\<lambda>t bs.
     bind_outcome (absorb_u64 rd bs) (\<lambda>i bs. (Done (t, i), bs)))"

record ledger_hash_idx =
  lhi_hash :: ledger_hash
  lhi_offset :: u64
  lhi_size :: u64
  lhi_id :: stream_full_id
  lhi_message_id :: u64

definition ledger_hash_idx_new :: "ledger_hash \<Rightarrow> ledger_hash_idx" where
  "ledger_hash_idx_new h =
     \<lparr>lhi_hash = h, lhi_offset = 0, lhi_size = 0, lhi_id = (0, Handshake), lhi_message_id = 0\<rparr>"

definition lh_31 :: "ledger_hash \<Rightarrow> bytes" where
  "lh_31 h = (case h of
     LhSource x \<Rightarrow> x | LhTarget x \<Rightarrow> x | LhFirstSource x \<Rightarrow> x | LhMiddle x \<Rightarrow> x | LhSecondTarget x \<Rightarrow> x)"

definition get_31 :: "ledger_hash_idx \<Rightarrow> bytes" where
  "get_31 i = lh_31 (lhi_hash i)"

definition lh_tag :: "ledger_hash \<Rightarrow> u8" where
  "lh_tag h = (case h of
     LhSource _ \<Rightarrow> 0 | LhTarget _ \<Rightarrow> 1 | LhFirstSource _ \<Rightarrow> 2 | LhMiddle _ \<Rightarrow> 3 | LhSecondTarget _ \<Rightarrow> 4)"

definition ledger_hash_emit :: "radiation \<Rightarrow> ledger_hash \<Rightarrow> bytes" where
  "ledger_hash_emit rd h = emit_u8 rd (lh_tag h) @ emit_array rd (lh_31 h)"

definition ledger_hash_absorb :: "radiation \<Rightarrow> ledger_hash absorb" where
  "ledger_hash_absorb rd bs = bind_outcome (absorb_u8 rd bs) (\<lambda>t bs.
     if 4 < t then (Fail (), bs)
     else bind_outcome (absorb_array rd 31 bs) (\<lambda>x bs.
       (Done (if t = 0 then LhSource x else if t = 1 then LhTarget x else if t = 2 then LhFirstSource x
              else if t = 3 then LhMiddle x else LhSecondTarget x), bs)))"

definition ledger_hash_idx_emit :: "radiation \<Rightarrow> ledger_hash_idx \<Rightarrow> bytes" where
  "ledger_hash_idx_emit rd v =
     ledger_hash_emit rd (lhi_hash v) @ emit_u64 rd (lhi_offset v) @ emit_u64 rd (lhi_size v) @
     stream_full_id_emit rd (lhi_id v) @ emit_u64 rd (lhi_message_id v)"

definition ledger_hash_idx_absorb :: "radiation \<Rightarrow> ledger_hash_idx absorb" where
  "ledger_hash_idx_absorb rd bs =
     bind_outcome (ledger_hash_absorb rd bs) (\<lambda>h bs. bind_outcome (absorb_u64 rd bs) (\<lambda>off bs.
     bind_outcome (absorb_u64 rd bs) (\<lambda>sz bs. bind_outcome (stream_full_id_absorb rd bs) (\<lambda>s bs.
     bind_outcome (absorb_u64 rd bs) (\<lambda>m bs.
       (Done \<lparr>lhi_hash = h, lhi_offset = off, lhi_size = sz, lhi_id = s, lhi_message_id = m\<rparr>, bs))))))"

definition stats_db_key_emit :: "radiation \<Rightarrow> u32 \<times> socket_addr \<Rightarrow> bytes" where
  "stats_db_key_emit rd v = emit_u32 rd (fst v) @ addr_emit rd (snd v)"

definition stats_db_key_absorb :: "radiation \<Rightarrow> (u32 \<times> socket_addr) absorb" where
  "stats_db_key_absorb rd bs = bind_outcome (absorb_u32 rd bs) (\<lambda>h bs.
     bind_outcome (addr_absorb rd bs) (\<lambda>a bs. (Done (h, a), bs)))"

text \<open>\<open>StatsV2DbKey\<close> and \<open>CapnpEventWithMetadataKey\<close> are a height and a time.\<close>

definition height_time_emit :: "radiation \<Rightarrow> u32 \<times> duration \<Rightarrow> bytes" where
  "height_time_emit rd v = emit_u32 rd (fst v) @ time_emit rd (snd v)"

definition height_time_absorb :: "radiation \<Rightarrow> (u32 \<times> duration) absorb" where
  "height_time_absorb rd bs = bind_outcome (absorb_u32 rd bs) (\<lambda>h bs.
     bind_outcome (time_absorb rd bs) (\<lambda>t bs. (Done (h, t), bs)))"

section \<open>Chunks\<close>

record chunk_header =
  ch_size :: u32
  ch_time :: duration
  ch_encryption_status :: encryption_status
  ch_incoming :: bool

definition CHUNK_HEADER_SIZE :: nat where
  "CHUNK_HEADER_SIZE = 18"

definition encryption_status_tag :: "encryption_status \<Rightarrow> u8" where
  "encryption_status_tag e = (case e of Raw \<Rightarrow> 1 | DecryptedPnet \<Rightarrow> 0xff | DecryptedNoise \<Rightarrow> 0)"

definition encryption_status_absorb :: "radiation \<Rightarrow> encryption_status absorb" where
  "encryption_status_absorb rd bs = bind_outcome (absorb_u8 rd bs) (\<lambda>t bs.
     if t = 1 then (Done Raw, bs) else if t = 0xff then (Done DecryptedPnet, bs)
     else if t = 0 then (Done DecryptedNoise, bs) else (Fail (), bs))"

definition chunk_header_emit :: "radiation \<Rightarrow> chunk_header \<Rightarrow> bytes" where
  "chunk_header_emit rd h =
     emit_u32 rd (ch_size h) @ time_emit rd (ch_time h) @
     emit_u8 rd (encryption_status_tag (ch_encryption_status h)) @ emit_bool rd (ch_incoming h)"

definition chunk_header_absorb :: "radiation \<Rightarrow> chunk_header absorb" where
  "chunk_header_absorb rd bs =
     bind_outcome (absorb_u32 rd bs) (\<lambda>s bs. bind_outcome (time_absorb rd bs) (\<lambda>t bs.
     bind_outcome (encryption_status_absorb rd bs) (\<lambda>e bs. bind_outcome (absorb_bool rd bs) (\<lambda>i bs.
       (Done \<lparr>ch_size = s, ch_time = t, ch_encryption_status = e, ch_incoming = i\<rparr>, bs)))))"

text \<open>
  \<open>ChunkParser::next\<close> on a reader that holds the bytes \<open>bs\<close>: \<open>Done None\<close> ends the iteration. The
  second function is the whole iteration; \<open>None\<close> is a panic.
\<close>

definition chunk_parser_next ::
  "radiation \<Rightarrow> bytes \<Rightarrow> (unit, ((chunk_header \<times> bytes) \<times> bytes) option) outcome" where
  "chunk_parser_next rd bs =
     (if length bs < CHUNK_HEADER_SIZE then Done None
      else
        case absorb_ext rd (chunk_header_absorb rd) (take CHUNK_HEADER_SIZE bs) of
          Done header \<Rightarrow>
            (let rest = drop CHUNK_HEADER_SIZE bs; n = unat (ch_size header) in
             if length rest < n then Done None else Done (Some ((header, take n rest), drop n rest)))
        | Fail _ \<Rightarrow> Done None
        | Panic \<Rightarrow> Panic
        | Hang \<Rightarrow> Hang)"

function chunk_parser :: "radiation \<Rightarrow> bytes \<Rightarrow> (chunk_header \<times> bytes) list option" where
  "chunk_parser rd bs =
     (case chunk_parser_next rd bs of
        Done None \<Rightarrow> Some []
      | Done (Some (c, rest)) \<Rightarrow> map_option ((#) c) (chunk_parser rd rest)
      | _ \<Rightarrow> None)"
  by pat_completeness auto
termination
proof (relation "measure (\<lambda>(rd, bs). length bs)", goal_cases)
  case (2 rd bs x y c rest)
  then have "chunk_parser_next rd bs = Done (Some (c, rest))" by simp
  then show ?case
    by (auto simp: chunk_parser_next_def CHUNK_HEADER_SIZE_def Let_def split: if_splits outcome.splits)
qed simp

declare chunk_parser.simps [simp del]

section \<open>Reading back\<close>

definition duration_ok :: "duration \<Rightarrow> bool" where
  "duration_ok d = (subsec_nanos d < 1000000000)"

definition time_ok :: "duration \<Rightarrow> bool" where
  "time_ok d = (duration_ok d \<and> as_secs d < 0x8000000000000000)"

text \<open>An IPv4 address in the form of an IPv6 address is read back as the IPv4 address.\<close>

definition addr_canon :: "socket_addr \<Rightarrow> socket_addr" where
  "addr_canon a =
     (if take 12 (addr_octets (ip a)) = v4_mapped_prefix
      then a\<lparr>ip := V4 (be_u32 (drop 12 (addr_octets (ip a))))\<rparr> else a)"

definition connection_ok :: "connection \<Rightarrow> bool" where
  "connection_ok c = (time_ok (cn_timestamp c) \<and> time_ok (cn_timestamp_close c) \<and>
     addr_canon (ci_addr (cn_info c)) = ci_addr (cn_info c) \<and> length (cn_alias c) < 2 ^ 32)"

definition message_ok :: "message \<Rightarrow> bool" where
  "message_ok m = (time_ok (msg_timestamp m) \<and> stream_id_ok (msg_stream_id m) \<and> length (msg_brief m) < 2 ^ 32)"

lemma duration_new_ok: "duration_ok d \<Longrightarrow> duration_new (as_secs d) (subsec_nanos d) = Some d"
proof -
  assume "duration_ok d"
  then have n: "unat (subsec_nanos d) < 1000000000"
    by (simp add: duration_ok_def word_less_nat_alt)
  then have "subsec_nanos d mod 1000000000 = subsec_nanos d"
    by (simp add: word_unat_eq_iff unat_mod_distrib)
  moreover have "unat (as_secs d) < 2 ^ 64" using unat_less_2p [of "as_secs d"] by simp
  ultimately show ?thesis using n by (simp add: duration_new_def Let_def)
qed

lemma length_addr_octets [simp]: "length (addr_octets a) = 16"
  by (simp add: addr_octets_def v4_mapped_prefix_def u32_be_def split: ip_addr.split)

lemma addr_canon_eq:
  "(if take 12 (addr_octets (ip a)) = v4_mapped_prefix
    then \<lparr>ip = V4 (be_u32 (drop 12 (addr_octets (ip a)))), port = port a\<rparr>
    else \<lparr>ip = V6 (of_nat (from_be (addr_octets (ip a)))), port = port a\<rparr>) = addr_canon a"
proof (cases "ip a")
  case (V4 w)
  have "length v4_mapped_prefix = 12" by (simp add: v4_mapped_prefix_def)
  with V4 show ?thesis by (simp add: addr_canon_def addr_octets_def)
next
  case (V6 w)
  have "unat w mod 256 ^ 16 = unat w" using unat_less_2p [of w] by simp
  then have "of_nat (from_be (addr_octets (ip a))) = w"
    using V6 by (simp add: addr_octets_def from_to_be)
  with V6 show ?thesis by (cases a) (simp add: addr_canon_def)
qed

lemma addr_canon_idem: "addr_canon (addr_canon a) = addr_canon a"
proof (cases "take 12 (addr_octets (ip a)) = v4_mapped_prefix")
  case True
  have l: "length v4_mapped_prefix = 12" by (simp add: v4_mapped_prefix_def)
  show ?thesis using True l by (cases a) (simp add: addr_canon_def addr_octets_def [of "V4 _"])
next
  case False
  then show ?thesis by (simp add: addr_canon_def)
qed

lemma find_message_type: "List.find (\<lambda>u. message_type_tag u = message_type_tag t) message_types = Some t"
  by (cases t) (simp_all add: message_types_def message_type_tag_def)

context radiation_laws
begin

lemmas radiation_simps = read_back outcome_simps append_assoc

lemma duration_rt: "duration_ok d \<Longrightarrow> duration_absorb rd (duration_emit rd d @ r) = (Done d, r)"
  by (simp add: duration_absorb_def duration_emit_def radiation_simps duration_new_ok)

lemma duration_opt_rt:
  "case d of None \<Rightarrow> True | Some x \<Rightarrow> duration_ok x \<and> x \<noteq> duration_zero \<Longrightarrow>
     duration_opt_absorb rd (duration_opt_emit rd d @ r) = (Done d, r)"
  by (cases d)
    (simp_all add: duration_opt_absorb_def duration_opt_emit_def duration_rt radiation_simps
      duration_ok_def duration_zero_def)

lemma time_rt: "time_ok d \<Longrightarrow> time_absorb rd (time_emit rd d @ r) = (Done d, r)"
  by (simp add: time_absorb_def time_emit_def duration_rt time_ok_def radiation_simps)

lemma addr_rt: "addr_absorb rd (addr_emit rd a @ r) = (Done (addr_canon a), r)"
  by (simp add: addr_absorb_def addr_emit_def array_rt radiation_simps addr_canon_eq)

lemma stream_kind_rt: "stream_kind_absorb rd (stream_kind_emit rd k @ r) = (Done k, r)"
  by (simp add: stream_kind_absorb_def stream_kind_emit_def radiation_simps stream_kind_of_u16_u16)

lemma stream_id_rt:
  "stream_id_ok s \<Longrightarrow> stream_id_absorb rd (stream_id_emit rd s @ r) = (Done s, r)"
  by (simp add: stream_id_absorb_def stream_id_emit_def radiation_simps stream_id_code_roundtrip)

lemma message_type_rt: "message_type_absorb rd (message_type_emit rd t @ r) = (Done t, r)"
  by (simp add: message_type_absorb_def message_type_emit_def radiation_simps find_message_type)

lemma connection_info_rt:
  "addr_canon (ci_addr i) = ci_addr i \<Longrightarrow>
     connection_info_absorb rd (connection_info_emit rd i @ r) = (Done i, r)"
  by (simp add: connection_info_absorb_def connection_info_emit_def addr_rt radiation_simps)

lemma connection_stats_rt: "connection_stats_absorb rd (connection_stats_emit rd s @ r) = (Done s, r)"
  by (simp add: connection_stats_absorb_def connection_stats_emit_def radiation_simps)

lemma connection_rt: "connection_ok c \<Longrightarrow> connection_absorb rd (connection_emit rd c @ r) = (Done c, r)"
  by (simp add: connection_absorb_def connection_emit_def connection_info_rt connection_stats_rt
      time_rt string_rt connection_ok_def radiation_simps)

lemma message_rt: "message_ok m \<Longrightarrow> message_absorb rd (message_emit rd m @ r) = (Done m, r)"
  by (simp add: message_absorb_def message_emit_def stream_id_rt stream_kind_rt time_rt string_rt message_ok_def
      radiation_simps)

lemma address_idx_rt: "address_idx_absorb rd (address_idx_emit rd (a, i) @ r) = (Done (addr_canon a, i), r)"
  by (simp add: address_idx_absorb_def address_idx_emit_def addr_rt radiation_simps)

lemma connection_idx_rt: "connection_idx_absorb rd (connection_idx_emit rd v @ r) = (Done v, r)"
  by (simp add: connection_idx_absorb_def connection_idx_emit_def radiation_simps)

lemma stream_full_id_rt:
  "stream_id_ok (snd v) \<Longrightarrow> stream_full_id_absorb rd (stream_full_id_emit rd v @ r) = (Done v, r)"
  by (simp add: stream_full_id_absorb_def stream_full_id_emit_def stream_id_rt radiation_simps)

lemma stream_idx_rt:
  "stream_id_ok (snd (fst v)) \<Longrightarrow> stream_idx_absorb rd (stream_idx_emit rd v @ r) = (Done v, r)"
  by (simp add: stream_idx_absorb_def stream_idx_emit_def stream_full_id_rt radiation_simps)

lemma stream_by_kind_idx_rt:
  "stream_by_kind_idx_absorb rd (stream_by_kind_idx_emit rd v @ r) = (Done v, r)"
  by (simp add: stream_by_kind_idx_absorb_def stream_by_kind_idx_emit_def stream_kind_rt radiation_simps)

lemma message_kind_idx_rt: "message_kind_idx_absorb rd (message_kind_idx_emit rd v @ r) = (Done v, r)"
  by (simp add: message_kind_idx_absorb_def message_kind_idx_emit_def message_type_rt radiation_simps)

lemma ledger_hash_rt:
  "length (lh_31 h) = 31 \<Longrightarrow> ledger_hash_absorb rd (ledger_hash_emit rd h @ r) = (Done h, r)"
  by (cases h)
    (simp_all add: ledger_hash_absorb_def ledger_hash_emit_def array_rt radiation_simps lh_tag_def lh_31_def)

lemma ledger_hash_idx_rt:
  "length (get_31 v) = 31 \<Longrightarrow> stream_id_ok (snd (lhi_id v)) \<Longrightarrow>
     ledger_hash_idx_absorb rd (ledger_hash_idx_emit rd v @ r) = (Done v, r)"
  by (simp add: ledger_hash_idx_absorb_def ledger_hash_idx_emit_def ledger_hash_rt stream_full_id_rt
      get_31_def radiation_simps)

lemma stats_db_key_rt:
  "stats_db_key_absorb rd (stats_db_key_emit rd (h, a) @ r) = (Done (h, addr_canon a), r)"
  by (simp add: stats_db_key_absorb_def stats_db_key_emit_def addr_rt radiation_simps)

lemma height_time_rt:
  "time_ok (snd v) \<Longrightarrow> height_time_absorb rd (height_time_emit rd v @ r) = (Done v, r)"
  by (simp add: height_time_absorb_def height_time_emit_def time_rt radiation_simps)

lemma chunk_header_rt:
  "time_ok (ch_time h) \<Longrightarrow> chunk_header_absorb rd (chunk_header_emit rd h @ r) = (Done h, r)"
  by (cases "ch_encryption_status h")
    (simp_all add: chunk_header_absorb_def chunk_header_emit_def time_rt radiation_simps
      encryption_status_absorb_def encryption_status_tag_def)

lemma chunk_header_length: "length (chunk_header_emit rd h) = CHUNK_HEADER_SIZE"
  by (simp add: chunk_header_emit_def CHUNK_HEADER_SIZE_def time_emit_def duration_emit_def u8_bytes
      u32_bytes u64_bytes bool_bytes u32_be_def u64_be_def)

lemma chunk_parser_next_rt:
  assumes "time_ok (ch_time h)" "length data = unat (ch_size h)"
  shows "chunk_parser_next rd (chunk_header_emit rd h @ data @ rest) = Done (Some ((h, data), rest))"
proof -
  have "absorb_ext rd (chunk_header_absorb rd) (chunk_header_emit rd h) = Done h"
    using assms(1) by (intro ext_rt) (rule chunk_header_rt)
  with assms(2) show ?thesis by (simp add: chunk_parser_next_def chunk_header_length)
qed

lemma chunk_parser_rt:
  assumes "\<forall>(h, data)\<in>set cs. time_ok (ch_time h) \<and> length data = unat (ch_size h)"
    and "chunk_parser_next rd rest = Done None"
  shows "chunk_parser rd (concat (map (\<lambda>(h, data). chunk_header_emit rd h @ data) cs) @ rest) = Some cs"
  using assms(1)
proof (induction cs)
  case Nil
  with assms(2) show ?case by (simp add: chunk_parser.simps [of rd rest])
next
  case (Cons c cs)
  obtain h data where c: "c = (h, data)" by (cases c)
  with Cons.prems have "time_ok (ch_time h)" "length data = unat (ch_size h)" by auto
  from chunk_parser_next_rt [OF this] Cons c show ?case
    by (subst chunk_parser.simps) simp
qed

end

section \<open>A radiation\<close>

text \<open>Big-endian integers, strings behind their length: what the crate does where it matters.\<close>

definition absorb_n :: "nat \<Rightarrow> (bytes \<Rightarrow> 'a) \<Rightarrow> 'a absorb" where
  "absorb_n n f bs = (if length bs < n then (Fail (), bs) else (Done (f (take n bs)), drop n bs))"

definition absorb_sized :: "(bytes \<Rightarrow> 'a) \<Rightarrow> 'a absorb" where
  "absorb_sized f bs = bind_outcome (absorb_n 4 be_u32 bs) (\<lambda>n bs. absorb_n (unat n) f bs)"

definition sample_rd :: radiation where
  "sample_rd =
     \<lparr>emit_u8 = (\<lambda>a. [a]), absorb_u8 = absorb_n 1 hd,
      emit_u16 = u16_be, absorb_u16 = absorb_n 2 be_u16,
      emit_u32 = u32_be, absorb_u32 = absorb_n 4 be_u32,
      emit_u64 = u64_be, absorb_u64 = absorb_n 8 be_u64,
      emit_i64 = u64_be, absorb_i64 = absorb_n 8 be_u64,
      emit_bool = (\<lambda>b. [if b then 1 else 0]), absorb_bool = absorb_n 1 (\<lambda>bs. hd bs \<noteq> 0),
      emit_vec = (\<lambda>bs. u32_be (of_nat (length bs)) @ bs), absorb_vec = absorb_sized (\<lambda>bs. bs),
      emit_string = (\<lambda>s. u32_be (of_nat (length s)) @ as_bytes s),
      absorb_string = absorb_sized bytes_str,
      emit_array = (\<lambda>bs. bs), absorb_array = (\<lambda>n. absorb_n n (\<lambda>bs. bs)),
      rest_ok = (\<lambda>r. r = [])\<rparr>"

lemma absorb_n_append: "length bs = n \<Longrightarrow> absorb_n n f (bs @ r) = (Done (f bs), r)"
  by (simp add: absorb_n_def)

lemma absorb_sized_append:
  "length bs < 2 ^ 32 \<Longrightarrow>
     absorb_sized f (u32_be (of_nat (length bs)) @ bs @ r) = (Done (f bs), r)"
  by (simp add: absorb_sized_def absorb_n_append outcome_simps unat_of_nat)

interpretation rad: radiation_laws sample_rd
proof
  show "length bs < 2 ^ 32 \<Longrightarrow>
      absorb_vec sample_rd (emit_vec sample_rd bs @ r) = (Done bs, r)" for bs r
    using absorb_sized_append [of bs "\<lambda>bs. bs" r] by (simp add: sample_rd_def)
  show "length s < 2 ^ 32 \<Longrightarrow>
      absorb_string sample_rd (emit_string sample_rd s @ r) = (Done s, r)" for s r
    using absorb_sized_append [of "as_bytes s" bytes_str r] by (simp add: sample_rd_def)
qed (simp_all add: sample_rd_def absorb_n_append absorb_n_def [of "Suc 0"])

lemma sample_rd_laws: "radiation_laws sample_rd"
  by (rule rad.radiation_laws_axioms)

text \<open>C30: The header of a chunk has the 18 bytes that the readers of blobs skip, and the chunks of a
  stream can be read back one after the other, up to a rest that is no whole chunk.\<close>

theorem chunk_stream_roundtrip:
  assumes "radiation_laws rd"
    and "\<forall>(h, data)\<in>set cs. time_ok (ch_time h) \<and> length data = unat (ch_size h)"
    and "length rest < CHUNK_HEADER_SIZE"
  shows "chunk_parser rd (concat (map (\<lambda>(h, data). chunk_header_emit rd h @ data) cs) @ rest) = Some cs \<and>
         list_all (\<lambda>(h, data). drop CHUNK_HEADER_SIZE (chunk_header_emit rd h @ data) = data) cs"
  using radiation_laws.chunk_parser_rt [OF assms(1,2)] radiation_laws.chunk_header_length [OF assms(1)]
    assms(3)
  by (auto simp: chunk_parser_next_def list_all_iff)

theorem chunk_stream_roundtrip_witness:
  "chunk_parser sample_rd
     (concat (map (\<lambda>(h, data). chunk_header_emit sample_rd h @ data)
        [(\<lparr>ch_size = 2, ch_time = \<lparr>as_secs = 7, subsec_nanos = 5\<rparr>, ch_encryption_status = Raw,
           ch_incoming = True\<rparr>, [8, 9])]) @ [1, 2, 3]) =
   Some [(\<lparr>ch_size = 2, ch_time = \<lparr>as_secs = 7, subsec_nanos = 5\<rparr>, ch_encryption_status = Raw,
           ch_incoming = True\<rparr>, [8, 9])]"
  using chunk_stream_roundtrip [OF sample_rd_laws,
      of "[(\<lparr>ch_size = 2, ch_time = \<lparr>as_secs = 7, subsec_nanos = 5\<rparr>, ch_encryption_status = Raw,
           ch_incoming = True\<rparr>, [8, 9])]" "[1, 2, 3]"]
  by (simp add: time_ok_def duration_ok_def CHUNK_HEADER_SIZE_def)

text \<open>C31: Addresses, times, streams, connections and messages are read back as they were written.
  An address is read back in canonical form, which differs exactly for an IPv4 address in the form of
  an IPv6 address; a latency of zero is read back as no latency.\<close>

theorem coding_roundtrip:
  assumes "radiation_laws rd"
  shows "addr_absorb rd (addr_emit rd a @ r) = (Done (addr_canon a), r) \<and>
         (addr_canon a \<noteq> a \<longleftrightarrow> (\<exists>w. ip a = V6 w \<and> take 12 (to_be 16 (unat w)) = v4_mapped_prefix)) \<and>
         (connection_ok c \<longrightarrow> absorb_ext rd (connection_absorb rd) (connection_emit rd c) = Done c) \<and>
         (message_ok m \<longrightarrow> absorb_ext rd (message_absorb rd) (message_emit rd m) = Done m) \<and>
         (duration_ok d \<longrightarrow> duration_opt_absorb rd (duration_opt_emit rd (Some d) @ r) =
            (Done (if d = duration_zero then None else Some d), r))"
proof -
  note rl = radiation_laws.addr_rt [OF assms] radiation_laws.ext_rt [OF assms]
    radiation_laws.connection_rt [OF assms] radiation_laws.message_rt [OF assms]
    radiation_laws.duration_rt [OF assms]
  have "addr_canon a \<noteq> a \<longleftrightarrow> (\<exists>w. ip a = V6 w \<and> take 12 (to_be 16 (unat w)) = v4_mapped_prefix)"
  proof (cases "ip a")
    case (V4 w)
    have "length v4_mapped_prefix = 12" by (simp add: v4_mapped_prefix_def)
    with V4 show ?thesis by (cases a) (simp add: addr_canon_def addr_octets_def)
  next
    case (V6 w)
    then show ?thesis by (cases a) (simp add: addr_canon_def addr_octets_def)
  qed
  moreover have "duration_ok d \<longrightarrow> duration_opt_absorb rd (duration_opt_emit rd (Some d) @ r) =
      (Done (if d = duration_zero then None else Some d), r)"
    by (simp add: duration_opt_absorb_def duration_opt_emit_def rl outcome_simps)
  ultimately show ?thesis by (simp add: rl)
qed

definition sample_connection :: connection where
  "sample_connection =
     \<lparr>cn_info = \<lparr>ci_addr = \<lparr>ip = V4 0x0a000001, port = 8302\<rparr>, ci_pid = 1, ci_fd = 7\<rparr>, cn_incoming = True,
      cn_timestamp = \<lparr>as_secs = 10, subsec_nanos = 0\<rparr>, cn_stats_in = connection_stats_default,
      cn_stats_out = connection_stats_default, cn_timestamp_close = duration_zero, cn_alias = ''node''\<rparr>"

definition sample_message :: message where
  "sample_message =
     \<lparr>msg_connection_id = 0, msg_stream_id = Backward 3, msg_stream_kind = Kind_Kad,
      msg_incoming = False, msg_timestamp = \<lparr>as_secs = 10, subsec_nanos = 0\<rparr>, msg_offset = 36,
      msg_size = 4, msg_brief = ''ping''\<rparr>"

theorem coding_roundtrip_witness:
  "addr_absorb sample_rd (addr_emit sample_rd \<lparr>ip = V6 0xffff0a000001, port = 80\<rparr>) =
     (Done (addr_canon \<lparr>ip = V6 0xffff0a000001, port = 80\<rparr>), []) \<and>
   absorb_ext sample_rd (connection_absorb sample_rd) (connection_emit sample_rd sample_connection) =
     Done sample_connection \<and>
   absorb_ext sample_rd (message_absorb sample_rd) (message_emit sample_rd sample_message) =
     Done sample_message"
proof -
  have "connection_ok sample_connection"
    by (simp add: connection_ok_def sample_connection_def time_ok_def duration_ok_def duration_zero_def
        addr_canon_def addr_octets_def v4_mapped_prefix_def)
  moreover have "message_ok sample_message"
    by (simp add: message_ok_def sample_message_def time_ok_def duration_ok_def stream_id_ok_def)
  ultimately show ?thesis
    using coding_roundtrip [OF sample_rd_laws, of "\<lparr>ip = V6 0xffff0a000001, port = 80\<rparr>" "[]"
        sample_connection sample_message duration_zero]
    by simp
qed

end
