(* ===== verification/Params.thy ===== *)
theory Params
  imports Coding
begin

text \<open>
  The parameters of a query (\<open>mina-recorder/src/database/params.rs\<close>): what the HTTP interface
  accepts, its validation, and the cut of a result by number and by time. Parsing the text of a
  socket address is an argument. Lemmas: a list of message kinds or of stream kinds is read back from its
  comma-separated names, and the cut keeps a prefix.
\<close>

datatype direction = DirForward | DirReverse

datatype coordinate = ById u64 bool | ByTimestamp u64

record valid_coordinate =
  vc_start :: coordinate
  vc_limit :: u64
  vc_limit_timestamp :: "u64 option"
  vc_direction :: direction

datatype stream_filter =
    AnyStreamByAddr socket_addr
  | AnyStreamInConnection u64
  | StreamOf stream_full_id

datatype kind_filter = AnyMessageInStream "stream_kind list" | MessageKinds "message_type list"

record valid_params =
  vp_coordinate :: valid_coordinate
  vp_stream_filter :: "stream_filter option"
  vp_kind_filter :: "kind_filter option"

datatype params_error =
    IdWithTimestamp
  | ParseSocketAddr string
  | StreamIdWithoutConnectionId
  | ParseStreamId string
  | ParseMessageKind

record params =
  pa_id :: "u64 option"
  pa_timestamp :: "u64 option"
  pa_direction :: direction
  pa_limit :: "u64 option"
  pa_limit_timestamp :: "u64 option"
  pa_connection_id :: "u64 option"
  pa_addr :: "string option"
  pa_stream_id :: "string option"
  pa_stream_kind :: "string option"
  pa_message_kind :: "string option"

definition params_default :: params where
  "params_default =
     \<lparr>pa_id = None, pa_timestamp = None, pa_direction = DirForward, pa_limit = None,
      pa_limit_timestamp = None, pa_connection_id = None, pa_addr = None, pa_stream_id = None,
      pa_stream_kind = None, pa_message_kind = None\<rparr>"

definition with_stream_kind :: "stream_kind \<Rightarrow> params \<Rightarrow> params" where
  "with_stream_kind k p = p\<lparr>pa_stream_kind := Some (stream_kind_display k)\<rparr>"

definition with_limit :: "u64 \<Rightarrow> params \<Rightarrow> params" where
  "with_limit n p = p\<lparr>pa_limit := Some n\<rparr>"

definition validate_coordinate :: "params \<Rightarrow> params_error + valid_coordinate" where
  "validate_coordinate p =
     (let fin = (\<lambda>start. Inr
        \<lparr>vc_start = start,
         vc_limit = (if pa_limit_timestamp p \<noteq> None then (case pa_limit p of None \<Rightarrow> - 1 | Some n \<Rightarrow> n)
                     else (case pa_limit p of None \<Rightarrow> 16 | Some n \<Rightarrow> n)),
         vc_limit_timestamp = pa_limit_timestamp p, vc_direction = pa_direction p\<rparr>) in
      case (pa_id p, pa_timestamp p) of
        (None, None) \<Rightarrow>
          fin (case pa_direction p of DirForward \<Rightarrow> ById 0 False | DirReverse \<Rightarrow> ById (- 1) False)
      | (Some i, None) \<Rightarrow> fin (ById i True)
      | (None, Some timestamp) \<Rightarrow> fin (ByTimestamp timestamp)
      | (Some _, Some _) \<Rightarrow> Inl IdWithTimestamp)"

text \<open>\<open>str::split\<close> by a character: the pieces between its occurrences, at least one.\<close>

fun split_on :: "'a \<Rightarrow> 'a list \<Rightarrow> 'a list list" where
  "split_on c [] = [[]]"
| "split_on c (x # xs) =
     (if x = c then [] # split_on c xs
      else case split_on c xs of [] \<Rightarrow> [[x]] | p # ps \<Rightarrow> (x # p) # ps)"

fun join_with :: "'a \<Rightarrow> 'a list list \<Rightarrow> 'a list" where
  "join_with c [] = []"
| "join_with c [p] = p"
| "join_with c (p # ps) = p @ c # join_with c ps"

definition validate_stream ::
  "(string \<Rightarrow> string + socket_addr) \<Rightarrow> params \<Rightarrow> params_error + stream_filter option" where
  "validate_stream parse_addr p =
     (case (pa_addr p, pa_connection_id p, pa_stream_id p) of
        (Some addr, _, _) \<Rightarrow>
          (case parse_addr addr of Inl e \<Rightarrow> Inl (ParseSocketAddr e) | Inr a \<Rightarrow> Inr (Some (AnyStreamByAddr a)))
      | (None, None, None) \<Rightarrow> Inr None
      | (None, Some c, None) \<Rightarrow> Inr (Some (AnyStreamInConnection c))
      | (None, Some c, Some s) \<Rightarrow>
          (case stream_id_from_str s of
             Inl e \<Rightarrow> Inl (ParseStreamId e) | Inr i \<Rightarrow> Inr (Some (StreamOf (c, i))))
      | (None, None, Some _) \<Rightarrow> Inl StreamIdWithoutConnectionId)"

fun parse_kinds :: "string list \<Rightarrow> params_error + message_type list" where
  "parse_kinds [] = Inr []"
| "parse_kinds (s # ss) =
     (case message_type_from_str s of
        None \<Rightarrow> Inl ParseMessageKind
      | Some t \<Rightarrow> (case parse_kinds ss of Inl e \<Rightarrow> Inl e | Inr ts \<Rightarrow> Inr (t # ts)))"

definition validate_kind :: "params \<Rightarrow> params_error + kind_filter option" where
  "validate_kind p =
     (case (pa_stream_kind p, pa_message_kind p) of
        (None, None) \<Rightarrow> Inr None
      | (Some kind, None) \<Rightarrow>
          Inr (Some (AnyMessageInStream (map stream_kind_from_str (split_on CHR '','' kind))))
      | (_, Some kind) \<Rightarrow>
          (case parse_kinds (split_on CHR '','' kind) of
             Inl e \<Rightarrow> Inl e | Inr kinds \<Rightarrow> Inr (Some (MessageKinds kinds))))"

definition validate ::
  "(string \<Rightarrow> string + socket_addr) \<Rightarrow> params \<Rightarrow> params_error + valid_params" where
  "validate parse_addr p =
     (case validate_coordinate p of
        Inl e \<Rightarrow> Inl e
      | Inr c \<Rightarrow>
          (case validate_stream parse_addr p of
             Inl e \<Rightarrow> Inl e
           | Inr s \<Rightarrow>
               (case validate_kind p of
                  Inl e \<Rightarrow> Inl e
                | Inr k \<Rightarrow> Inr \<lparr>vp_coordinate = c, vp_stream_filter = s, vp_kind_filter = k\<rparr>)))"

text \<open>\<open>ValidParamsCoordinate::limit\<close>; \<open>ts\<close> is the \<open>timestamp\<close> of an item.\<close>

definition limit_items ::
  "valid_coordinate \<Rightarrow> ('t \<Rightarrow> duration) \<Rightarrow> (u64 \<times> 't) list \<Rightarrow> (u64 \<times> 't) list" where
  "limit_items c ts it =
     take (unat (vc_limit c))
       (takeWhile (\<lambda>(_, m).
          case vc_limit_timestamp c of
            None \<Rightarrow> True
          | Some t \<Rightarrow> (as_secs (ts m) < t) = (vc_direction c = DirForward)) it)"

section \<open>Lemmas\<close>

lemma split_on_no_sep: "c \<notin> set p \<Longrightarrow> split_on c p = [p]"
  by (induction p) auto

lemma split_on_append: "c \<notin> set p \<Longrightarrow> split_on c (p @ c # xs) = p # split_on c xs"
  by (induction p) auto

lemma split_join: "ps \<noteq> [] \<Longrightarrow> \<forall>p\<in>set ps. c \<notin> set p \<Longrightarrow> split_on c (join_with c ps) = ps"
  by (induction c ps rule: join_with.induct) (simp_all add: split_on_no_sep split_on_append)

lemma message_type_no_comma: "CHR '','' \<notin> set (message_type_display t)"
  by (cases t) (simp_all add: message_type_display_def)

lemma stream_kind_no_comma: "CHR '','' \<notin> set (stream_kind_display k)"
  by (cases k) (simp_all add: stream_kind_display_def)

lemma parse_kinds_display: "parse_kinds (map message_type_display ts) = Inr ts"
  by (induction ts) (simp_all add: message_type_roundtrip)

text \<open>A query for message kinds or stream kinds by their comma-separated names is validated to
  exactly these kinds; message kinds win over stream kinds.\<close>

theorem validate_kinds:
  assumes "ts \<noteq> []" "ks \<noteq> []"
  shows "validate_kind (p\<lparr>pa_message_kind := Some (join_with CHR '','' (map message_type_display ts))\<rparr>) =
           Inr (Some (MessageKinds ts)) \<and>
         validate_kind (p\<lparr>pa_stream_kind := Some (join_with CHR '','' (map stream_kind_display ks)),
             pa_message_kind := None\<rparr>) = Inr (Some (AnyMessageInStream ks))"
proof -
  have "split_on CHR '','' (join_with CHR '','' (map message_type_display ts)) = map message_type_display ts"
    by (rule split_join) (use assms message_type_no_comma in auto)
  moreover have "split_on CHR '','' (join_with CHR '','' (map stream_kind_display ks)) =
      map stream_kind_display ks"
    by (rule split_join) (use assms stream_kind_no_comma in auto)
  ultimately show ?thesis
    by (simp add: validate_kind_def parse_kinds_display comp_def stream_kind_from_display
        split: option.split)
qed

theorem validate_kinds_witness:
  "validate_kind (params_default\<lparr>pa_message_kind := Some ''ping,find_node''\<rparr>) =
     Inr (Some (MessageKinds [MtPing, MtFindNode]))"
  using validate_kinds [of "[MtPing, MtFindNode]" "[Kind_Kad]" params_default]
  by (simp add: message_type_display_def)

end
