(* ===== verification/Db.thy ===== *)
theory Db
  imports Params BTree "HOL-Library.List_Lexorder"
begin

text \<open>
  The database, writing side: \<open>DbCore\<close> (\<open>mina-recorder/src/database/core.rs\<close>) over RocksDB, and
  \<open>DbFacade\<close>, \<open>DbGroup\<close>, \<open>DbStream\<close>, \<open>DbStrace\<close> (\<open>database/rocksdb.rs\<close>), which the protocol
  layers call. RocksDB is a parameter, the record \<open>rocks\<close>; the locale \<open>rocks_laws\<close> is its documented
  behaviour without I/O errors: a sorted map per column family. The texts of error messages are
  left out.
\<close>

section \<open>RocksDB\<close>

datatype cf =
    CONNECTIONS | MESSAGES | RANDOMNESS | STRACE | STATS | STATS_TX | CAPNP | STATS_BLOCK_V2 | BLOBS
  | KEYS | CONNECTION_ID_INDEX | STREAM_ID_INDEX | STREAM_KIND_INDEX | MESSAGE_KIND_INDEX
  | ADDR_INDEX | LEDGER_HASH_INDEX

datatype iter_mode = IterStart | IterEnd | IterFrom bytes direction

text \<open>\<open>None\<close> is the default column family. An iterator is the list of its items.\<close>

record 's rocks =
  rk_get :: "cf option \<Rightarrow> bytes \<Rightarrow> 's \<Rightarrow> string + bytes option"
  rk_put :: "cf option \<Rightarrow> bytes \<Rightarrow> bytes \<Rightarrow> 's \<Rightarrow> (string + unit) \<times> 's"
  rk_iter :: "cf \<Rightarrow> iter_mode \<Rightarrow> 's \<Rightarrow> (string + bytes \<times> bytes) list"

definition iter_view :: "iter_mode \<Rightarrow> (bytes, bytes) btree \<Rightarrow> (bytes \<times> bytes) list" where
  "iter_view mode m = (case mode of
     IterStart \<Rightarrow> m
   | IterEnd \<Rightarrow> rev m
   | IterFrom k DirForward \<Rightarrow> filter (\<lambda>e. k \<le> fst e) m
   | IterFrom k DirReverse \<Rightarrow> rev (filter (\<lambda>e. fst e \<le> k) m))"

locale rocks_laws =
  fixes rk :: "'s rocks" and view :: "'s \<Rightarrow> cf option \<Rightarrow> (bytes, bytes) btree"
  assumes view_inv: "bt_inv (view s c)"
    and rocks_get: "rk_get rk c k s = Inr (bt_get k (view s c))"
    and rocks_put_ok: "fst (rk_put rk c k v s) = Inr ()"
    and rocks_put_view: "view (snd (rk_put rk c k v s)) = (view s)(c := bt_insert k v (view s c))"
    and rocks_iter: "rk_iter rk cfam mode s = map Inr (iter_view mode (view s (Some cfam)))"

section \<open>DbCore\<close>

datatype db_error =
    CreateDirError
  | Io stream_full_id
  | IoCn u64
  | Inner string
  | ParseErr
  | NoSuchStream stream_full_id
  | NoSuchConnection u64
  | BeyondStreamEnd stream_full_id u64 u64
  | NoItemAtCursor
  | DecodeErr decode_error
  | ParamDeserialize
  | WrongSkSize

record 's db_core =
  dc_cache :: "(u64, u64) btree"
  dc_inner :: 's

definition db_open :: "'s \<Rightarrow> 's db_core" where
  "db_open s = \<lparr>dc_cache = [], dc_inner = s\<rparr>"

definition parsed :: "(unit, 'a) outcome \<Rightarrow> (db_error, 'a) outcome" where
  "parsed r = (case r of Done v \<Rightarrow> Done v | Fail _ \<Rightarrow> Fail ParseErr | Panic \<Rightarrow> Panic | Hang \<Rightarrow> Hang)"

definition put_in ::
  "'s rocks \<Rightarrow> cf option \<Rightarrow> bytes \<Rightarrow> bytes \<Rightarrow> 's db_core \<Rightarrow> (db_error, unit) outcome \<times> 's db_core" where
  "put_in rk c k v d =
     (case rk_put rk c k v (dc_inner d) of
        (Inl e, s) \<Rightarrow> (Fail (Inner e), d\<lparr>dc_inner := s\<rparr>)
      | (Inr _, s) \<Rightarrow> (Done (), d\<lparr>dc_inner := s\<rparr>))"

fun put_keys ::
  "'s rocks \<Rightarrow> cf \<Rightarrow> bytes list \<Rightarrow> 's db_core \<Rightarrow> (db_error, unit) outcome \<times> 's db_core" where
  "put_keys rk c [] d = (Done (), d)"
| "put_keys rk c (k # ks) d = bind_outcome (put_in rk (Some c) k [] d) (\<lambda>_. put_keys rk c ks)"

definition put_cn ::
  "'s rocks \<Rightarrow> radiation \<Rightarrow> u64 \<Rightarrow> connection \<Rightarrow> 's db_core \<Rightarrow> (db_error, unit) outcome \<times> 's db_core" where
  "put_cn rk rd i v = put_in rk (Some CONNECTIONS) (emit_u64 rd i) (connection_emit rd v)"

definition put_message ::
  "'s rocks \<Rightarrow> radiation \<Rightarrow> socket_addr \<Rightarrow> u64 \<Rightarrow> message \<Rightarrow> message_type list \<Rightarrow> ledger_hash list \<Rightarrow>
   's db_core \<Rightarrow> (db_error, unit) outcome \<times> 's db_core" where
  "put_message rk rd addr i v tys ledger_hashes d =
     bind_outcome (put_in rk (Some MESSAGES) (u64_be i) (message_emit rd v) d) (\<lambda>_ d.
     bind_outcome (put_in rk (Some ADDR_INDEX) (address_idx_emit rd (addr, i)) [] d) (\<lambda>_ d.
     bind_outcome (put_in rk (Some CONNECTION_ID_INDEX)
         (connection_idx_emit rd (msg_connection_id v, i)) [] d) (\<lambda>_ d.
     bind_outcome (put_in rk (Some STREAM_ID_INDEX)
         (stream_idx_emit rd ((msg_connection_id v, msg_stream_id v), i)) [] d) (\<lambda>_ d.
     bind_outcome (put_in rk (Some STREAM_KIND_INDEX)
         (stream_by_kind_idx_emit rd (msg_stream_kind v, i)) [] d) (\<lambda>_ d.
     bind_outcome (put_keys rk MESSAGE_KIND_INDEX (map (\<lambda>ty. message_kind_idx_emit rd (ty, i)) tys) d)
       (\<lambda>_ d.
     put_keys rk LEDGER_HASH_INDEX
       (map (\<lambda>hash. ledger_hash_idx_emit rd
          \<lparr>lhi_hash = hash, lhi_offset = msg_offset v, lhi_size = ucast (msg_size v),
           lhi_id = (msg_connection_id v, msg_stream_id v), lhi_message_id = i\<rparr>) ledger_hashes) d))))))"

definition put_randomness ::
  "'s rocks \<Rightarrow> u64 \<Rightarrow> bytes \<Rightarrow> 's db_core \<Rightarrow> (db_error, unit) outcome \<times> 's db_core" where
  "put_randomness rk i bs = put_in rk (Some RANDOMNESS) (u64_be i) bs"

definition put_strace ::
  "'s rocks \<Rightarrow> u64 \<Rightarrow> bytes \<Rightarrow> 's db_core \<Rightarrow> (db_error, unit) outcome \<times> 's db_core" where
  "put_strace rk i bs = put_in rk (Some STRACE) (u64_be i) bs"

definition put_stats ::
  "'s rocks \<Rightarrow> radiation \<Rightarrow> u32 \<Rightarrow> socket_addr \<Rightarrow> bytes \<Rightarrow> 's db_core \<Rightarrow>
   (db_error, unit) outcome \<times> 's db_core" where
  "put_stats rk rd height addr bs = put_in rk (Some STATS) (stats_db_key_emit rd (height, addr)) bs"

text \<open>The coding of an event of the statistics; \<open>to_bytes\<close> is \<open>PeerId::to_bytes\<close>.\<close>

definition stat_event_emit :: "radiation \<Rightarrow> ('p \<Rightarrow> bytes) \<Rightarrow> 'p stat_event \<Rightarrow> bytes" where
  "stat_event_emit rd to_bytes e =
     peer_id_emit rd to_bytes (ev_producer_id e) @ emit_array rd (ev_hash e) @
     emit_u32 rd (ev_block_height e) @ emit_u32 rd (ev_global_slot e) @ emit_bool rd (ev_incoming e) @
     message_type_emit rd (ev_message_kind e) @ emit_u64 rd (ev_message_id e) @
     time_emit rd (ev_time e) @ time_emit rd (ev_better_time e) @ duration_opt_emit rd (ev_latency e) @
     addr_emit rd (ev_sender_addr e) @ addr_emit rd (ev_receiver_addr e)"

definition put_stats_block_v2 ::
  "'s rocks \<Rightarrow> radiation \<Rightarrow> ('p \<Rightarrow> bytes) \<Rightarrow> 'p stat_event \<Rightarrow> 's db_core \<Rightarrow>
   (db_error, unit) outcome \<times> 's db_core" where
  "put_stats_block_v2 rk rd to_bytes event =
     put_in rk (Some STATS_BLOCK_V2) (height_time_emit rd (ev_block_height event, ev_better_time event))
       (stat_event_emit rd to_bytes event)"

definition put_stats_tx ::
  "'s rocks \<Rightarrow> u32 \<Rightarrow> bytes \<Rightarrow> 's db_core \<Rightarrow> (db_error, unit) outcome \<times> 's db_core" where
  "put_stats_tx rk height bs = put_in rk (Some STATS_TX) (u32_be height) bs"

text \<open>\<open>emit_capnp\<close> is the derived coding of \<open>CapnpEventWithMetadata\<close>.\<close>

definition put_capnp ::
  "'s rocks \<Rightarrow> radiation \<Rightarrow> ('c \<Rightarrow> bytes) \<Rightarrow> u32 \<times> duration \<Rightarrow> 'c \<Rightarrow> 's db_core \<Rightarrow>
   (db_error, unit) outcome \<times> 's db_core" where
  "put_capnp rk rd emit_capnp key event =
     put_in rk (Some CAPNP) (height_time_emit rd key) (emit_capnp event)"

definition blob_key :: "radiation \<Rightarrow> u64 \<Rightarrow> u64 \<Rightarrow> bytes" where
  "blob_key rd cn off = connection_idx_emit rd (cn, off)"

text \<open>Where the blobs of a connection end, read from the database after a restart.\<close>

definition blob_position ::
  "'s rocks \<Rightarrow> radiation \<Rightarrow> u64 \<Rightarrow> 's \<Rightarrow> (db_error, u64) outcome" where
  "blob_position rk rd cn s =
     (case rk_iter rk BLOBS (IterFrom (blob_key rd cn (- 1)) DirReverse) s of
        [] \<Rightarrow> Done 0
      | Inl e # _ \<Rightarrow> Fail (Inner e)
      | Inr (key, _) # _ \<Rightarrow>
          (case parsed (absorb_ext rd (connection_idx_absorb rd) key) of
             Done (cn_last, off) \<Rightarrow> Done (if cn_last = cn then off + 1 else 0)
           | Fail e \<Rightarrow> Fail e
           | Panic \<Rightarrow> Panic
           | Hang \<Rightarrow> Hang))"

definition blob_start :: "'s rocks \<Rightarrow> radiation \<Rightarrow> u64 \<Rightarrow> 's db_core \<Rightarrow> (db_error, u64) outcome" where
  "blob_start rk rd cn d =
     (case bt_get cn (dc_cache d) of
        None \<Rightarrow> blob_position rk rd cn (dc_inner d)
      | Some position \<Rightarrow> if position = 0 then blob_position rk rd cn (dc_inner d) else Done position)"

definition put_blob ::
  "'s rocks \<Rightarrow> radiation \<Rightarrow> u64 \<Rightarrow> bytes \<Rightarrow> 's db_core \<Rightarrow> (db_error, u64) outcome \<times> 's db_core" where
  "put_blob rk rd cn data d =
     (let d = d\<lparr>dc_cache := bt_or_insert cn 0 (dc_cache d)\<rparr>
      in bind_outcome (blob_start rk rd cn d, d) (\<lambda>off d.
           bind_outcome (put_in rk (Some BLOBS) (blob_key rd cn off) data
               (d\<lparr>dc_cache := bt_insert cn (off + of_nat (length data)) (dc_cache d)\<rparr>))
             (\<lambda>_ d. (Done off, d))))"

definition fetch_blob :: "'s rocks \<Rightarrow> radiation \<Rightarrow> u64 \<Rightarrow> u64 \<Rightarrow> 's db_core \<Rightarrow> (db_error, bytes) outcome" where
  "fetch_blob rk rd cn off d =
     (case rk_get rk (Some BLOBS) (blob_key rd cn off) (dc_inner d) of
        Inl e \<Rightarrow> Fail (Inner e)
      | Inr None \<Rightarrow> Fail NoItemAtCursor
      | Inr (Some data) \<Rightarrow>
          if length data < CHUNK_HEADER_SIZE then Panic else Done (drop CHUNK_HEADER_SIZE data))"

definition db_get ::
  "'s rocks \<Rightarrow> radiation \<Rightarrow> cf \<Rightarrow> 'a absorb \<Rightarrow> bytes \<Rightarrow> 's db_core \<Rightarrow> (db_error, 'a) outcome" where
  "db_get rk rd c p key d =
     (case rk_get rk (Some c) key (dc_inner d) of
        Inl e \<Rightarrow> Fail (Inner e)
      | Inr None \<Rightarrow> Fail NoItemAtCursor
      | Inr (Some v) \<Rightarrow> parsed (absorb_ext rd p v))"

definition CONNECTIONS_CNT :: u8 where "CONNECTIONS_CNT = 0"
definition MESSAGES_CNT :: u8 where "MESSAGES_CNT = 1"
definition RANDOMNESS_CNT :: u8 where "RANDOMNESS_CNT = 2"
definition STRACE_CNT :: u8 where "STRACE_CNT = 3"

definition total :: "'s rocks \<Rightarrow> radiation \<Rightarrow> u8 \<Rightarrow> 's db_core \<Rightarrow> (db_error, u64) outcome" where
  "total rk rd k d =
     (case rk_get rk None [k] (dc_inner d) of
        Inl e \<Rightarrow> Fail (Inner e)
      | Inr None \<Rightarrow> Done 0
      | Inr (Some b) \<Rightarrow> parsed (absorb_ext rd (absorb_u64 rd) b))"

definition set_total ::
  "'s rocks \<Rightarrow> radiation \<Rightarrow> u8 \<Rightarrow> u64 \<Rightarrow> 's db_core \<Rightarrow> (db_error, unit) outcome \<times> 's db_core" where
  "set_total rk rd k v = put_in rk None [k] (emit_u64 rd v)"

definition fetch_connection :: "'s rocks \<Rightarrow> radiation \<Rightarrow> u64 \<Rightarrow> 's db_core \<Rightarrow> (db_error, connection) outcome" where
  "fetch_connection rk rd i d = db_get rk rd CONNECTIONS (connection_absorb rd) (u64_be i) d"

definition fetch_full_message_bin ::
  "'s rocks \<Rightarrow> radiation \<Rightarrow> u64 \<Rightarrow> 's db_core \<Rightarrow> (db_error, bytes) outcome" where
  "fetch_full_message_bin rk rd i d =
     (case db_get rk rd MESSAGES (message_absorb rd) (u64_be i) d of
        Done msg \<Rightarrow> fetch_blob rk rd (msg_connection_id msg) (msg_offset msg) d
      | Fail e \<Rightarrow> Fail e
      | Panic \<Rightarrow> Panic
      | Hang \<Rightarrow> Hang)"

definition get_sk :: "'s rocks \<Rightarrow> bytes \<Rightarrow> 's db_core \<Rightarrow> (db_error, bytes option) outcome" where
  "get_sk rk pk d =
     (case rk_get rk (Some KEYS) pk (dc_inner d) of
        Inl e \<Rightarrow> Fail (Inner e)
      | Inr None \<Rightarrow> Done None
      | Inr (Some v) \<Rightarrow> if length v = 32 then Done (Some v) else Fail WrongSkSize)"

definition put_sk ::
  "'s rocks \<Rightarrow> bytes \<Rightarrow> bytes \<Rightarrow> 's db_core \<Rightarrow> (db_error, unit) outcome \<times> 's db_core" where
  "put_sk rk pk sk = put_in rk (Some KEYS) pk sk"

definition iterate_randomness :: "'s rocks \<Rightarrow> 's db_core \<Rightarrow> bytes list" where
  "iterate_randomness rk d =
     List.map_filter (\<lambda>r. case r of Inl _ \<Rightarrow> None | Inr (_, v) \<Rightarrow> Some v)
       (rk_iter rk RANDOMNESS IterEnd (dc_inner d))"

section \<open>DbFacade, DbGroup, DbStream\<close>

text \<open>
  The counters are atomics shared by all handles, so that they belong to the state of the facade, as
  the one \<open>DbCore\<close> does; \<open>fa_now\<close> is what \<open>SystemTime::now\<close> gives.
\<close>

record 's facade =
  fa_cns :: u64
  fa_messages :: u64
  fa_rnd_cnt :: u64
  fa_now :: duration
  fa_core :: "'s db_core"

record db_group =
  grp_addr :: socket_addr
  grp_id :: u64

definition on_core ::
  "('s db_core \<Rightarrow> (db_error, 'a) outcome \<times> 's db_core) \<Rightarrow> 's facade \<Rightarrow> (db_error, 'a) outcome \<times> 's facade" where
  "on_core f w = (case f (fa_core w) of (r, d) \<Rightarrow> (r, w\<lparr>fa_core := d\<rparr>))"

definition facade_open ::
  "'s rocks \<Rightarrow> radiation \<Rightarrow> duration \<Rightarrow> 's \<Rightarrow> (db_error, 's facade) outcome" where
  "facade_open rk rd now s =
     (let d = db_open s in
      fst (bind_outcome (total rk rd CONNECTIONS_CNT d, ()) (\<lambda>c _.
           bind_outcome (total rk rd MESSAGES_CNT d, ()) (\<lambda>m _.
           bind_outcome (total rk rd RANDOMNESS_CNT d, ()) (\<lambda>r _.
             (Done \<lparr>fa_cns = c, fa_messages = m, fa_rnd_cnt = r, fa_now = now, fa_core = d\<rparr>, ()))))))"

text \<open>\<open>emit_stat\<close> and \<open>emit_tx\<close> are the derived codings of \<open>BlockStat\<close> and \<open>TxStat\<close>.\<close>

definition facade_stats ::
  "'s rocks \<Rightarrow> radiation \<Rightarrow> ('p block_stat \<Rightarrow> bytes) \<Rightarrow> u32 \<Rightarrow> socket_addr \<Rightarrow> 'p block_stat \<Rightarrow> 's facade \<Rightarrow>
   (db_error, unit) outcome \<times> 's facade" where
  "facade_stats rk rd emit_stat height addr value = on_core (put_stats rk rd height addr (emit_stat value))"

definition facade_stats_block_v2 ::
  "'s rocks \<Rightarrow> radiation \<Rightarrow> ('p \<Rightarrow> bytes) \<Rightarrow> 'p stat_event \<Rightarrow> 's facade \<Rightarrow>
   (db_error, unit) outcome \<times> 's facade" where
  "facade_stats_block_v2 rk rd to_bytes event = on_core (put_stats_block_v2 rk rd to_bytes event)"

definition facade_stats_tx ::
  "'s rocks \<Rightarrow> (('x, 'p) tx_stat \<Rightarrow> bytes) \<Rightarrow> u32 \<Rightarrow> ('x, 'p) tx_stat \<Rightarrow> 's facade \<Rightarrow>
   (db_error, unit) outcome \<times> 's facade" where
  "facade_stats_tx rk emit_tx height value = on_core (put_stats_tx rk height (emit_tx value))"

definition facade_add ::
  "'s rocks \<Rightarrow> radiation \<Rightarrow> connection_info \<Rightarrow> bool \<Rightarrow> string \<Rightarrow> duration \<Rightarrow> 's facade \<Rightarrow>
   (db_error, db_group) outcome \<times> 's facade" where
  "facade_add rk rd info inc al timestamp w =
     (let i = fa_cns w;
          v = \<lparr>cn_info = info, cn_incoming = inc, cn_timestamp = timestamp,
               cn_stats_in = connection_stats_default, cn_stats_out = connection_stats_default,
               cn_timestamp_close = duration_zero, cn_alias = al\<rparr>
      in bind_outcome (on_core (put_cn rk rd i v) (w\<lparr>fa_cns := i + 1\<rparr>)) (\<lambda>_ w.
         bind_outcome (on_core (set_total rk rd CONNECTIONS_CNT i) w) (\<lambda>_ w.
           (Done \<lparr>grp_addr = ci_addr info, grp_id = i\<rparr>, w))))"

definition add_randomness ::
  "'s rocks \<Rightarrow> bytes \<Rightarrow> 's facade \<Rightarrow> (db_error, unit) outcome \<times> 's facade" where
  "add_randomness rk bs w =
     (let i = fa_rnd_cnt w in on_core (put_randomness rk i bs) (w\<lparr>fa_rnd_cnt := i + 1\<rparr>))"

definition next_message_id :: "'s facade \<Rightarrow> u64" where
  "next_message_id w = fa_messages w"

text \<open>\<open>DbStrace\<close>: its counter and the bytes of a line.\<close>

definition facade_strace :: "'s rocks \<Rightarrow> radiation \<Rightarrow> 's facade \<Rightarrow> (db_error, u64) outcome" where
  "facade_strace rk rd w = total rk rd STRACE_CNT (fa_core w)"

definition add_strace_line ::
  "'s rocks \<Rightarrow> radiation \<Rightarrow> bytes \<Rightarrow> u64 \<times> 's facade \<Rightarrow> (db_error, unit) outcome \<times> (u64 \<times> 's facade)" where
  "add_strace_line rk rd line cw =
     (case cw of (i, w) \<Rightarrow>
        (case bind_outcome (on_core (put_strace rk i line) w) (\<lambda>_. on_core (set_total rk rd STRACE_CNT i)) of
           (r, w) \<Rightarrow> (r, (i + 1, w))))"

definition group_update ::
  "'s rocks \<Rightarrow> radiation \<Rightarrow> db_group \<Rightarrow> connection_stats \<Rightarrow> bool \<Rightarrow> 's facade \<Rightarrow>
   (db_error, unit) outcome \<times> 's facade" where
  "group_update rk rd g stats inc w =
     bind_outcome (fetch_connection rk rd (grp_id g) (fa_core w), w) (\<lambda>cn.
       on_core (put_cn rk rd (grp_id g)
         (if inc then cn\<lparr>cn_stats_in := connection_stats_add_assign (cn_stats_in cn) stats\<rparr>
          else cn\<lparr>cn_stats_out := connection_stats_add_assign (cn_stats_out cn) stats\<rparr>)))"

definition group_add_raw ::
  "'s rocks \<Rightarrow> radiation \<Rightarrow> db_group \<Rightarrow> encryption_status \<Rightarrow> bool \<Rightarrow> duration \<Rightarrow> bytes \<Rightarrow> 's facade \<Rightarrow>
   (db_error, u64) outcome \<times> 's facade" where
  "group_add_raw rk rd g status inc time bs =
     on_core (put_blob rk rd (grp_id g)
       (chunk_header_emit rd
          \<lparr>ch_size = of_nat (length bs), ch_time = time, ch_encryption_status = status, ch_incoming = inc\<rparr>
        @ bs))"

text \<open>\<open>Drop for DbGroup\<close>: errors are only logged.\<close>

definition group_drop ::
  "'s rocks \<Rightarrow> radiation \<Rightarrow> db_group \<Rightarrow> 's facade \<Rightarrow> (db_error, unit) outcome \<times> 's facade" where
  "group_drop rk rd g w =
     (case fetch_connection rk rd (grp_id g) (fa_core w) of
        Done cn \<Rightarrow>
          (case on_core (put_cn rk rd (grp_id g) (cn\<lparr>cn_timestamp_close := fa_now w\<rparr>)) w of
             (Fail _, w) \<Rightarrow> (Done (), w) | (r, w) \<Rightarrow> (r, w))
      | Fail _ \<Rightarrow> (Done (), w)
      | Panic \<Rightarrow> (Panic, w)
      | Hang \<Rightarrow> (Hang, w))"

text \<open>\<open>index_ledger_hash\<close>: whether the environment has \<open>DEBUGGER_INDEX_LEDGER_HASH\<close>.\<close>

definition stream_add ::
  "'s rocks \<Rightarrow> radiation \<Rightarrow> ('x, 'y, 'p) decode_ops \<Rightarrow> bool \<Rightarrow> db_group \<Rightarrow> stream_id \<Rightarrow> directed_id \<Rightarrow>
   stream_kind \<Rightarrow> bytes \<Rightarrow> 's facade \<Rightarrow> (db_error, u64) outcome \<times> 's facade" where
  "stream_add rk rd ops index_ledger_hash g s did kind bs w =
     bind_outcome (group_add_raw rk rd g DecryptedNoise (incoming did) (md_time (metadata did)) bs w)
     (\<lambda>off w.
       case types_of_kind ops index_ledger_hash kind bs of
         Inl e \<Rightarrow> (Fail (DecodeErr e), w)
       | Inr (tys, ledger_hashes) \<Rightarrow>
           (let i = fa_messages w;
                v = \<lparr>msg_connection_id = grp_id g, msg_stream_id = s, msg_stream_kind = kind,
                     msg_incoming = incoming did, msg_timestamp = md_time (metadata did),
                     msg_offset = off, msg_size = of_nat (length bs),
                     msg_brief = join_with CHR '','' (map message_type_display tys)\<rparr>
            in bind_outcome (on_core (put_message rk rd (grp_addr g) i v tys ledger_hashes)
                   (w\<lparr>fa_messages := i + 1\<rparr>)) (\<lambda>_ w.
               bind_outcome (on_core (set_total rk rd MESSAGES_CNT i) w) (\<lambda>_ w. (Done i, w)))))"

text \<open>The database that the protocol layers of a connection see.\<close>

definition facade_ops ::
  "'s rocks \<Rightarrow> radiation \<Rightarrow> ('x, 'y, 'p) decode_ops \<Rightarrow> bool \<Rightarrow> db_group \<Rightarrow> (db_error, 's facade) db_ops" where
  "facade_ops rk rd ops index_ledger_hash g =
     \<lparr>db_add = stream_add rk rd ops index_ledger_hash g, db_add_raw = group_add_raw rk rd g,
      db_update = group_update rk rd g, db_drop = (\<lambda>w. snd (group_drop rk rd g w))\<rparr>"

section \<open>Order of the keys\<close>

lemma from_be_Cons: "from_be (b # bs) = unat b * 256 ^ length bs + from_be bs"
proof (induction bs rule: rev_induct)
  case (snoc x xs)
  then show ?case using from_be_snoc [of "b # xs" x] by (simp add: from_be_snoc algebra_simps)
qed (simp add: from_be_def)

lemma bytes_less_iff:
  "length xs = length ys \<Longrightarrow> xs < ys \<longleftrightarrow> from_be xs < from_be (ys :: bytes)"
proof (induction xs ys rule: list_induct2)
  case (Cons x xs y ys)
  have b: "from_be xs < 256 ^ length ys" "from_be ys < 256 ^ length ys"
    using from_be_less [of xs] from_be_less [of ys] Cons.hyps by simp_all
  consider "unat x < unat y" | "x = y" | "unat y < unat x"
    by (metis linorder_neqE_nat word_unat_eq_iff)
  then show ?case
  proof cases
    case 1
    then have "Suc (unat x) * 256 ^ length ys \<le> unat y * 256 ^ length ys"
      by (intro mult_le_mono1) simp
    with 1 b Cons.hyps show ?thesis by (simp add: from_be_Cons word_less_nat_alt)
  next
    case 3
    then have "Suc (unat y) * 256 ^ length ys \<le> unat x * 256 ^ length ys"
      by (intro mult_le_mono1) simp
    with 3 b Cons.hyps show ?thesis by (auto simp: from_be_Cons word_less_nat_alt)
  qed (use Cons in \<open>simp add: from_be_Cons\<close>)
qed simp

lemma from_be_u64_be [simp]: "from_be (u64_be a) = unat a"
  using unat_less_2p [of a] by (simp add: u64_be_def from_to_be)

lemma length_u64_be [simp]: "length (u64_be a) = 8"
  by (simp add: u64_be_def)

lemma u64_be_eq [simp]: "u64_be a = u64_be b \<longleftrightarrow> a = b"
  by (metis be_u64_u64_be)

lemma u64_be_less: "u64_be a < u64_be b \<longleftrightarrow> a < b"
  by (simp add: bytes_less_iff word_less_nat_alt)

lemma append_less_iff:
  "length xs = length ys \<Longrightarrow> xs @ us < ys @ vs \<longleftrightarrow> xs < ys \<or> xs = ys \<and> us < (vs :: 'a::linorder list)"
  by (induction xs ys rule: list_induct2) auto

lemma key_less:
  "length p = length q \<Longrightarrow> p @ u64_be a < q @ u64_be b \<longleftrightarrow> p < q \<or> p = q \<and> a < b"
  by (simp add: append_less_iff u64_be_less)

lemma key_le:
  "length p = length q \<Longrightarrow> p @ u64_be a \<le> q @ u64_be b \<longleftrightarrow> p < q \<or> p = q \<and> a \<le> b"
  by (auto simp: order_le_less key_less)

section \<open>The laws at work\<close>

text \<open>A sequence of puts on the abstract content of the store.\<close>

type_synonym content = "cf option \<Rightarrow> (bytes, bytes) btree"

definition put1 :: "cf option \<times> bytes \<times> bytes \<Rightarrow> content \<Rightarrow> content" where
  "put1 p m c = (if c = fst p then bt_insert (fst (snd p)) (snd (snd p)) (m c) else m c)"

definition apply_puts :: "(cf option \<times> bytes \<times> bytes) list \<Rightarrow> content \<Rightarrow> content" where
  "apply_puts ps m = fold put1 ps m"

definition message_puts ::
  "radiation \<Rightarrow> socket_addr \<Rightarrow> u64 \<Rightarrow> message \<Rightarrow> message_type list \<Rightarrow> ledger_hash list \<Rightarrow>
   (cf option \<times> bytes \<times> bytes) list" where
  "message_puts rd addr i v tys hashes =
     [(Some MESSAGES, u64_be i, message_emit rd v),
      (Some ADDR_INDEX, address_idx_emit rd (addr, i), []),
      (Some CONNECTION_ID_INDEX, connection_idx_emit rd (msg_connection_id v, i), []),
      (Some STREAM_ID_INDEX, stream_idx_emit rd ((msg_connection_id v, msg_stream_id v), i), []),
      (Some STREAM_KIND_INDEX, stream_by_kind_idx_emit rd (msg_stream_kind v, i), [])] @
     map (\<lambda>k. (Some MESSAGE_KIND_INDEX, k, [])) (map (\<lambda>ty. message_kind_idx_emit rd (ty, i)) tys) @
     map (\<lambda>k. (Some LEDGER_HASH_INDEX, k, []))
       (map (\<lambda>hash. ledger_hash_idx_emit rd
          \<lparr>lhi_hash = hash, lhi_offset = msg_offset v, lhi_size = ucast (msg_size v),
           lhi_id = (msg_connection_id v, msg_stream_id v), lhi_message_id = i\<rparr>) hashes)"

lemma apply_puts_simps [simp]:
  "apply_puts [] m = m" "apply_puts (p # ps) m = apply_puts ps (put1 p m)"
  "apply_puts (ps @ qs) m = apply_puts qs (apply_puts ps m)"
  by (simp_all add: apply_puts_def)

lemma apply_puts_other: "c \<notin> fst ` set ps \<Longrightarrow> apply_puts ps m c = m c"
  by (induction ps arbitrary: m) (auto simp: put1_def)

lemma put1_eq: "m(c := bt_insert k v (m c)) = put1 (c, k, v) m"
  by (auto simp: put1_def)

lemma message_puts_other:
  "c \<notin> {Some MESSAGES, Some ADDR_INDEX, Some CONNECTION_ID_INDEX, Some STREAM_ID_INDEX,
        Some STREAM_KIND_INDEX, Some MESSAGE_KIND_INDEX, Some LEDGER_HASH_INDEX} \<Longrightarrow>
   apply_puts (message_puts rd addr i v tys hashes) m c = m c"
  by (rule apply_puts_other) (auto simp: message_puts_def)

lemma message_puts_messages:
  "apply_puts (message_puts rd addr i v tys hashes) m (Some MESSAGES) =
     bt_insert (u64_be i) (message_emit rd v) (m (Some MESSAGES))"
proof -
  have "apply_puts ps m' (Some MESSAGES) = m' (Some MESSAGES)"
    if "Some MESSAGES \<notin> fst ` set ps" for ps m'
    using that by (rule apply_puts_other)
  then show ?thesis by (auto simp: message_puts_def put1_def image_iff)
qed

locale db_env = radiation_laws rd + rocks_laws rk view
  for rd :: radiation and rk :: "'s rocks" and view :: "'s \<Rightarrow> cf option \<Rightarrow> (bytes, bytes) btree"
begin

lemma put_in_done:
  "\<exists>d'. put_in rk c k v d = (Done (), d') \<and> dc_cache d' = dc_cache d \<and>
        view (dc_inner d') = apply_puts [(c, k, v)] (view (dc_inner d))"
  using rocks_put_ok [of c k v "dc_inner d"] rocks_put_view [of c k v "dc_inner d"]
  by (auto simp: put_in_def put1_eq split: prod.split sum.split)

lemma put_keys_done:
  "\<exists>d'. put_keys rk c ks d = (Done (), d') \<and> dc_cache d' = dc_cache d \<and>
        view (dc_inner d') = apply_puts (map (\<lambda>k. (Some c, k, [])) ks) (view (dc_inner d))"
proof (induction ks arbitrary: d)
  case (Cons k ks)
  obtain e where e: "put_in rk (Some c) k [] d = (Done (), e)" "dc_cache e = dc_cache d"
    "view (dc_inner e) = apply_puts [(Some c, k, [])] (view (dc_inner d))"
    using put_in_done by blast
  with Cons [of e] show ?case by simp
qed simp

lemma put_message_done:
  "\<exists>d'. put_message rk rd addr i v tys hashes d = (Done (), d') \<and> dc_cache d' = dc_cache d \<and>
        view (dc_inner d') = apply_puts (message_puts rd addr i v tys hashes) (view (dc_inner d))"
proof -
  have step: "\<exists>d'. bind_outcome (put_in rk c k x d) f = (Done (), d') \<and> dc_cache d' = dc_cache d \<and>
      view (dc_inner d') = apply_puts ((c, k, x) # ps) (view (dc_inner d))"
    if "\<And>e. \<exists>d'. f () e = (Done (), d') \<and> dc_cache d' = dc_cache e \<and>
        view (dc_inner d') = apply_puts ps (view (dc_inner e))" for c k x d f ps
  proof -
    obtain e where e: "put_in rk c k x d = (Done (), e)" "dc_cache e = dc_cache d"
      "view (dc_inner e) = apply_puts [(c, k, x)] (view (dc_inner d))" using put_in_done by blast
    with that [of e] show ?thesis by auto
  qed
  have keys: "\<exists>d'. bind_outcome (put_keys rk c ks d) f = (Done (), d') \<and> dc_cache d' = dc_cache d \<and>
      view (dc_inner d') = apply_puts (map (\<lambda>k. (Some c, k, [])) ks @ ps) (view (dc_inner d))"
    if "\<And>e. \<exists>d'. f () e = (Done (), d') \<and> dc_cache d' = dc_cache e \<and>
        view (dc_inner d') = apply_puts ps (view (dc_inner e))" for c ks d f ps
  proof -
    obtain e where e: "put_keys rk c ks d = (Done (), e)" "dc_cache e = dc_cache d"
      "view (dc_inner e) = apply_puts (map (\<lambda>k. (Some c, k, [])) ks) (view (dc_inner d))"
      using put_keys_done by blast
    with that [of e] show ?thesis by auto
  qed
  show ?thesis
    unfolding put_message_def message_puts_def append_Cons append_Nil
    by (intro step) (rule keys [OF put_keys_done])
qed

lemma total_set: "bt_get [k] (view (dc_inner d) None) = Some (emit_u64 rd n) \<Longrightarrow> total rk rd k d = Done n"
  using ext_rt [of "absorb_u64 rd" "emit_u64 rd n" n] u64_rt
  by (simp add: total_def rocks_get parsed_def)

lemma total_none: "bt_get [k] (view (dc_inner d) None) = None \<Longrightarrow> total rk rd k d = Done 0"
  by (simp add: total_def rocks_get)

text \<open>
  \<open>blob_inv N d\<close>: the blobs have offsets below \<open>N\<close>, and a cached position is behind all blobs of
  its connection.
\<close>

definition blob_at :: "'s db_core \<Rightarrow> u64 \<Rightarrow> u64 \<Rightarrow> bytes option" where
  "blob_at d cn off = bt_get (blob_key rd cn off) (view (dc_inner d) (Some BLOBS))"

definition blob_inv :: "nat \<Rightarrow> 's db_core \<Rightarrow> bool" where
  "blob_inv N d =
     ((\<forall>k \<in> fst ` set (view (dc_inner d) (Some BLOBS)). \<exists>cn off. k = blob_key rd cn off \<and> unat off < N) \<and>
      (\<forall>cn p. bt_get cn (dc_cache d) = Some p \<longrightarrow>
         unat p \<le> N \<and> (p \<noteq> 0 \<longrightarrow> (\<forall>off. blob_at d cn off \<noteq> None \<longrightarrow> off < p))))"

lemma blob_key_eq: "blob_key rd cn off = u64_be cn @ u64_be off"
  by (simp add: blob_key_def connection_idx_emit_def u64_bytes)

lemma blob_key_inject [simp]: "blob_key rd cn off = blob_key rd cn' off' \<longleftrightarrow> cn = cn' \<and> off = off'"
  by (simp add: blob_key_eq)

lemma blob_key_le: "blob_key rd cn off \<le> blob_key rd cn' off' \<longleftrightarrow> cn < cn' \<or> cn = cn' \<and> off \<le> off'"
  by (auto simp: blob_key_eq key_le u64_be_less)

lemma blob_at_mem: "blob_at d cn off \<noteq> None \<longleftrightarrow>
    blob_key rd cn off \<in> fst ` set (view (dc_inner d) (Some BLOBS))"
  by (simp add: blob_at_def bt_get_def map_of_eq_None_iff)

lemma blob_inv_bound: "blob_inv N d \<Longrightarrow> blob_at d cn off \<noteq> None \<Longrightarrow> unat off < N"
  unfolding blob_inv_def blob_at_mem by (metis blob_key_inject)

text \<open>The first item of a reverse iterator is the greatest key up to the start.\<close>

lemma iter_reverse_first:
  assumes "iter_view (IterFrom k DirReverse) m = e # es" "bt_inv m"
  shows "e \<in> set m \<and> fst e \<le> k \<and> (\<forall>x\<in>set m. fst x \<le> k \<longrightarrow> fst x \<le> fst e)"
proof -
  have f: "filter (\<lambda>x. fst x \<le> k) m = rev es @ [e]"
    using assms(1) by (simp add: iter_view_def rev_eq_Cons_iff)
  then have m: "e \<in> set (filter (\<lambda>x. fst x \<le> k) m)" by simp
  have "sorted_wrt (\<lambda>x y. fst x < fst y) (filter (\<lambda>x. fst x \<le> k) m)"
    using assms(2) by (simp add: bt_inv_def sorted_wrt_map sorted_wrt_filter)
  then have "\<forall>x\<in>set (rev es). fst x < fst e" unfolding f by (simp add: sorted_wrt_append)
  moreover have "set (filter (\<lambda>x. fst x \<le> k) m) = insert e (set (rev es))" unfolding f by auto
  ultimately have "fst x \<le> fst e" if "x \<in> set (filter (\<lambda>x. fst x \<le> k) m)" for x
    using that by (metis insert_iff order.refl less_imp_le)
  with m show ?thesis by simp
qed

lemma iter_reverse_empty:
  "iter_view (IterFrom k DirReverse) m = [] \<Longrightarrow> x \<in> set m \<Longrightarrow> \<not> fst x \<le> k"
  by (auto simp: iter_view_def filter_empty_conv)

lemma blob_position_done:
  assumes "blob_inv N d" "N < 2 ^ 64"
  shows "\<exists>p. blob_position rk rd cn (dc_inner d) = Done p \<and> unat p \<le> N \<and>
           (\<forall>off. blob_at d cn off \<noteq> None \<longrightarrow> off < p)"
proof (cases "iter_view (IterFrom (blob_key rd cn (- 1)) DirReverse) (view (dc_inner d) (Some BLOBS))")
  case Nil
  have "blob_at d cn off = None" for off
  proof (rule ccontr)
    assume "blob_at d cn off \<noteq> None"
    then obtain x where "x \<in> set (view (dc_inner d) (Some BLOBS))" "fst x = blob_key rd cn off"
      unfolding blob_at_mem by auto
    with iter_reverse_empty [OF Nil] show False by (metis blob_key_le word_order.extremum)
  qed
  with Nil show ?thesis by (simp add: blob_position_def rocks_iter)
next
  case (Cons e es)
  note first = iter_reverse_first [OF Cons view_inv]
  obtain cn' off' where k: "fst e = blob_key rd cn' off'" and N: "unat off' < N"
    using assms(1) first unfolding blob_inv_def by blast
  have p: "blob_position rk rd cn (dc_inner d) = Done (if cn' = cn then off' + 1 else 0)"
    using ext_rt [of "connection_idx_absorb rd" "blob_key rd cn' off'" "(cn', off')"]
      connection_idx_rt Cons k
    by (cases e) (simp add: blob_position_def rocks_iter blob_key_def parsed_def)
  have le: "off \<le> off' \<and> cn' = cn" if stored: "blob_at d cn off \<noteq> None" for off
  proof -
    obtain x where x: "x \<in> set (view (dc_inner d) (Some BLOBS))" "fst x = blob_key rd cn off"
      using stored unfolding blob_at_mem by auto
    then have "fst x \<le> blob_key rd cn (- 1)" by (simp add: blob_key_le word_order.extremum)
    with first x(1) have "fst x \<le> fst e" by blast
    moreover have "blob_key rd cn' off' \<le> blob_key rd cn (- 1)" using first k by simp
    ultimately show ?thesis using x(2) k by (auto simp: blob_key_le)
  qed
  have s: "unat (off' + 1) = Suc (unat off')" using N assms(2) by (simp add: unat_word_ariths)
  then have "off < off' + 1" if "off \<le> off'" for off
    using that by (simp add: word_less_nat_alt word_le_nat_alt)
  with le p s N show ?thesis by auto
qed

lemma put_blob_done:
  assumes inv: "blob_inv N d" "N + length data < 2 ^ 64" and "data \<noteq> []"
  shows "\<exists>off d'. put_blob rk rd cn data d = (Done off, d') \<and> blob_at d cn off = None \<and>
           view (dc_inner d') = apply_puts [(Some BLOBS, blob_key rd cn off, data)] (view (dc_inner d)) \<and>
           blob_inv (N + length data) d'"
proof -
  define d1 where "d1 = d\<lparr>dc_cache := bt_or_insert cn 0 (dc_cache d)\<rparr>"
  obtain p where p: "blob_start rk rd cn d1 = Done p" "unat p \<le> N"
    "\<forall>off. blob_at d cn off \<noteq> None \<longrightarrow> off < p"
  proof (cases "\<exists>q. bt_get cn (dc_cache d) = Some q \<and> q \<noteq> 0")
    case True
    then obtain q where q: "bt_get cn (dc_cache d) = Some q" "q \<noteq> 0" by blast
    with inv(1) have "unat q \<le> N" "\<forall>off. blob_at d cn off \<noteq> None \<longrightarrow> off < q"
      unfolding blob_inv_def by blast+
    with q that show ?thesis by (simp add: blob_start_def d1_def bt_get_or_insert)
  next
    case False
    then have "blob_start rk rd cn d1 = blob_position rk rd cn (dc_inner d)"
      by (auto simp: blob_start_def d1_def bt_get_or_insert split: option.split)
    with blob_position_done [OF inv(1), of cn] inv(2) that show ?thesis by auto
  qed
  let ?q = "p + of_nat (length data)"
  obtain d' where d': "put_in rk (Some BLOBS) (blob_key rd cn p) data
      (d1\<lparr>dc_cache := bt_insert cn ?q (dc_cache d1)\<rparr>) = (Done (), d')"
    "dc_cache d' = bt_insert cn ?q (dc_cache d1)"
    "view (dc_inner d') = apply_puts [(Some BLOBS, blob_key rd cn p, data)] (view (dc_inner d))"
    using put_in_done [of "Some BLOBS" "blob_key rd cn p" data
        "d1\<lparr>dc_cache := bt_insert cn ?q (dc_cache d1)\<rparr>"] by (auto simp: d1_def)
  have q: "unat ?q = unat p + length data"
    using p(2) inv(2) by (simp add: unat_word_ariths unat_of_nat)
  have fresh: "blob_at d cn p = None" using p(3) by (meson order_less_irrefl)
  have at: "blob_at d' cn' off \<noteq> None \<longleftrightarrow> blob_at d cn' off \<noteq> None \<or> cn' = cn \<and> off = p" for cn' off
    by (auto simp: blob_at_def d'(3) put1_def bt_get_insert)
  have "blob_inv (N + length data) d'"
    unfolding blob_inv_def
  proof (intro conjI allI impI ballI)
    fix k assume "k \<in> fst ` set (view (dc_inner d') (Some BLOBS))"
    then have "k \<in> fst ` set (view (dc_inner d) (Some BLOBS)) \<or> k = blob_key rd cn p"
      using bt_insert_keys [of "blob_key rd cn p" data] by (auto simp: d'(3) put1_def)
    then show "\<exists>cn off. k = blob_key rd cn off \<and> unat off < N + length data"
    proof
      assume "k \<in> fst ` set (view (dc_inner d) (Some BLOBS))"
      then obtain c off where "k = blob_key rd c off" "unat off < N"
        using inv(1) unfolding blob_inv_def by blast
      then show ?thesis using trans_less_add1 by blast
    next
      assume "k = blob_key rd cn p"
      moreover have "unat p < N + length data" using p(2) assms(3) by (cases data) auto
      ultimately show ?thesis by blast
    qed
  next
    fix c q assume "bt_get c (dc_cache d') = Some q"
    then have c: "c = cn \<and> q = ?q \<or> c \<noteq> cn \<and> bt_get c (dc_cache d) = Some q"
      by (auto simp: d'(2) d1_def bt_get_insert bt_get_or_insert split: if_splits)
    show "unat q \<le> N + length data"
    proof (cases "c = cn")
      case True
      with c q p(2) show ?thesis by simp
    next
      case False
      with c inv(1) have "unat q \<le> N" unfolding blob_inv_def by blast
      then show ?thesis by simp
    qed
    fix off assume "q \<noteq> 0" "blob_at d' c off \<noteq> None"
    then consider "blob_at d c off \<noteq> None" "c \<noteq> cn" | "blob_at d c off \<noteq> None" "c = cn" | "c = cn" "off = p"
      using at by blast
    then show "off < q"
    proof cases
      case 1
      with c \<open>q \<noteq> 0\<close> inv(1) show ?thesis unfolding blob_inv_def by blast
    next
      case 2
      with p(3) have "off < p" by blast
      with c 2 q show ?thesis by (simp add: word_less_nat_alt)
    next
      case 3
      with c q assms(3) show ?thesis by (simp add: word_less_nat_alt)
    qed
  qed
  with p d' fresh show ?thesis
    by (intro exI [of _ p] exI [of _ d']) (simp add: put_blob_def d1_def [symmetric] Let_def)
qed

end

section \<open>Calls of the layers\<close>

text \<open>
  What happens to the facade while the recorder runs: connections are opened, the layers add
  messages and raw chunks, update the counters of their connection and drop their handles. The log
  has the messages that were added with the ids they got.
\<close>

datatype db_call =
    CallOpen connection_info bool string duration
  | CallAdd db_group stream_id directed_id stream_kind bytes
  | CallRaw db_group encryption_status bool duration bytes
  | CallUpdate db_group connection_stats bool
  | CallDrop db_group
  | CallRandom bytes

definition exec_call ::
  "'s rocks \<Rightarrow> radiation \<Rightarrow> ('x, 'y, 'p) decode_ops \<Rightarrow> bool \<Rightarrow> db_call \<Rightarrow> 's facade \<Rightarrow>
   (u64 \<times> bytes) list \<times> 's facade" where
  "exec_call rk rd ops idx c w = (case c of
     CallOpen info inc al t \<Rightarrow> ([], snd (facade_add rk rd info inc al t w))
   | CallAdd g s did kind bs \<Rightarrow>
       (case stream_add rk rd ops idx g s did kind bs w of
          (Done i, w) \<Rightarrow> ([(i, bs)], w) | (_, w) \<Rightarrow> ([], w))
   | CallRaw g status inc t bs \<Rightarrow> ([], snd (group_add_raw rk rd g status inc t bs w))
   | CallUpdate g stats inc \<Rightarrow> ([], snd (group_update rk rd g stats inc w))
   | CallDrop g \<Rightarrow> ([], snd (group_drop rk rd g w))
   | CallRandom bs \<Rightarrow> ([], snd (add_randomness rk bs w)))"

fun exec_calls ::
  "'s rocks \<Rightarrow> radiation \<Rightarrow> ('x, 'y, 'p) decode_ops \<Rightarrow> bool \<Rightarrow> db_call list \<Rightarrow> 's facade \<Rightarrow>
   (u64 \<times> bytes) list \<times> 's facade" where
  "exec_calls rk rd ops idx [] w = ([], w)"
| "exec_calls rk rd ops idx (c # cs) w =
     (case exec_call rk rd ops idx c w of (l, w) \<Rightarrow>
        (case exec_calls rk rd ops idx cs w of (ls, w) \<Rightarrow> (l @ ls, w)))"

definition call_cost :: "db_call \<Rightarrow> nat" where
  "call_cost c = (case c of
     CallAdd _ _ _ _ bs \<Rightarrow> CHUNK_HEADER_SIZE + length bs
   | CallRaw _ _ _ _ bs \<Rightarrow> CHUNK_HEADER_SIZE + length bs
   | _ \<Rightarrow> 0)"

text \<open>The messages of a call that will be stored: those whose type can be told.\<close>

definition call_stored :: "('x, 'y, 'p) decode_ops \<Rightarrow> bool \<Rightarrow> db_call \<Rightarrow> bytes list" where
  "call_stored ops idx c = (case c of
     CallAdd _ _ _ kind bs \<Rightarrow> (case types_of_kind ops idx kind bs of Inl _ \<Rightarrow> [] | Inr _ \<Rightarrow> [bs])
   | _ \<Rightarrow> [])"

definition call_ok :: "('x, 'y, 'p) decode_ops \<Rightarrow> bool \<Rightarrow> db_call \<Rightarrow> bool" where
  "call_ok ops idx c = (case c of
     CallAdd g s did kind bs \<Rightarrow>
       time_ok (md_time (metadata did)) \<and> stream_id_ok s \<and>
       (case types_of_kind ops idx kind bs of
          Inl _ \<Rightarrow> True
        | Inr (tys, _) \<Rightarrow> length (join_with CHR '','' (map message_type_display tys)) < 2 ^ 32)
   | _ \<Rightarrow> True)"

context db_env
begin

definition reads :: "'s facade \<Rightarrow> u64 \<Rightarrow> bytes \<Rightarrow> bool" where
  "reads w j bs = (fetch_full_message_bin rk rd j (fa_core w) = Done bs)"

definition same_content :: "'s facade \<Rightarrow> 's facade \<Rightarrow> bool" where
  "same_content w w' =
     (dc_cache (fa_core w') = dc_cache (fa_core w) \<and> fa_messages w' = fa_messages w \<and>
      (\<forall>c. c \<notin> {CONNECTIONS, RANDOMNESS} \<longrightarrow>
         view (dc_inner (fa_core w')) (Some c) = view (dc_inner (fa_core w)) (Some c)))"

lemma reads_mono:
  assumes "reads w j bs"
    and "bt_get (u64_be j) (view (dc_inner (fa_core w')) (Some MESSAGES)) =
         bt_get (u64_be j) (view (dc_inner (fa_core w)) (Some MESSAGES))"
    and "\<And>cn off x. blob_at (fa_core w) cn off = Some x \<Longrightarrow> blob_at (fa_core w') cn off = Some x"
  shows "reads w' j bs"
  using assms(1) assms(3) unfolding reads_def fetch_full_message_bin_def db_get_def fetch_blob_def
    rocks_get assms(2) blob_at_def [symmetric] sum.case
  by (auto split: option.splits outcome.splits if_splits)

lemma same_content_reads: "same_content w w' \<Longrightarrow> reads w j bs \<Longrightarrow> reads w' j bs"
  by (rule reads_mono) (auto simp: same_content_def blob_at_def)

lemma same_content_inv: "same_content w w' \<Longrightarrow> blob_inv N (fa_core w) \<Longrightarrow> blob_inv N (fa_core w')"
  by (simp add: same_content_def blob_inv_def blob_at_def)

lemma same_content_trans: "same_content u v \<Longrightarrow> same_content v w \<Longrightarrow> same_content u w"
  by (simp add: same_content_def)

lemma same_content_put:
  assumes "c \<in> {None, Some CONNECTIONS, Some RANDOMNESS}"
  shows "\<exists>w'. on_core (put_in rk c k v) w = (Done (), w') \<and> same_content w w' \<and>
    view (dc_inner (fa_core w')) = put1 (c, k, v) (view (dc_inner (fa_core w)))"
proof -
  obtain d' where "put_in rk c k v (fa_core w) = (Done (), d')" "dc_cache d' = dc_cache (fa_core w)"
    "view (dc_inner d') = put1 (c, k, v) (view (dc_inner (fa_core w)))"
    using put_in_done by force
  with assms show ?thesis
    by (intro exI [of _ "w\<lparr>fa_core := d'\<rparr>"]) (auto simp: on_core_def same_content_def put1_def)
qed

text \<open>The default column family, where the counters are.\<close>

abbreviation counts :: "'s facade \<Rightarrow> (bytes, bytes) btree" where
  "counts w \<equiv> view (dc_inner (fa_core w)) None"

lemma put_cn_content:
  "\<exists>w'. on_core (put_cn rk rd i v) w = (Done (), w') \<and> same_content w w' \<and> counts w' = counts w"
  using same_content_put [of "Some CONNECTIONS" "emit_u64 rd i" "connection_emit rd v" w]
  unfolding put_cn_def by (auto simp: put1_def)

lemma facade_add_content:
  assumes "facade_add rk rd info inc al t w = (r, w')"
  shows "same_content w w' \<and> counts w' = bt_insert [CONNECTIONS_CNT] (emit_u64 rd (fa_cns w)) (counts w)"
proof -
  let ?v = "\<lparr>cn_info = info, cn_incoming = inc, cn_timestamp = t, cn_stats_in = connection_stats_default,
    cn_stats_out = connection_stats_default, cn_timestamp_close = duration_zero, cn_alias = al\<rparr>"
  obtain w1 where w1: "on_core (put_cn rk rd (fa_cns w) ?v) (w\<lparr>fa_cns := fa_cns w + 1\<rparr>) = (Done (), w1)"
    "same_content (w\<lparr>fa_cns := fa_cns w + 1\<rparr>) w1" "counts w1 = counts w"
    using put_cn_content [of "fa_cns w" ?v "w\<lparr>fa_cns := fa_cns w + 1\<rparr>"] by auto
  obtain w2 where w2: "on_core (set_total rk rd CONNECTIONS_CNT (fa_cns w)) w1 = (Done (), w2)"
    "same_content w1 w2" "counts w2 = bt_insert [CONNECTIONS_CNT] (emit_u64 rd (fa_cns w)) (counts w1)"
    using same_content_put [of None "[CONNECTIONS_CNT]" "emit_u64 rd (fa_cns w)" w1]
    unfolding set_total_def by (auto simp: put1_def)
  have "w' = w2" using assms w1(1) w2(1) by (simp add: facade_add_def Let_def)
  with same_content_trans [OF w1(2) w2(2)] w1(3) w2(3) show ?thesis by (simp add: same_content_def)
qed

lemma same_content_refl [simp]: "same_content w w"
  by (simp add: same_content_def)

lemma group_update_content:
  "same_content w (snd (group_update rk rd g stats inc w)) \<and>
   counts (snd (group_update rk rd g stats inc w)) = counts w"
proof (cases "fetch_connection rk rd (grp_id g) (fa_core w)")
  case (Done cn)
  let ?v = "if inc then cn\<lparr>cn_stats_in := connection_stats_add_assign (cn_stats_in cn) stats\<rparr>
    else cn\<lparr>cn_stats_out := connection_stats_add_assign (cn_stats_out cn) stats\<rparr>"
  obtain w' where "on_core (put_cn rk rd (grp_id g) ?v) w = (Done (), w')" "same_content w w'"
    "counts w' = counts w"
    using put_cn_content by blast
  with Done show ?thesis unfolding group_update_def by simp
qed (simp_all add: group_update_def)

lemma group_drop_content:
  "same_content w (snd (group_drop rk rd g w)) \<and> counts (snd (group_drop rk rd g w)) = counts w"
proof (cases "fetch_connection rk rd (grp_id g) (fa_core w)")
  case (Done cn)
  obtain w' where "on_core (put_cn rk rd (grp_id g) (cn\<lparr>cn_timestamp_close := fa_now w\<rparr>)) w = (Done (), w')"
    "same_content w w'" "counts w' = counts w"
    using put_cn_content by blast
  with Done show ?thesis by (simp add: group_drop_def)
qed (simp_all add: group_drop_def)

lemma add_randomness_content:
  "same_content w (snd (add_randomness rk bs w)) \<and> counts (snd (add_randomness rk bs w)) = counts w"
proof -
  let ?w = "w\<lparr>fa_rnd_cnt := fa_rnd_cnt w + 1\<rparr>"
  obtain w' where "on_core (put_in rk (Some RANDOMNESS) (u64_be (fa_rnd_cnt w)) bs) ?w = (Done (), w')"
    "same_content ?w w'" "counts w' = counts w"
    using same_content_put [of "Some RANDOMNESS" "u64_be (fa_rnd_cnt w)" bs ?w] by (auto simp: put1_def)
  then show ?thesis by (simp add: add_randomness_def put_randomness_def Let_def same_content_def)
qed

lemma group_add_raw_done:
  assumes "blob_inv N (fa_core w)" "N + (CHUNK_HEADER_SIZE + length bs) < 2 ^ 64"
  shows "\<exists>off w' h. group_add_raw rk rd g status inc t bs w = (Done off, w') \<and>
     length h = CHUNK_HEADER_SIZE \<and> w' = w\<lparr>fa_core := fa_core w'\<rparr> \<and>
     blob_at (fa_core w) (grp_id g) off = None \<and>
     view (dc_inner (fa_core w')) =
       put1 (Some BLOBS, blob_key rd (grp_id g) off, h @ bs) (view (dc_inner (fa_core w))) \<and>
     blob_inv (N + (CHUNK_HEADER_SIZE + length bs)) (fa_core w')"
proof -
  let ?h = "chunk_header_emit rd
    \<lparr>ch_size = of_nat (length bs), ch_time = t, ch_encryption_status = status, ch_incoming = inc\<rparr>"
  have l: "length ?h = CHUNK_HEADER_SIZE" by (rule chunk_header_length)
  then have "?h @ bs \<noteq> []" by (auto simp: CHUNK_HEADER_SIZE_def)
  with put_blob_done [OF assms(1), of "?h @ bs" "grp_id g"] assms(2) l obtain off d' where
    d': "put_blob rk rd (grp_id g) (?h @ bs) (fa_core w) = (Done off, d')"
    "blob_at (fa_core w) (grp_id g) off = None"
    "view (dc_inner d') = put1 (Some BLOBS, blob_key rd (grp_id g) off, ?h @ bs) (view (dc_inner (fa_core w)))"
    "blob_inv (N + (CHUNK_HEADER_SIZE + length bs)) d'" by auto
  with l show ?thesis
    by (intro exI [of _ off] exI [of _ "w\<lparr>fa_core := d'\<rparr>"] exI [of _ ?h])
      (simp add: group_add_raw_def on_core_def)
qed

lemma raw_keeps:
  assumes "blob_at (fa_core w) cn off = None"
    and "view (dc_inner (fa_core w')) = put1 (Some BLOBS, blob_key rd cn off, x) (view (dc_inner (fa_core w)))"
    and "reads w j bs"
  shows "reads w' j bs"
  by (rule reads_mono [OF assms(3)]) (use assms(1,2) in \<open>auto simp: blob_at_def put1_def bt_get_insert\<close>)

lemma stream_add_stored:
  assumes inv: "blob_inv N (fa_core w)" "N + (CHUNK_HEADER_SIZE + length bs) < 2 ^ 64"
    and tys: "types_of_kind ops idx kind bs = Inr (tys, hashes)"
  shows "\<exists>w'. stream_add rk rd ops idx g s did kind bs w = (Done (fa_messages w), w') \<and>
     blob_inv (N + (CHUNK_HEADER_SIZE + length bs)) (fa_core w') \<and>
     fa_messages w' = fa_messages w + 1 \<and>
     counts w' = bt_insert [MESSAGES_CNT] (emit_u64 rd (fa_messages w)) (counts w) \<and>
     (\<forall>j x. j \<noteq> fa_messages w \<longrightarrow> reads w j x \<longrightarrow> reads w' j x) \<and>
     (call_ok ops idx (CallAdd g s did kind bs) \<longrightarrow> reads w' (fa_messages w) bs)"
proof -
  let ?i = "fa_messages w"
  obtain off w1 h where w1:
    "group_add_raw rk rd g DecryptedNoise (incoming did) (md_time (metadata did)) bs w = (Done off, w1)"
    "length h = CHUNK_HEADER_SIZE" "w1 = w\<lparr>fa_core := fa_core w1\<rparr>"
    "blob_at (fa_core w) (grp_id g) off = None"
    "view (dc_inner (fa_core w1)) =
       put1 (Some BLOBS, blob_key rd (grp_id g) off, h @ bs) (view (dc_inner (fa_core w)))"
    "blob_inv (N + (CHUNK_HEADER_SIZE + length bs)) (fa_core w1)"
    using group_add_raw_done [OF inv] by metis
  define v where "v = \<lparr>msg_connection_id = grp_id g, msg_stream_id = s, msg_stream_kind = kind,
    msg_incoming = incoming did, msg_timestamp = md_time (metadata did), msg_offset = off,
    msg_size = of_nat (length bs), msg_brief = join_with CHR '','' (map message_type_display tys)\<rparr>"
  obtain d2 where d2: "put_message rk rd (grp_addr g) ?i v tys hashes (fa_core w1) = (Done (), d2)"
    "dc_cache d2 = dc_cache (fa_core w1)"
    "view (dc_inner d2) = apply_puts (message_puts rd (grp_addr g) ?i v tys hashes) (view (dc_inner (fa_core w1)))"
    using put_message_done by blast
  define w2 where "w2 = w1\<lparr>fa_messages := ?i + 1, fa_core := d2\<rparr>"
  obtain w3 where w3: "on_core (set_total rk rd MESSAGES_CNT ?i) w2 = (Done (), w3)" "same_content w2 w3"
    "view (dc_inner (fa_core w3)) = put1 (None, [MESSAGES_CNT], emit_u64 rd ?i) (view (dc_inner (fa_core w2)))"
    using same_content_put [of None] unfolding set_total_def by blast
  have m1: "fa_messages w1 = ?i" using w1(3) by (metis facade.select_convs(2) facade.surjective facade.update_convs(5))
  have add: "stream_add rk rd ops idx g s did kind bs w = (Done ?i, w3)"
    using w1(1) tys d2(1) w3(1) m1
    by (simp add: stream_add_def v_def [symmetric] on_core_def [of "put_message _ _ _ _ _ _ _"] w2_def Let_def)
  have msgs: "view (dc_inner (fa_core w3)) (Some MESSAGES) =
      bt_insert (u64_be ?i) (message_emit rd v) (view (dc_inner (fa_core w)) (Some MESSAGES))"
    by (simp add: w3(3) put1_def w2_def d2(3) message_puts_messages w1(5))
  have blobs: "view (dc_inner (fa_core w3)) (Some BLOBS) = view (dc_inner (fa_core w1)) (Some BLOBS)"
    by (simp add: w3(3) put1_def w2_def d2(3) message_puts_other)
  have inv3: "blob_inv (N + (CHUNK_HEADER_SIZE + length bs)) (fa_core w3)"
    using w1(6) w3(2) d2(2) blobs by (simp add: blob_inv_def blob_at_def same_content_def w2_def)
  have keep: "reads w3 j x" if "j \<noteq> ?i" "reads w j x" for j x
    by (rule reads_mono [OF that(2)])
      (use that(1) w1(4,5) blobs in \<open>auto simp: msgs bt_get_insert blob_at_def put1_def\<close>)
  have "reads w3 ?i bs" if "call_ok ops idx (CallAdd g s did kind bs)"
  proof -
    have "message_ok v" using that tys by (simp add: call_ok_def message_ok_def v_def)
    then have "absorb_ext rd (message_absorb rd) (message_emit rd v) = Done v"
      by (intro ext_rt) (rule message_rt)
    then show ?thesis using w1(2,5) blobs
      by (simp add: reads_def fetch_full_message_bin_def db_get_def rocks_get msgs bt_get_insert
          parsed_def fetch_blob_def put1_def v_def)
  qed
  with add inv3 keep w3(2,3) show ?thesis
    by (intro exI [of _ w3]) (auto simp: same_content_def w2_def put1_def d2(3) message_puts_other w1(5))
qed

lemma stream_add_rejected:
  assumes "blob_inv N (fa_core w)" "N + (CHUNK_HEADER_SIZE + length bs) < 2 ^ 64"
    and "types_of_kind ops idx kind bs = Inl e"
  shows "\<exists>w'. stream_add rk rd ops idx g s did kind bs w = (Fail (DecodeErr e), w') \<and>
     blob_inv (N + (CHUNK_HEADER_SIZE + length bs)) (fa_core w') \<and>
     fa_messages w' = fa_messages w \<and> counts w' = counts w \<and> (\<forall>j x. reads w j x \<longrightarrow> reads w' j x)"
proof -
  obtain off w1 h where w1:
    "group_add_raw rk rd g DecryptedNoise (incoming did) (md_time (metadata did)) bs w = (Done off, w1)"
    "w1 = w\<lparr>fa_core := fa_core w1\<rparr>" "blob_at (fa_core w) (grp_id g) off = None"
    "view (dc_inner (fa_core w1)) =
       put1 (Some BLOBS, blob_key rd (grp_id g) off, h @ bs) (view (dc_inner (fa_core w)))"
    "blob_inv (N + (CHUNK_HEADER_SIZE + length bs)) (fa_core w1)"
    using group_add_raw_done [OF assms(1,2)] by metis
  have "fa_messages w1 = fa_messages w"
    using w1(2) by (metis facade.select_convs(2) facade.surjective facade.update_convs(5))
  with w1 assms(3) raw_keeps [OF w1(3,4)] show ?thesis by (simp add: stream_add_def put1_def)
qed

text \<open>What one call does, for a facade whose blobs are below \<open>N\<close> bytes.\<close>

definition counters :: "'s facade \<Rightarrow> bool" where
  "counters w =
     ((\<forall>v. bt_get [CONNECTIONS_CNT] (counts w) = Some v \<longrightarrow> (\<exists>n. v = emit_u64 rd n)) \<and>
      bt_get [MESSAGES_CNT] (counts w) =
        (if fa_messages w = 0 then None else Some (emit_u64 rd (fa_messages w - 1))) \<and>
      bt_get [RANDOMNESS_CNT] (counts w) = None)"

definition good :: "nat \<Rightarrow> 's facade \<Rightarrow> bool" where
  "good N w = (blob_inv N (fa_core w) \<and> unat (fa_messages w) * CHUNK_HEADER_SIZE \<le> N \<and> counters w)"

lemma counters_same: "counters w \<Longrightarrow> counts w' = counts w \<Longrightarrow> fa_messages w' = fa_messages w \<Longrightarrow> counters w'"
  by (simp add: counters_def)

lemma counters_cn:
  "counters w \<Longrightarrow> counts w' = bt_insert [CONNECTIONS_CNT] (emit_u64 rd n) (counts w) \<Longrightarrow>
   fa_messages w' = fa_messages w \<Longrightarrow> counters w'"
  by (simp add: counters_def CONNECTIONS_CNT_def MESSAGES_CNT_def RANDOMNESS_CNT_def bt_get_insert) blast

lemma counters_msg:
  "counters w \<Longrightarrow> counts w' = bt_insert [MESSAGES_CNT] (emit_u64 rd (fa_messages w)) (counts w) \<Longrightarrow>
   fa_messages w' = fa_messages w + 1 \<Longrightarrow> fa_messages w' \<noteq> 0 \<Longrightarrow> counters w'"
  by (simp add: counters_def CONNECTIONS_CNT_def MESSAGES_CNT_def RANDOMNESS_CNT_def bt_get_insert)

definition extends :: "'s facade \<Rightarrow> (u64 \<times> bytes) list \<Rightarrow> 's facade \<Rightarrow> bool" where
  "extends w l w' =
     (unat (fa_messages w') = unat (fa_messages w) + length l \<and>
      (\<forall>j x. unat j < unat (fa_messages w) \<longrightarrow> reads w j x \<longrightarrow> reads w' j x) \<and>
      map (unat \<circ> fst) l = [unat (fa_messages w)..<unat (fa_messages w')] \<and>
      (\<forall>(i, bs) \<in> set l. reads w' i bs))"

lemma same_content_extends: "same_content w w' \<Longrightarrow> extends w [] w'"
  using same_content_reads by (auto simp: extends_def same_content_def)

lemma exec_call_step:
  assumes "good N w" "N + call_cost c < 2 ^ 64" "call_ok ops idx c"
    and "exec_call rk rd ops idx c w = (l, w')"
  shows "good (N + call_cost c) w' \<and> extends w l w' \<and> map snd l = call_stored ops idx c"
proof -
  have cw: "counters w" using assms(1) by (simp add: good_def)
  have quiet: ?thesis
    if q: "same_content w w1" "counters w1" "exec_call rk rd ops idx c w = ([], w1)" "call_cost c = 0"
      "call_stored ops idx c = []" for w1
  proof -
    have "l = []" "w' = w1" using q(3) assms(4) by simp_all
    with q assms(1) same_content_inv [OF q(1)] same_content_extends [OF q(1)] show ?thesis
      by (simp add: good_def same_content_def)
  qed
  have quiet': ?thesis
    if "same_content w w1 \<and> counts w1 = counts w" "exec_call rk rd ops idx c w = ([], w1)" "call_cost c = 0"
      "call_stored ops idx c = []" for w1
    using that by (intro quiet) (auto simp: same_content_def intro: counters_same [OF cw])
  show ?thesis
  proof (cases c)
    case (CallOpen info inc al t)
    obtain r w1 where "facade_add rk rd info inc al t w = (r, w1)" by fastforce
    with facade_add_content [OF this] have w1: "w' = w1" "l = []" "same_content w w1"
      "counts w1 = bt_insert [CONNECTIONS_CNT] (emit_u64 rd (fa_cns w)) (counts w)"
      "exec_call rk rd ops idx c w = ([], w1)"
      using assms(4) CallOpen by (simp_all add: exec_call_def)
    have "counters w1" using w1(3) by (intro counters_cn [OF cw w1(4)]) (simp add: same_content_def)
    with w1 CallOpen show ?thesis
      by (intro quiet [OF w1(3) _ w1(5)]) (simp_all add: call_cost_def call_stored_def)
  next
    case (CallRandom bs)
    then show ?thesis
      by (intro quiet' [OF add_randomness_content]) (simp_all add: exec_call_def call_cost_def call_stored_def)
  next
    case (CallUpdate g stats inc)
    then show ?thesis
      by (intro quiet' [OF group_update_content]) (simp_all add: exec_call_def call_cost_def call_stored_def)
  next
    case (CallDrop g)
    then show ?thesis
      by (intro quiet' [OF group_drop_content]) (simp_all add: exec_call_def call_cost_def call_stored_def)
  next
    case (CallRaw g status inc t bs)
    have "blob_inv N (fa_core w)" "N + (CHUNK_HEADER_SIZE + length bs) < 2 ^ 64"
      using assms(1,2) CallRaw by (auto simp: good_def call_cost_def)
    then obtain off w1 h where w1: "group_add_raw rk rd g status inc t bs w = (Done off, w1)"
      "w1 = w\<lparr>fa_core := fa_core w1\<rparr>" "blob_at (fa_core w) (grp_id g) off = None"
      "view (dc_inner (fa_core w1)) =
         put1 (Some BLOBS, blob_key rd (grp_id g) off, h @ bs) (view (dc_inner (fa_core w)))"
      "blob_inv (N + (CHUNK_HEADER_SIZE + length bs)) (fa_core w1)"
      using group_add_raw_done by metis
    have "fa_messages w1 = fa_messages w"
      using w1(2) by (metis facade.select_convs(2) facade.surjective facade.update_convs(5))
    moreover have "counts w1 = counts w" using w1(4) by (simp add: put1_def)
    ultimately have "counters w1" by (intro counters_same [OF cw])
    moreover have "l = []" "w' = w1" using assms(4) CallRaw w1(1) by (simp_all add: exec_call_def)
    moreover have "\<forall>j x. reads w j x \<longrightarrow> reads w1 j x" using raw_keeps [OF w1(3,4)] by blast
    ultimately show ?thesis
      using w1(5) \<open>fa_messages w1 = fa_messages w\<close> assms(1) CallRaw
      by (simp add: good_def extends_def call_cost_def call_stored_def)
  next
    case (CallAdd g s did kind bs)
    have p: "blob_inv N (fa_core w)" "N + (CHUNK_HEADER_SIZE + length bs) < 2 ^ 64"
      using assms(1,2) CallAdd by (auto simp: good_def call_cost_def)
    show ?thesis
    proof (cases "types_of_kind ops idx kind bs")
      case (Inl e)
      obtain w1 where w1: "stream_add rk rd ops idx g s did kind bs w = (Fail (DecodeErr e), w1)"
        "blob_inv (N + (CHUNK_HEADER_SIZE + length bs)) (fa_core w1)" "fa_messages w1 = fa_messages w"
        "counts w1 = counts w" "\<forall>j x. reads w j x \<longrightarrow> reads w1 j x"
        using stream_add_rejected [OF p Inl, of g s did] by blast
      have "l = []" "w' = w1" using assms(4) CallAdd w1(1) by (simp_all add: exec_call_def)
      moreover have "counters w1" using cw w1(4,3) by (rule counters_same)
      ultimately show ?thesis using w1 assms(1) CallAdd Inl
        by (simp add: good_def extends_def call_cost_def call_stored_def)
    next
      case (Inr th)
      then obtain tys hashes where t: "types_of_kind ops idx kind bs = Inr (tys, hashes)" by (cases th) auto
      obtain w1 where w1: "stream_add rk rd ops idx g s did kind bs w = (Done (fa_messages w), w1)"
        "blob_inv (N + (CHUNK_HEADER_SIZE + length bs)) (fa_core w1)" "fa_messages w1 = fa_messages w + 1"
        "counts w1 = bt_insert [MESSAGES_CNT] (emit_u64 rd (fa_messages w)) (counts w)"
        "\<forall>j x. j \<noteq> fa_messages w \<longrightarrow> reads w j x \<longrightarrow> reads w1 j x" "reads w1 (fa_messages w) bs"
        using stream_add_stored [OF p t, of g s did] assms(3) CallAdd by blast
      have l: "l = [(fa_messages w, bs)]" "w' = w1"
        using assms(4) CallAdd w1(1) by (simp_all add: exec_call_def)
      have "unat (fa_messages w) < 2 ^ 64 - 1"
        using assms(1) p(2) by (simp add: good_def CHUNK_HEADER_SIZE_def)
      then have "unat (fa_messages w1) = Suc (unat (fa_messages w))"
        unfolding w1(3) by (simp add: unat_word_ariths)
      moreover have "\<forall>j x. unat j < unat (fa_messages w) \<longrightarrow> reads w j x \<longrightarrow> reads w1 j x"
        using w1(5) by (metis less_irrefl)
      moreover have "counters w1"
        using \<open>unat (fa_messages w1) = Suc (unat (fa_messages w))\<close>
        by (intro counters_msg [OF cw w1(4,3)]) (metis nat.distinct(1) unat_0)
      ultimately show ?thesis using l w1(2,6) assms(1) CallAdd t
        by (auto simp: good_def extends_def call_cost_def call_stored_def CHUNK_HEADER_SIZE_def)
    qed
  qed
qed

lemma extends_trans:
  assumes "extends u k v" "extends v l w"
  shows "extends u (k @ l) w"
proof -
  have "reads w i x" if "(i, x) \<in> set k" for i x
  proof -
    have "unat i \<in> set (map (unat \<circ> fst) k)" using that by force
    moreover have "map (unat \<circ> fst) k = [unat (fa_messages u)..<unat (fa_messages v)]"
      using assms(1) unfolding extends_def by blast
    ultimately have "unat i < unat (fa_messages v)" by (simp only: set_upt atLeastLessThan_iff)
    with that assms show ?thesis by (auto simp: extends_def)
  qed
  moreover have "map (unat \<circ> fst) (k @ l) = [unat (fa_messages u)..<unat (fa_messages w)]"
    using assms upt_add_eq_append [of "unat (fa_messages u)" "unat (fa_messages v)" "length l"]
    by (simp add: extends_def)
  ultimately show ?thesis using assms by (auto simp: extends_def)
qed

lemma exec_calls_good:
  assumes "good N w" "N + sum_list (map call_cost cs) < 2 ^ 64" "\<forall>c \<in> set cs. call_ok ops idx c"
    and "exec_calls rk rd ops idx cs w = (l, w')"
  shows "good (N + sum_list (map call_cost cs)) w' \<and> extends w l w' \<and>
         map snd l = concat (map (call_stored ops idx) cs)"
  using assms
proof (induction cs arbitrary: N w l w')
  case (Cons c cs)
  obtain k v where k: "exec_call rk rd ops idx c w = (k, v)" by fastforce
  obtain m u where m: "exec_calls rk rd ops idx cs v = (m, u)" by fastforce
  have e: "l = k @ m" "w' = u" using Cons.prems(4) k m by simp_all
  have s: "good (N + call_cost c) v" "extends w k v" "map snd k = call_stored ops idx c"
    using exec_call_step [OF Cons.prems(1) _ _ k] Cons.prems(2,3) by simp_all
  from Cons.IH [OF s(1) _ _ m] Cons.prems(2,3) s extends_trans [OF s(2)] show ?case
    unfolding e by (simp add: add.assoc)
qed (auto simp: extends_def)

lemma open_empty:
  assumes "view s = (\<lambda>_. [])"
  shows "\<exists>w. facade_open rk rd now s = Done w \<and> good 0 w \<and> fa_messages w = 0 \<and> dc_inner (fa_core w) = s"
  using assms total_none [of _ "db_open s"]
  by (simp add: facade_open_def db_open_def Let_def good_def blob_inv_def counters_def)

text \<open>A restart: the counters come from the database, the cache of positions is empty.\<close>

lemma reopen_good:
  assumes "good N w"
  shows "\<exists>w2. facade_open rk rd now (dc_inner (fa_core w)) = Done w2 \<and> blob_inv N (fa_core w2) \<and>
           fa_messages w2 = (if fa_messages w = 0 then 0 else fa_messages w - 1) \<and> fa_rnd_cnt w2 = 0 \<and>
           dc_inner (fa_core w2) = dc_inner (fa_core w)"
proof -
  let ?d = "db_open (dc_inner (fa_core w))"
  have c: "counters w" and b: "blob_inv N (fa_core w)" using assms by (simp_all add: good_def)
  obtain c0 where "total rk rd CONNECTIONS_CNT ?d = Done c0"
  proof (cases "bt_get [CONNECTIONS_CNT] (counts w)")
    case None
    then show ?thesis using total_none [of CONNECTIONS_CNT ?d] that by (simp add: db_open_def)
  next
    case (Some v)
    then obtain n where "v = emit_u64 rd n" using c by (auto simp: counters_def)
    with Some show ?thesis using total_set [of CONNECTIONS_CNT ?d n] that by (simp add: db_open_def)
  qed
  moreover have "total rk rd MESSAGES_CNT ?d = Done (if fa_messages w = 0 then 0 else fa_messages w - 1)"
    using c total_none [of MESSAGES_CNT ?d] total_set [of MESSAGES_CNT ?d]
    by (simp add: counters_def db_open_def)
  moreover have "total rk rd RANDOMNESS_CNT ?d = Done 0"
    using c total_none [of RANDOMNESS_CNT ?d] by (simp add: counters_def db_open_def)
  moreover have "blob_inv N ?d" using b by (simp add: blob_inv_def db_open_def blob_at_def)
  ultimately show ?thesis by (simp add: facade_open_def Let_def) (simp add: db_open_def)
qed

end

text \<open>C8: Whatever the layers do on a database that was empty when it was opened, every message whose type can be
  told gets the next number, and under its number it is read back as it was written, also after all later
  calls (as long as all chunks together have less than \<open>2^64\<close> bytes).\<close>

theorem messages_read_back:
  assumes "radiation_laws rd" "rocks_laws rk view" "view s = (\<lambda>_. [])"
    and "\<forall>c \<in> set cs. call_ok ops idx c" "sum_list (map call_cost cs) < 2 ^ 64"
  shows "\<exists>w l w'. facade_open rk rd now s = Done w \<and> exec_calls rk rd ops idx cs w = (l, w') \<and>
     map snd l = concat (map (call_stored ops idx) cs) \<and>
     map (unat \<circ> fst) l = [0..<length l] \<and>
     (\<forall>(i, bs) \<in> set l. fetch_full_message_bin rk rd i (fa_core w') = Done bs)"
proof -
  have e: "db_env rd rk view" using assms(1,2) by (rule db_env.intro)
  obtain w where w: "facade_open rk rd now s = Done w" "db_env.good rd view 0 w" "fa_messages w = 0"
    using db_env.open_empty [OF e assms(3)] by blast
  obtain l w' where l: "exec_calls rk rd ops idx cs w = (l, w')" by fastforce
  have "db_env.extends rd rk w l w'" "map snd l = concat (map (call_stored ops idx) cs)"
    using db_env.exec_calls_good [OF e w(2) _ assms(4) l] assms(5) by simp_all
  with w l show ?thesis
    by (auto simp: db_env.extends_def [OF e] db_env.reads_def [OF e])
qed

text \<open>C18: After a restart the numbering starts again at the number of the last message, so that the
  first message stored then replaces the last one of the run before; the numbering of the recorded
  randomness starts again at 0.\<close>

theorem restart_reuses_id:
  assumes "radiation_laws rd" "rocks_laws rk view" "view s = (\<lambda>_. [])"
    and "\<forall>c \<in> set cs. call_ok ops idx c"
    and "call_ok ops idx (CallAdd g sid did kind bs)" "call_stored ops idx (CallAdd g sid did kind bs) = [bs]"
    and "sum_list (map call_cost cs) + call_cost (CallAdd g sid did kind bs) < 2 ^ 64"
    and "facade_open rk rd now s = Done w" "exec_calls rk rd ops idx cs w = (l, w')" "l \<noteq> []"
  shows "\<exists>w2 w3. facade_open rk rd now (dc_inner (fa_core w')) = Done w2 \<and>
     fa_rnd_cnt w2 = 0 \<and>
     stream_add rk rd ops idx g sid did kind bs w2 = (Done (fst (last l)), w3) \<and>
     fetch_full_message_bin rk rd (fst (last l)) (fa_core w3) = Done bs"
proof -
  have e: "db_env rd rk view" using assms(1,2) by (rule db_env.intro)
  let ?N = "sum_list (map call_cost cs)"
  have w: "db_env.good rd view 0 w" "fa_messages w = 0"
    using db_env.open_empty [OF e assms(3), of now] assms(8) by auto
  have g: "db_env.good rd view ?N w'" "db_env.extends rd rk w l w'"
    using db_env.exec_calls_good [OF e w(1) _ assms(4,9)] assms(7) by simp_all
  have u: "map (unat \<circ> fst) l = [0..<length l]" "unat (fa_messages w') = length l"
    using g(2) w(2) by (simp_all add: db_env.extends_def [OF e])
  then have "unat (fst (last l)) = length l - 1"
    using assms(10) by (metis comp_apply last_map last_upt length_greater_0_conv)
  moreover have "fa_messages w' \<noteq> 0" using u(2) assms(10) by auto
  ultimately have last: "fst (last l) = fa_messages w' - 1"
    using u(2) by (simp add: word_unat_eq_iff unat_minus_one)
  obtain w2 where w2: "facade_open rk rd now (dc_inner (fa_core w')) = Done w2" "fa_rnd_cnt w2 = 0"
    "db_env.blob_inv rd view ?N (fa_core w2)" "fa_messages w2 = fst (last l)"
    using db_env.reopen_good [OF e g(1), of now] last \<open>fa_messages w' \<noteq> 0\<close> by auto
  obtain tys hashes where t: "types_of_kind ops idx kind bs = Inr (tys, hashes)"
    using assms(6) by (auto simp: call_stored_def split: sum.splits)
  have "?N + (CHUNK_HEADER_SIZE + length bs) < 2 ^ 64" using assms(7) by (simp add: call_cost_def)
  from db_env.stream_add_stored [OF e w2(3) this t, of g sid did] assms(5) w2 show ?thesis
    by (auto simp: db_env.reads_def [OF e])
qed

section \<open>A store in memory\<close>

definition mem_view :: "content \<Rightarrow> content" where
  "mem_view s c = (if bt_inv (s c) then s c else [])"

definition mem_rocks :: "content rocks" where
  "mem_rocks =
     \<lparr>rk_get = (\<lambda>c k s. Inr (bt_get k (mem_view s c))),
      rk_put = (\<lambda>c k v s. (Inr (), s(c := bt_insert k v (mem_view s c)))),
      rk_iter = (\<lambda>c mode s. map Inr (iter_view mode (mem_view s (Some c))))\<rparr>"

lemma mem_view_inv: "bt_inv (mem_view s c)"
  by (simp add: mem_view_def)

interpretation mem: rocks_laws mem_rocks mem_view
proof
  show "mem_view (snd (rk_put mem_rocks c k v s)) = (mem_view s)(c := bt_insert k v (mem_view s c))" for c k v s
  proof (rule ext)
    fix b
    have "bt_inv (bt_insert k v (mem_view s c))" by (intro bt_inv_insert mem_view_inv)
    then show "mem_view (snd (rk_put mem_rocks c k v s)) b = ((mem_view s)(c := bt_insert k v (mem_view s c))) b"
      by (cases "b = c") (simp_all add: mem_rocks_def mem_view_def [of "_(c := _)"] mem_view_def [of s b])
  qed
qed (simp_all add: mem_rocks_def mem_view_inv)

interpretation memdb: db_env sample_rd mem_rocks mem_view
  by unfold_locales

lemma mem_rocks_laws: "rocks_laws mem_rocks mem_view"
  by (rule mem.rocks_laws_axioms)

definition sample_group :: db_group where
  "sample_group = \<lparr>grp_addr = \<lparr>ip = V4 0x0a000001, port = 8302\<rparr>, grp_id = 0\<rparr>"

definition sample_calls :: "db_call list" where
  "sample_calls =
     [CallOpen \<lparr>ci_addr = \<lparr>ip = V4 0x0a000001, port = 8302\<rparr>, ci_pid = 1, ci_fd = 7\<rparr> True ''node'' duration_zero,
      CallAdd sample_group Handshake (sample_did True) Kind_Select [1, 2],
      CallRaw sample_group Raw True duration_zero [9],
      CallAdd sample_group (Forward 1) (sample_did False) Kind_Yamux [3],
      CallDrop sample_group]"

lemma sample_calls_ok:
  "\<forall>c \<in> set sample_calls. call_ok sample_ops False c"
  "concat (map (call_stored sample_ops False) sample_calls) = [[1, 2], [3]]"
  "sum_list (map call_cost sample_calls) < 2 ^ 64"
  by (simp_all add: sample_calls_def call_ok_def call_stored_def call_cost_def sample_did_def time_ok_def
      duration_ok_def stream_id_ok_def types_of_kind_def message_type_display_def CHUNK_HEADER_SIZE_def)

theorem messages_read_back_witness:
  "\<exists>w l w'. facade_open mem_rocks sample_rd duration_zero (\<lambda>_. []) = Done w \<and>
     exec_calls mem_rocks sample_rd sample_ops False sample_calls w = (l, w') \<and>
     map snd l = [[1, 2], [3]] \<and> map (unat \<circ> fst) l = [0..<length l] \<and>
     (\<forall>(i, bs) \<in> set l. fetch_full_message_bin mem_rocks sample_rd i (fa_core w') = Done bs)"
proof -
  have "mem_view (\<lambda>_. []) = (\<lambda>_. [])" by (rule ext) (simp add: mem_view_def)
  from messages_read_back [where cs = sample_calls and ops = sample_ops and idx = False and
      now = duration_zero and view = mem_view and s = "\<lambda>_. []" and rk = mem_rocks and rd = sample_rd,
      OF sample_rd_laws mem_rocks_laws this]
  show ?thesis using sample_calls_ok by simp
qed

theorem restart_reuses_id_witness:
  "\<exists>w l w' w2 w3. facade_open mem_rocks sample_rd duration_zero (\<lambda>_. []) = Done w \<and>
     exec_calls mem_rocks sample_rd sample_ops False sample_calls w = (l, w') \<and>
     facade_open mem_rocks sample_rd duration_zero (dc_inner (fa_core w')) = Done w2 \<and>
     stream_add mem_rocks sample_rd sample_ops False sample_group Handshake (sample_did True) Kind_Select [7] w2 =
       (Done (fst (last l)), w3) \<and>
     fetch_full_message_bin mem_rocks sample_rd (fst (last l)) (fa_core w3) = Done [7]"
proof -
  have v: "mem_view (\<lambda>_. []) = (\<lambda>_. [])" by (rule ext) (simp add: mem_view_def)
  obtain w where w: "facade_open mem_rocks sample_rd duration_zero (\<lambda>_. []) = Done w"
    "memdb.good 0 w" using memdb.open_empty [OF v] by blast
  obtain l w' where l: "exec_calls mem_rocks sample_rd sample_ops False sample_calls w = (l, w')" by fastforce
  have "map snd l = [[1, 2], [3]]"
    using memdb.exec_calls_good [OF w(2) _ sample_calls_ok(1) l] sample_calls_ok(2,3) by simp
  then have "l \<noteq> []" by auto
  with restart_reuses_id [OF sample_rd_laws mem_rocks_laws v sample_calls_ok(1) _ _ _ w(1) l,
      of sample_group Handshake "sample_did True" Kind_Select "[7]"] w(1) l
  show ?thesis
    by (auto simp: sample_calls_def call_ok_def call_stored_def call_cost_def sample_did_def time_ok_def
      duration_ok_def stream_id_ok_def types_of_kind_def message_type_display_def CHUNK_HEADER_SIZE_def)
qed

end
