(* ===== verification/Intersect.thy ===== *)
theory Intersect
  imports Prelude "HOL-Library.Multiset"
begin

text \<open>
  Intersection of sorted iterators (\<open>mina-recorder/src/database/sorted_intersect.rs\<close>), by which
  \<open>DbCore::fetch_messages\<close> combines two indexes. An iterator is the list of what it still yields,
  \<open>Vec::sort_by\<close> is a stable insertion sort. The locale \<open>iter_order\<close> is the order in which the
  iterators run; its lemmas hold for both directions. The result is the intersection of the
  iterators as multisets, in their order and cut at the limit.
\<close>

section \<open>The heap\<close>

text \<open>\<open>before a b\<close> when the comparison of \<open>a\<close> and \<open>b\<close> does not give \<open>Greater\<close>.\<close>

fun insort_by :: "('a \<Rightarrow> 'a \<Rightarrow> bool) \<Rightarrow> 'a \<Rightarrow> 'a list \<Rightarrow> 'a list" where
  "insort_by before x [] = [x]"
| "insort_by before x (y # ys) = (if before x y then x # y # ys else y # insort_by before x ys)"

definition sort_by :: "('a \<Rightarrow> 'a \<Rightarrow> bool) \<Rightarrow> 'a list \<Rightarrow> 'a list" where
  "sort_by before xs = foldr (insort_by before) xs []"

definition runs_before :: "bool \<Rightarrow> 'a::linorder \<Rightarrow> 'a \<Rightarrow> bool" where
  "runs_before forward a b = (if forward then a \<le> b else b \<le> a)"

definition heapify :: "bool \<Rightarrow> ('a::linorder \<times> nat) list \<Rightarrow> ('a \<times> nat) list" where
  "heapify forward heap = sort_by (\<lambda>(a, _) (b, _). runs_before forward b a) heap"

fun fill_next :: "nat \<Rightarrow> 'a list list \<Rightarrow> (('a \<times> nat) list \<times> 'a list list) option" where
  "fill_next i [] = Some ([], [])"
| "fill_next i ([] # iters) = None"
| "fill_next i ((value # iter) # iters) =
     (case fill_next (Suc i) iters of
        None \<Rightarrow> None
      | Some (heap, iters') \<Rightarrow> Some ((value, i) # heap, iter # iters'))"

definition fill_heap ::
  "bool \<Rightarrow> 'a::linorder list list \<Rightarrow> (('a \<times> nat) list \<times> 'a list list) option" where
  "fill_heap forward iters =
     (case fill_next 0 iters of
        None \<Rightarrow> None | Some (heap, iters') \<Rightarrow> Some (heapify forward heap, iters'))"

definition is_hit :: "('a \<times> nat) list \<Rightarrow> bool" where
  "is_hit heap =
     (case heap of
        [] \<Rightarrow> False
      | (value, _) # _ \<Rightarrow> snd (fold (\<lambda>(b, _) (a, eq). (b, eq \<and> a = b)) heap (value, True)))"

section \<open>The intersection\<close>

lemma fill_next_length:
  "fill_next i iters = Some (heap, iters') \<Longrightarrow>
     sum_list (map length iters') \<le> sum_list (map length iters)"
  by (induction i iters arbitrary: heap iters' rule: fill_next.induct)
    (auto split: option.splits prod.splits)

lemma fill_heap_length:
  "fill_heap forward iters = Some (heap, iters') \<Longrightarrow>
     sum_list (map length iters') \<le> sum_list (map length iters)"
  by (auto simp: fill_heap_def fill_next_length split: option.splits prod.splits)

lemma sum_list_tl_less:
  "n < length iters \<Longrightarrow> iters ! n = x # it \<Longrightarrow>
     sum_list (map length (iters[n := it])) < sum_list (map length iters)"
proof (induction iters arbitrary: n)
  case (Cons a iters)
  then show ?case by (cases n) auto
qed simp

text \<open>\<open>None\<close> is the panic of an index out of range.\<close>

function isect_loop ::
  "bool \<Rightarrow> nat \<Rightarrow> 'a::linorder list list \<Rightarrow> ('a \<times> nat) list \<Rightarrow> 'a list \<Rightarrow> 'a list option" where
  "isect_loop forward limit iters heap ret =
     (if length ret < limit then
        if is_hit heap then
          if heap = [] then Some ret
          else
            (case fill_heap forward iters of
               None \<Rightarrow> Some (ret @ [fst (last heap)])
             | Some (heap', iters') \<Rightarrow>
                 isect_loop forward limit iters' heap' (ret @ [fst (last heap)]))
        else if heap = [] then Some ret
        else if length iters \<le> snd (last heap) then None
        else
          (case iters ! snd (last heap) of
             [] \<Rightarrow> Some ret
           | item # iter \<Rightarrow>
               isect_loop forward limit (iters[snd (last heap) := iter])
                 (heapify forward (butlast heap @ [(item, snd (last heap))])) ret)
      else Some ret)"
  by pat_completeness auto
termination
proof (relation "measure (\<lambda>(forward, limit, iters, heap, ret).
         (limit - length ret) + sum_list (map length iters))", goal_cases)
  case (2 forward limit iters heap ret x y z)
  then show ?case using fill_heap_length [of forward iters y z] by auto
next
  case (3 forward limit iters heap ret item iter)
  then show ?case using sum_list_tl_less [of "snd (last heap)" iters item iter] by auto
qed simp

declare isect_loop.simps [simp del]

definition sorted_intersect :: "'a::linorder list list \<Rightarrow> nat \<Rightarrow> bool \<Rightarrow> 'a list option" where
  "sorted_intersect iters limit forward =
     (case iters of
        [] \<Rightarrow> Some []
      | [iter] \<Rightarrow> Some (take limit iter)
      | _ \<Rightarrow>
          (case fill_heap forward iters of
             None \<Rightarrow> Some []
           | Some (heap, iters') \<Rightarrow> isect_loop forward limit iters' heap []))"

section \<open>The order of the iterators\<close>

text \<open>\<open>multi_cap le full its\<close>: \<open>full\<close> is the intersection of the lists as multisets, in order.\<close>

definition multi_cap :: "('a \<Rightarrow> 'a \<Rightarrow> bool) \<Rightarrow> 'a list \<Rightarrow> 'a list list \<Rightarrow> bool" where
  "multi_cap le full its =
     (sorted_wrt le full \<and>
      (\<forall>x. count_list full x = Min (set (map (\<lambda>l. count_list l x) its))))"

locale iter_order =
  fixes le :: "'a \<Rightarrow> 'a \<Rightarrow> bool"
  assumes le_refl: "le a a"
    and le_antisym: "le a b \<Longrightarrow> le b a \<Longrightarrow> a = b"
    and le_trans: "le a b \<Longrightarrow> le b c \<Longrightarrow> le a c"
    and le_total: "le a b \<or> le b a"
begin

lemma cap_empty:
  assumes "[] \<in> set its"
  shows "multi_cap le [] its"
proof -
  have "Min (set (map (\<lambda>l. count_list l x) its)) = 0" for x
  proof -
    have "0 \<in> set (map (\<lambda>l. count_list l x) its)" using assms by force
    then show ?thesis by (metis List.finite_set Min_le le_zero_eq)
  qed
  then show ?thesis by (simp add: multi_cap_def)
qed

lemma cap_member: "multi_cap le full its \<Longrightarrow> x \<in> set full \<Longrightarrow> l \<in> set its \<Longrightarrow> x \<in> set l"
proof (rule ccontr)
  assume c: "multi_cap le full its" "x \<in> set full" "l \<in> set its" "x \<notin> set l"
  then have "0 \<in> set (map (\<lambda>l. count_list l x) its)"
    by (force simp: count_list_0_iff)
  then have "Min (set (map (\<lambda>l. count_list l x) its)) = 0"
    by (metis List.finite_set Min_le le_zero_eq)
  with c have "count_list full x = 0" unfolding multi_cap_def by simp
  with c show False by (simp add: count_list_0_iff)
qed

lemma cap_hit:
  assumes "multi_cap le full its" "its \<noteq> []" "\<forall>l\<in>set its. sorted_wrt le (a # l)"
  shows "multi_cap le (a # full) (map ((#) a) its)"
proof -
  have "sorted_wrt le (a # full)"
    using assms cap_member [OF assms(1)] by (fastforce simp: multi_cap_def neq_Nil_conv)
  moreover have "count_list (a # full) x = Min (set (map (\<lambda>l. count_list l x) (map ((#) a) its)))"
    for x
  proof (cases "x = a")
    case True
    have "Min (Suc ` set (map (\<lambda>l. count_list l x) its)) =
        Suc (Min (set (map (\<lambda>l. count_list l x) its)))"
      using assms(2) by (intro mono_Min_commute [symmetric]) (auto simp: mono_def)
    with True assms(1) show ?thesis by (simp add: multi_cap_def image_image comp_def)
  next
    case False
    with assms(1) show ?thesis by (auto simp: multi_cap_def comp_def)
  qed
  ultimately show ?thesis by (simp add: multi_cap_def)
qed

lemma cap_skip:
  assumes "multi_cap le full (its[k := l])" "k < length its" "its ! k = a # l"
    and "j < length its" "j \<noteq> k" "a \<notin> set (its ! j)"
  shows "multi_cap le full its"
proof -
  have "Min (set (map (\<lambda>l. count_list l x) (its[k := l]))) =
      Min (set (map (\<lambda>l. count_list l x) its))" for x
  proof (cases "x = a")
    case False
    then have "map (\<lambda>l. count_list l x) (its[k := l]) = map (\<lambda>l. count_list l x) its"
      using assms(2,3) by (intro nth_equalityI) (auto simp: nth_list_update)
    then show ?thesis by simp
  next
    case True
    have z: "Min (set (map (\<lambda>l. count_list l x) ls)) = 0"
      if "its ! j \<in> set ls" for ls
    proof -
      have "0 \<in> set (map (\<lambda>l. count_list l x) ls)"
        using that True assms(6) by (force simp: count_list_0_iff)
      then show ?thesis by (metis List.finite_set Min_le le_zero_eq)
    qed
    have "its ! j \<in> set (its[k := l])"
      using assms(4,5) by (metis length_list_update nth_list_update_neq nth_mem)
    with z assms(4) show ?thesis by simp
  qed
  with assms(1) show ?thesis by (simp add: multi_cap_def)
qed

lemma insort_by_mset: "mset (insort_by before x xs) = add_mset x (mset xs)"
  by (induction xs) auto

lemma sort_by_mset: "mset (sort_by before xs) = mset xs"
  unfolding sort_by_def by (induction xs) (simp_all add: insort_by_mset)

lemma insort_by_sorted:
  assumes "\<And>a b. before a b \<or> before b a"
    and "\<And>a b c. before a b \<Longrightarrow> before b c \<Longrightarrow> before a c"
  shows "sorted_wrt before xs \<Longrightarrow> sorted_wrt before (insort_by before x xs)"
proof (induction xs)
  case (Cons y ys)
  have "set (insort_by before x ys) = insert x (set ys)"
    using insort_by_mset [of before x ys] by (metis set_mset_add_mset_insert set_mset_mset)
  with Cons assms show ?case by (auto intro: assms(2))
qed simp

lemma sort_by_sorted:
  assumes "\<And>a b. before a b \<or> before b a"
    and "\<And>a b c. before a b \<Longrightarrow> before b c \<Longrightarrow> before a c"
  shows "sorted_wrt before (sort_by before xs)"
  unfolding sort_by_def using assms by (induction xs) (simp_all add: insort_by_sorted)

lemma cap_exists:
  assumes "its \<noteq> []"
  shows "\<exists>full. multi_cap le full its"
proof -
  have "\<exists>M. \<forall>x. count M x = Min (set (map (\<lambda>l. count_list l x) its))"
    using assms
  proof (induction its rule: list_nonempty_induct)
    case (single l)
    then show ?case by (intro exI [of _ "mset l"]) (simp add: count_mset)
  next
    case (cons l ls)
    then obtain M where "\<forall>x. count M x = Min (set (map (\<lambda>l. count_list l x) ls))" by blast
    with cons show ?case by (intro exI [of _ "mset l \<inter># M"]) (simp add: count_mset)
  qed
  then obtain M where M: "\<And>x. count M x = Min (set (map (\<lambda>l. count_list l x) its))" by blast
  obtain xs where "mset xs = M" using ex_mset by blast
  then have "count_list (sort_by le xs) x = count M x" for x
    by (metis count_mset sort_by_mset)
  moreover have "sorted_wrt le (sort_by le xs)"
    using le_total le_trans by (rule sort_by_sorted)
  ultimately show ?thesis using M by (auto simp: multi_cap_def)
qed

end

interpretation ro: iter_order "runs_before forward" for forward
  by unfold_locales (auto simp: runs_before_def split: if_splits)

section \<open>The loop\<close>

lemma heapify_mset: "mset (heapify forward heap) = mset heap"
  by (simp add: heapify_def ro.sort_by_mset)

lemma heapify_sorted:
  "sorted_wrt (\<lambda>p q. runs_before forward (fst q) (fst p)) (heapify forward heap)"
  unfolding heapify_def case_prod_beta
  by (rule ro.sort_by_sorted) (auto intro: ro.le_trans simp: runs_before_def)

lemma fill_next_eq:
  "fill_next i iters =
     (if [] \<in> set iters then None
      else Some (zip (map hd iters) [i..<i + length iters], map tl iters))"
  by (induction i iters rule: fill_next.induct)
    (auto simp: upt_conv_Cons simp del: upt_Suc split: option.splits)

lemma is_hit_iff: "is_hit heap \<longleftrightarrow> heap \<noteq> [] \<and> (\<forall>p\<in>set heap. fst p = fst (hd heap))"
proof -
  have "snd (fold (\<lambda>(b, _) (a, eq). (b, eq \<and> a = b)) h (v, e)) \<longleftrightarrow>
      e \<and> (\<forall>p\<in>set h. fst p = v)" for h :: "('a \<times> nat) list" and v e
    by (induction h arbitrary: v e) fastforce+
  then show ?thesis by (auto simp: is_hit_def split: list.splits)
qed

lemma zip_upt_mem:
  "length vs = n \<Longrightarrow> (a, k) \<in> set (zip vs [0..<n]) \<longleftrightarrow> k < n \<and> vs ! k = a"
  by (auto simp: in_set_zip)

definition heap_of :: "bool \<Rightarrow> ('a::linorder \<times> nat) list \<Rightarrow> 'a list \<Rightarrow> 'a list list \<Rightarrow> bool" where
  "heap_of forward heap vs iters =
     (iters \<noteq> [] \<and> length vs = length iters \<and> mset heap = mset (zip vs [0..<length iters]) \<and>
      sorted_wrt (\<lambda>p q. runs_before forward (fst q) (fst p)) heap \<and>
      (\<forall>k<length iters. sorted_wrt (runs_before forward) (vs ! k # iters ! k)))"

lemma heap_of_set: "heap_of forward heap vs iters \<Longrightarrow>
    (a, k) \<in> set heap \<longleftrightarrow> k < length iters \<and> vs ! k = a"
  by (metis heap_of_def mset_eq_setD zip_upt_mem)

lemma heap_of_fill:
  assumes "fill_heap forward iters = Some (heap, iters')" "iters \<noteq> []"
    and "\<forall>l\<in>set iters. sorted_wrt (runs_before forward) l"
  shows "heap_of forward heap (map hd iters) iters'" "map2 (#) (map hd iters) iters' = iters"
proof -
  have e: "[] \<notin> set iters" "iters' = map tl iters"
    "heap = heapify forward (zip (map hd iters) [0..<length iters])"
    using assms(1) by (auto simp: fill_heap_def fill_next_eq split: if_splits)
  have c: "hd (iters ! k) # tl (iters ! k) = iters ! k" if "k < length iters" for k
    using that e(1) by (metis list.collapse nth_mem)
  then show m: "map2 (#) (map hd iters) iters' = iters"
    unfolding e by (intro nth_equalityI) auto
  show "heap_of forward heap (map hd iters) iters'"
    using assms(2,3) c unfolding heap_of_def e
    by (auto simp: heapify_mset heapify_sorted simp del: sorted_wrt.simps)
qed

lemma heap_of_skip:
  assumes h: "heap_of forward heap vs iters" "last heap = (a, k)" "iters ! k = item # iter"
  shows "heap_of forward (heapify forward (butlast heap @ [(item, k)])) (vs[k := item]) (iters[k := iter])"
proof -
  have ne: "heap \<noteq> []" using h(1) by (auto simp: heap_of_def)
  then have k: "k < length iters" "vs ! k = a"
    using heap_of_set [OF h(1), of a k] h(2) last_in_set [OF ne] by auto
  have l: "length vs = length iters" using h(1) by (simp add: heap_of_def)
  have "mset (butlast heap) = mset heap - {#(a, k)#}"
    using arg_cong [OF append_butlast_last_id [OF ne], of mset] h(2) by (metis mset_append mset_single_iff add_diff_cancel_right')
  moreover have "zip (vs[k := item]) [0..<length iters] = (zip vs [0..<length iters])[k := (item, k)]"
    using k l by (intro nth_equalityI) (auto simp: nth_list_update)
  ultimately have "mset (butlast heap @ [(item, k)]) =
      mset (zip (vs[k := item]) [0..<length iters])"
    using h(1) k l by (simp add: heap_of_def mset_update)
  with h k l show ?thesis
    by (auto simp: heap_of_def heapify_mset heapify_sorted nth_list_update)
qed

lemma heap_of_hit:
  assumes h: "heap_of forward heap vs iters" "is_hit heap"
  shows "map2 (#) vs iters = map ((#) (fst (last heap))) iters"
    and "\<forall>l\<in>set iters. sorted_wrt (runs_before forward) (fst (last heap) # l)"
proof -
  have v: "vs ! k = fst (last heap)" if "k < length iters" for k
  proof -
    have "(vs ! k, k) \<in> set heap" using heap_of_set [OF h(1)] that by blast
    then show ?thesis using h(2) unfolding is_hit_iff by (metis fst_conv last_in_set)
  qed
  show "map2 (#) vs iters = map ((#) (fst (last heap))) iters"
    using h(1) v by (intro nth_equalityI) (auto simp: heap_of_def)
  show "\<forall>l\<in>set iters. sorted_wrt (runs_before forward) (fst (last heap) # l)"
    using h(1) v by (metis heap_of_def in_set_conv_nth)
qed

lemma heap_of_miss:
  assumes h: "heap_of forward heap vs iters" "\<not> is_hit heap" "last heap = (a, k)"
  shows "k < length iters" "vs ! k = a"
    and "\<exists>j<length iters. j \<noteq> k \<and> a \<notin> set (vs ! j # iters ! j)"
proof -
  have ne: "heap \<noteq> []" using h(1) by (auto simp: heap_of_def)
  then show k: "k < length iters" "vs ! k = a"
    using heap_of_set [OF h(1), of a k] h(3) last_in_set [OF ne] by auto
  have "\<exists>p\<in>set heap. fst p \<noteq> a" using h(2) ne hd_in_set unfolding is_hit_iff by metis
  then obtain b j where b: "(b, j) \<in> set heap" "b \<noteq> a" by auto
  have j: "j < length iters" "vs ! j = b" using heap_of_set [OF h(1)] b(1) by blast+
  have "runs_before forward a b"
  proof -
    have "sorted_wrt (\<lambda>p q. runs_before forward (fst q) (fst p)) (butlast heap @ [last heap])"
      using h(1) ne by (simp add: heap_of_def)
    then have "\<forall>p\<in>set (butlast heap). runs_before forward a (fst p)"
      using h(3) by (auto simp: sorted_wrt_append)
    moreover have "(b, j) \<in> set (butlast heap)"
      using b h(3) by (metis append_butlast_last_id ne in_set_butlastD prod.inject rotate1.simps(2)
          set_ConsD set_rotate1)
    ultimately show ?thesis by auto
  qed
  moreover have "\<forall>x\<in>set (iters ! j). runs_before forward b x"
    using h(1) j by (auto simp: heap_of_def)
  ultimately have "a \<notin> set (vs ! j # iters ! j)"
    using b(2) j(2) ro.le_antisym by (metis set_ConsD)
  with j b(2) k(2) show "\<exists>j<length iters. j \<noteq> k \<and> a \<notin> set (vs ! j # iters ! j)" by blast
qed

lemma isect_loop_cap:
  assumes "heap_of forward heap vs iters"
  shows "\<exists>full. multi_cap (runs_before forward) full (map2 (#) vs iters) \<and>
           isect_loop forward limit iters heap ret = Some (ret @ take (limit - length ret) full)"
  using assms
proof (induction forward limit iters heap ret arbitrary: vs rule: isect_loop.induct)
  case (1 forward limit iters heap ret)
  note h = 1(3)
  have ne: "iters \<noteq> []" "heap \<noteq> []" "map2 (#) vs iters \<noteq> []"
    using h by (auto simp: heap_of_def)
  consider (limit) "\<not> length ret < limit" | (hit) "length ret < limit" "is_hit heap"
    | (miss) "length ret < limit" "\<not> is_hit heap" by blast
  then show ?case
  proof cases
    case limit
    then show ?thesis using ro.cap_exists [OF ne(3)] by (simp add: isect_loop.simps)
  next
    case hit
    let ?a = "fst (last heap)"
    note hh = heap_of_hit [OF h hit(2)]
    have "\<exists>full. multi_cap (runs_before forward) full iters \<and>
        isect_loop forward limit iters heap ret =
          Some (ret @ ?a # take (limit - Suc (length ret)) full)"
    proof (cases "fill_heap forward iters")
      case None
      then have "[] \<in> set iters"
        by (auto simp: fill_heap_def fill_next_eq split: if_splits)
      with None hit ne show ?thesis
        by (intro exI [of _ "[]"]) (simp add: isect_loop.simps ro.cap_empty)
    next
      case (Some p)
      obtain heap' iters' where p: "p = (heap', iters')" by (cases p)
      have "\<forall>l\<in>set iters. sorted_wrt (runs_before forward) l" using hh(2) by simp
      note f = heap_of_fill [OF Some [unfolded p] ne(1) this]
      from 1(1) [OF hit ne(2) Some p [symmetric] f(1)] f(2) Some p hit ne show ?thesis
        by (simp add: isect_loop.simps [of forward limit iters])
    qed
    then obtain full where full: "multi_cap (runs_before forward) full iters"
      "isect_loop forward limit iters heap ret =
          Some (ret @ ?a # take (limit - Suc (length ret)) full)" by blast
    have "multi_cap (runs_before forward) (?a # full) (map2 (#) vs iters)"
      using ro.cap_hit [OF full(1) ne(1) hh(2)] hh(1) by simp
    with full(2) hit(1) show ?thesis
      by (intro exI [of _ "?a # full"]) (simp add: take_Cons')
  next
    case miss
    obtain a k where l: "last heap = (a, k)" by force
    note m = heap_of_miss [OF h miss(2) l]
    have len: "length vs = length iters" using h by (simp add: heap_of_def)
    have at_k: "map2 (#) vs iters ! k = a # iters ! k" using m len by simp
    have "\<exists>full. multi_cap (runs_before forward) full ((map2 (#) vs iters)[k := iters ! k]) \<and>
        isect_loop forward limit iters heap ret = Some (ret @ take (limit - length ret) full)"
    proof (cases "iters ! k")
      case Nil
      have "[] \<in> set ((map2 (#) vs iters)[k := []])" using m(1) len by (simp add: set_update_memI)
      with Nil miss ne l m(1) show ?thesis
        by (intro exI [of _ "[]"]) (simp add: isect_loop.simps ro.cap_empty)
    next
      case (Cons item iter)
      have e: "map2 (#) (vs[k := item]) (iters[k := iter]) = (map2 (#) vs iters)[k := item # iter]"
        using len m(1) by - (rule nth_equalityI, simp_all add: nth_list_update)
      show ?thesis
        using 1(2) [OF miss ne(2), unfolded l snd_conv, OF _ Cons heap_of_skip [OF h l Cons]]
          m(1) Cons miss ne l e
        by (simp add: isect_loop.simps [of forward limit iters])
    qed
    then obtain full where full:
      "multi_cap (runs_before forward) full ((map2 (#) vs iters)[k := iters ! k])"
      "isect_loop forward limit iters heap ret = Some (ret @ take (limit - length ret) full)"
      by blast
    obtain j where j: "j < length iters" "j \<noteq> k" "a \<notin> set (vs ! j # iters ! j)"
      using m(3) by blast
    have "multi_cap (runs_before forward) full (map2 (#) vs iters)"
      by (rule ro.cap_skip [OF full(1) _ at_k, of j]) (use j m(1) len in auto)
    with full(2) show ?thesis by blast
  qed
qed

lemma sorted_intersect_multi:
  assumes "iters \<noteq> []" "\<forall>l\<in>set iters. sorted_wrt (runs_before forward) l"
  shows "\<exists>full. multi_cap (runs_before forward) full iters \<and>
           sorted_intersect iters limit forward = Some (take limit full)"
proof -
  consider (one) l where "iters = [l]" | (many) l m ls where "iters = l # m # ls"
    using assms(1) by (cases iters rule: remdups_adj.cases) auto
  then show ?thesis
  proof cases
    case one
    then show ?thesis
      using assms(2) by (intro exI [of _ l]) (simp add: multi_cap_def sorted_intersect_def)
  next
    case many
    show ?thesis
    proof (cases "fill_heap forward iters")
      case None
      then have "[] \<in> set iters" by (auto simp: fill_heap_def fill_next_eq split: if_splits)
      then have "multi_cap (runs_before forward) [] iters" by (rule ro.cap_empty)
      with None many show ?thesis
        by (intro exI [of _ "[]"]) (simp add: sorted_intersect_def)
    next
      case (Some p)
      obtain heap' iters' where p: "p = (heap', iters')" by (cases p)
      note f = heap_of_fill [OF Some [unfolded p] assms]
      from isect_loop_cap [OF f(1), of limit "[]"] f(2) Some p many show ?thesis
        by (simp add: sorted_intersect_def)
    qed
  qed
qed

text \<open>C17: Intersecting any iterators that run in one direction ends without a panic and gives the
  elements common to all of them, each as often as the iterator that has it the least often, in the
  order of the iterators and at most as many as the limit.\<close>

theorem sorted_intersect_cap:
  assumes "iters \<noteq> []" "\<forall>l\<in>set iters. sorted_wrt (runs_before forward) l"
  shows "\<exists>full. multi_cap (runs_before forward) full iters \<and>
           sorted_intersect iters limit forward = Some (take limit full)"
  by (rule sorted_intersect_multi [OF assms])

theorem sorted_intersect_cap_witness:
  "\<exists>full. multi_cap (runs_before False) full [[9, 7, 7, 4, 2], [7, 7, 7, 5, 2::nat]] \<and>
     sorted_intersect [[9, 7, 7, 4, 2], [7, 7, 7, 5, 2]] 2 False = Some (take 2 full)"
  by (rule sorted_intersect_cap) (simp_all add: runs_before_def)

end
