(* ===== verification/Query.thy ===== *)
theory Query
  imports Db Intersect
begin

text \<open>
  The database, reading side (\<open>DbCore\<close> in \<open>mina-recorder/src/database/core.rs\<close>): search by time,
  lists of connections and messages with their filters, single messages, statistics and the search for
  snarks by ledger hash. An iterator is the list of its items; a stored item that cannot be decoded is
  logged and skipped. \<open>itertools::kmerge_by\<close> is an argument, with the locale \<open>kmerge_laws\<close> for its
  documented behaviour; so are the functions that render a message as JSON.
\<close>

section \<open>Search by time\<close>

definition duration_less :: "duration \<Rightarrow> duration \<Rightarrow> bool" where
  "duration_less a b =
     (as_secs a < as_secs b \<or> as_secs a = as_secs b \<and> subsec_nanos a < subsec_nanos b)"

text \<open>The loop of \<open>search_timestamp\<close>; \<open>at pos\<close> is the time of the record at a position.\<close>

function search_loop ::
  "(u64 \<Rightarrow> (db_error, duration) outcome) \<Rightarrow> duration \<Rightarrow> u64 \<Rightarrow> u64 \<Rightarrow> (db_error, u64) outcome" where
  "search_loop at timestamp pos r =
     (if r = 0 then Done pos
      else
        case at pos of
          Done t \<Rightarrow>
            (let r = r div 2 in
             if duration_less t timestamp then search_loop at timestamp (pos + r) r
             else if t = timestamp then Done pos
             else search_loop at timestamp (pos - r) r)
        | Fail e \<Rightarrow> Fail e
        | Panic \<Rightarrow> Panic
        | Hang \<Rightarrow> Hang)"
  by pat_completeness auto
termination
proof (relation "measure (\<lambda>(at, timestamp, pos, r). unat r)", goal_cases)
  case (2 at timestamp pos r x y)
  then have "0 < unat r" by (simp add: unat_gt_0)
  with 2 show ?case by (simp add: unat_div_distrib)
next
  case (3 at timestamp pos r x y)
  then have "0 < unat r" by (simp add: unat_gt_0)
  with 3 show ?case by (simp add: unat_div_distrib)
qed simp

declare search_loop.simps [simp del]

definition search_timestamp ::
  "'s rocks \<Rightarrow> radiation \<Rightarrow> cf \<Rightarrow> 't absorb \<Rightarrow> ('t \<Rightarrow> duration) \<Rightarrow> u64 \<Rightarrow> u64 \<Rightarrow> 's db_core \<Rightarrow>
   (db_error, u64) outcome" where
  "search_timestamp rk rd c p ts n timestamp d =
     (if n = 0 then Fail NoItemAtCursor
      else
        search_loop
          (\<lambda>pos. case db_get rk rd c p (u64_be pos) d of
             Done v \<Rightarrow> Done (ts v) | Fail e \<Rightarrow> Fail e | Panic \<Rightarrow> Panic | Hang \<Rightarrow> Hang)
          \<lparr>as_secs = timestamp, subsec_nanos = 0\<rparr> (n div 2) (n div 2))"

text \<open>\<open>connection_id\<close> and \<open>message_id\<close>: whether the start is given, and the start.\<close>

definition start_id ::
  "'s rocks \<Rightarrow> radiation \<Rightarrow> cf \<Rightarrow> 't absorb \<Rightarrow> ('t \<Rightarrow> duration) \<Rightarrow> u8 \<Rightarrow> valid_coordinate \<Rightarrow> 's db_core \<Rightarrow>
   bool \<times> u64" where
  "start_id rk rd c p ts cnt coordinate d =
     (case vc_start coordinate of
        ById i explicit \<Rightarrow> (explicit, i)
      | ByTimestamp timestamp \<Rightarrow>
          (let n = (case total rk rd cnt d of Done n \<Rightarrow> n | _ \<Rightarrow> 0) in
           case search_timestamp rk rd c p ts n timestamp d of Done i \<Rightarrow> (True, i) | _ \<Rightarrow> (False, 0)))"

definition connection_id ::
  "'s rocks \<Rightarrow> radiation \<Rightarrow> valid_coordinate \<Rightarrow> 's db_core \<Rightarrow> bool \<times> u64" where
  "connection_id rk rd = start_id rk rd CONNECTIONS (connection_absorb rd) cn_timestamp CONNECTIONS_CNT"

definition message_id :: "'s rocks \<Rightarrow> radiation \<Rightarrow> valid_coordinate \<Rightarrow> 's db_core \<Rightarrow> bool \<times> u64" where
  "message_id rk rd = start_id rk rd MESSAGES (message_absorb rd) msg_timestamp MESSAGES_CNT"

section \<open>Iterators\<close>

definition ok_ext :: "radiation \<Rightarrow> 'a absorb \<Rightarrow> bytes \<Rightarrow> 'a option" where
  "ok_ext rd p bs = (case absorb_ext rd p bs of Done v \<Rightarrow> Some v | _ \<Rightarrow> None)"

definition decode_item ::
  "radiation \<Rightarrow> 'k absorb \<Rightarrow> 't absorb \<Rightarrow> string + bytes \<times> bytes \<Rightarrow> ('k \<times> 't) option" where
  "decode_item rd pk pt item =
     (case item of
        Inl _ \<Rightarrow> None
      | Inr (key, v) \<Rightarrow>
          (case (ok_ext rd pk key, ok_ext rd pt v) of (Some k, Some t) \<Rightarrow> Some (k, t) | _ \<Rightarrow> None))"

definition decode_index :: "radiation \<Rightarrow> 'k absorb \<Rightarrow> string + bytes \<times> bytes \<Rightarrow> 'k option" where
  "decode_index rd pk item = (case item of Inl _ \<Rightarrow> None | Inr (key, _) \<Rightarrow> ok_ext rd pk key)"

definition direction_mode :: "direction \<Rightarrow> iter_mode" where
  "direction_mode dir = (case dir of DirForward \<Rightarrow> IterStart | DirReverse \<Rightarrow> IterEnd)"

definition start_mode :: "bool \<Rightarrow> u64 \<Rightarrow> direction \<Rightarrow> iter_mode" where
  "start_mode present i dir = (if present then IterFrom (u64_be i) dir else direction_mode dir)"

section \<open>Connections\<close>

text \<open>
  \<open>post_process\<close> computes how long the connection lasted, and \<open>expect\<close>s that it did not end before it
  began; \<open>None\<close> is the panic. The speed is a floating-point quotient of the bytes and this duration.
\<close>

definition post_process :: "duration \<Rightarrow> connection \<Rightarrow> duration option" where
  "post_process now c =
     duration_since (if cn_timestamp_close c = duration_zero then now else cn_timestamp_close c)
       (cn_timestamp c)"

text \<open>\<open>take_while\<close> and \<open>take\<close> pull one item after the other; a pulled item is post-processed first.\<close>

fun pull_connections ::
  "valid_coordinate \<Rightarrow> duration \<Rightarrow> nat \<Rightarrow> (u64 \<times> connection) list \<Rightarrow>
   (u64 \<times> connection \<times> duration) list option" where
  "pull_connections c now 0 it = Some []"
| "pull_connections c now (Suc n) [] = Some []"
| "pull_connections c now (Suc n) ((i, cn) # it) =
     (case post_process now cn of
        None \<Rightarrow> None
      | Some dur \<Rightarrow>
          if (case vc_limit_timestamp c of
                None \<Rightarrow> True
              | Some t \<Rightarrow> (as_secs (cn_timestamp cn) < t) = (vc_direction c = DirForward))
          then map_option ((#) (i, cn, dur)) (pull_connections c now n it)
          else Some [])"

definition fetch_connections ::
  "'s rocks \<Rightarrow> radiation \<Rightarrow> duration \<Rightarrow> valid_coordinate \<Rightarrow> 's db_core \<Rightarrow>
   (u64 \<times> connection \<times> duration) list option" where
  "fetch_connections rk rd now coordinate d =
     (let (present, i) = connection_id rk rd coordinate d;
          it = List.map_filter (decode_item rd (absorb_u64 rd) (connection_absorb rd))
                 (rk_iter rk CONNECTIONS (start_mode present i (vc_direction coordinate)) (dc_inner d))
      in pull_connections coordinate now (unat (vc_limit coordinate))
           (filter (\<lambda>(_, cn). \<not> (total_bytes (cn_stats_in cn) = 0 \<and> total_bytes (cn_stats_out cn) = 0)) it))"

section \<open>Messages\<close>

text \<open>JSON values: those the database makes itself, and those of the decoders.\<close>

datatype 'j json = JString string | JMplex string u64 | JYamux header | JOther 'j

record 'j full_message =
  fm_connection_id :: u64
  fm_remote_addr :: socket_addr
  fm_incoming :: bool
  fm_timestamp :: duration
  fm_stream_id :: stream_id
  fm_stream_kind :: stream_kind
  fm_message :: "'j json"
  fm_size :: u32

definition full_message_of :: "message \<Rightarrow> socket_addr \<Rightarrow> 'j json \<Rightarrow> 'j full_message" where
  "full_message_of msg addr json =
     \<lparr>fm_connection_id = msg_connection_id msg, fm_remote_addr = addr, fm_incoming = msg_incoming msg,
      fm_timestamp = msg_timestamp msg, fm_stream_id = msg_stream_id msg,
      fm_stream_kind = msg_stream_kind msg, fm_message = json, fm_size = msg_size msg\<rparr>"

definition fetch_details ::
  "'s rocks \<Rightarrow> radiation \<Rightarrow> 's db_core \<Rightarrow> u64 \<times> message \<Rightarrow> (u64 \<times> 'j full_message) option" where
  "fetch_details rk rd d km =
     (case fetch_connection rk rd (msg_connection_id (snd km)) d of
        Done cn \<Rightarrow> Some (fst km, full_message_of (snd km) (ci_addr (cn_info cn)) (JString (msg_brief (snd km))))
      | _ \<Rightarrow> None)"

definition fetch_messages_by_indexes ::
  "'s rocks \<Rightarrow> radiation \<Rightarrow> 's db_core \<Rightarrow> u64 list \<Rightarrow> (u64 \<times> message) list" where
  "fetch_messages_by_indexes rk rd d ids =
     List.map_filter (\<lambda>i. case db_get rk rd MESSAGES (message_absorb rd) (u64_be i) d of
        Done v \<Rightarrow> Some (i, v) | _ \<Rightarrow> None) ids"

text \<open>The ids behind one key of an index, from a given id on.\<close>

definition index_scan ::
  "'s rocks \<Rightarrow> radiation \<Rightarrow> cf \<Rightarrow> ('k \<times> u64 \<Rightarrow> bytes) \<Rightarrow> ('k \<times> u64) absorb \<Rightarrow> direction \<Rightarrow> 'k \<Rightarrow> u64 \<Rightarrow>
   's db_core \<Rightarrow> u64 list" where
  "index_scan rk rd c emit absorb dir k i d =
     map snd (takeWhile (\<lambda>index. fst index = k)
       (List.map_filter (decode_index rd absorb) (rk_iter rk c (IterFrom (emit (k, i)) dir) (dc_inner d))))"

definition stream_indexes ::
  "'s rocks \<Rightarrow> radiation \<Rightarrow> direction \<Rightarrow> u64 \<Rightarrow> 's db_core \<Rightarrow> stream_filter \<Rightarrow> u64 list" where
  "stream_indexes rk rd dir i d f = (case f of
     AnyStreamByAddr addr \<Rightarrow>
       index_scan rk rd ADDR_INDEX (address_idx_emit rd) (address_idx_absorb rd) dir addr i d
   | AnyStreamInConnection cn \<Rightarrow>
       index_scan rk rd CONNECTION_ID_INDEX (connection_idx_emit rd) (connection_idx_absorb rd) dir cn i d
   | StreamOf full_id \<Rightarrow>
       index_scan rk rd STREAM_ID_INDEX (stream_idx_emit rd) (stream_idx_absorb rd) dir full_id i d)"

text \<open>\<open>kmerge before its\<close> is \<open>kmerge_by(its, before)\<close>.\<close>

type_synonym kmerge = "(u64 \<Rightarrow> u64 \<Rightarrow> bool) \<Rightarrow> u64 list list \<Rightarrow> u64 list"

definition merge_order :: "direction \<Rightarrow> u64 \<Rightarrow> u64 \<Rightarrow> bool" where
  "merge_order dir a b = ((a < b) \<noteq> (dir = DirReverse))"

definition kind_indexes ::
  "'s rocks \<Rightarrow> radiation \<Rightarrow> kmerge \<Rightarrow> direction \<Rightarrow> u64 \<Rightarrow> 's db_core \<Rightarrow> kind_filter \<Rightarrow> u64 list" where
  "kind_indexes rk rd kmerge dir i d f = (case f of
     AnyMessageInStream kinds \<Rightarrow>
       kmerge (merge_order dir)
         (map (\<lambda>k. index_scan rk rd STREAM_KIND_INDEX (stream_by_kind_idx_emit rd)
            (stream_by_kind_idx_absorb rd) dir k i d) kinds)
   | MessageKinds kinds \<Rightarrow>
       kmerge (merge_order dir)
         (map (\<lambda>k. index_scan rk rd MESSAGE_KIND_INDEX (message_kind_idx_emit rd)
            (message_kind_idx_absorb rd) dir k i d) kinds))"

text \<open>The messages that pass the filters, before the limit; \<open>None\<close> is a panic of the intersection.\<close>

definition message_items ::
  "'s rocks \<Rightarrow> radiation \<Rightarrow> kmerge \<Rightarrow> valid_params \<Rightarrow> 's db_core \<Rightarrow> (u64 \<times> message) list option" where
  "message_items rk rd kmerge params d =
     (let (present, i) = message_id rk rd (vp_coordinate params) d;
          coordinate = vp_coordinate params; dir = vc_direction coordinate;
          scan = stream_indexes rk rd dir i d; merged = kind_indexes rk rd kmerge dir i d
      in case (vp_stream_filter params, vp_kind_filter params) of
           (Some a, Some b) \<Rightarrow>
             map_option (fetch_messages_by_indexes rk rd d)
               (sorted_intersect [scan a, merged b] (unat (vc_limit coordinate)) (dir = DirForward))
         | (Some a, None) \<Rightarrow> Some (fetch_messages_by_indexes rk rd d (scan a))
         | (None, Some b) \<Rightarrow> Some (fetch_messages_by_indexes rk rd d (merged b))
         | (None, None) \<Rightarrow>
             Some (List.map_filter (decode_item rd (absorb_u64 rd) (message_absorb rd))
               (rk_iter rk MESSAGES (start_mode present i dir) (dc_inner d))))"

definition fetch_messages ::
  "'s rocks \<Rightarrow> radiation \<Rightarrow> kmerge \<Rightarrow> valid_params \<Rightarrow> 's db_core \<Rightarrow> (u64 \<times> 'j full_message) list option" where
  "fetch_messages rk rd kmerge params d =
     map_option (\<lambda>it. limit_items (vp_coordinate params) fm_timestamp (List.map_filter (fetch_details rk rd d) it))
       (message_items rk rd kmerge params d)"

text \<open>The functions \<open>parse\<close> of \<open>decode/\<close> that render a message as JSON.\<close>

record 'j json_ops =
  jo_parse :: "stream_kind \<Rightarrow> bytes \<Rightarrow> bool \<Rightarrow> decode_error + 'j"
  jo_hex :: "bytes \<Rightarrow> string"

definition yamux_parse :: "bytes \<Rightarrow> decode_error + 'j json" where
  "yamux_parse bs =
     (if length bs = 12 then
        (case header_try_from bs of Inl e \<Rightarrow> Inl (DeYamux e) | Inr h \<Rightarrow> Inr (JYamux h))
      else Inl (DeUnexpectedSize (length bs) 12))"

definition mplex_action :: "u64 \<Rightarrow> string option" where
  "mplex_action header =
     (if header = 0 then Some ''create stream''
      else if header = 3 then Some ''close receiver''
      else if header = 4 then Some ''close initiator''
      else if header = 5 then Some ''reset receiver''
      else if header = 6 then Some ''reset initiator''
      else None)"

unbundle bit_operations_syntax

definition render ::
  "'j json_ops \<Rightarrow> stream_kind \<Rightarrow> bytes \<Rightarrow> bool \<Rightarrow> (db_error, 'j json) outcome" where
  "render jo kind buf preview =
     (let dec = (\<lambda>r. case r of Inl e \<Rightarrow> Fail (DecodeErr e) | Inr j \<Rightarrow> Done j);
          other = (\<lambda>r. dec (map_sum (\<lambda>e. e) JOther r)) in
      case kind of
        Kind_Kad \<Rightarrow> other (jo_parse jo kind buf preview)
      | Kind_Meshsub \<Rightarrow> other (jo_parse jo kind buf preview)
      | Kind_Handshake \<Rightarrow> other (jo_parse jo kind buf preview)
      | Kind_Rpc \<Rightarrow> other (jo_parse jo kind buf preview)
      | Kind_IpfsId \<Rightarrow> other (jo_parse jo kind buf preview)
      | Kind_IpfsPush \<Rightarrow> other (jo_parse jo kind buf preview)
      | Kind_IpfsDelta \<Rightarrow> Done (JString (jo_hex jo buf))
      | Kind_PeerExchange \<Rightarrow> other (jo_parse jo kind buf preview)
      | Kind_BitswapExchange \<Rightarrow> Done (JString (jo_hex jo buf))
      | Kind_NodeStatus \<Rightarrow> Done (JString (jo_hex jo buf))
      | Kind_Select \<Rightarrow>
          if utf8_valid buf then Done (JString (bytes_str buf)) else Fail (DecodeErr DeUtf8)
      | Kind_Mplex \<Rightarrow>
          if length buf \<noteq> 8 then Fail (DecodeErr (DeUnexpectedSize (length buf) 8))
          else
            (let v = be_u64 buf in
             case mplex_action (v AND 7) of None \<Rightarrow> Panic | Some action \<Rightarrow> Done (JMplex action (drop_bit 3 v)))
      | Kind_Yamux \<Rightarrow> dec (yamux_parse buf)
      | Kind_Unknown \<Rightarrow> Done (JString (jo_hex jo buf)))"

definition fetch_details_inner ::
  "'s rocks \<Rightarrow> radiation \<Rightarrow> 'j json_ops \<Rightarrow> message \<Rightarrow> bool \<Rightarrow> 's db_core \<Rightarrow> (db_error, 'j full_message) outcome" where
  "fetch_details_inner rk rd jo msg preview d =
     fst (bind_outcome (fetch_connection rk rd (msg_connection_id msg) d, ()) (\<lambda>cn _.
          bind_outcome (fetch_blob rk rd (msg_connection_id msg) (msg_offset msg) d, ()) (\<lambda>buf _.
          bind_outcome (render jo (msg_stream_kind msg) buf preview, ()) (\<lambda>json _.
            (Done (full_message_of msg (ci_addr (cn_info cn)) json), ())))))"

definition fetch_full_message ::
  "'s rocks \<Rightarrow> radiation \<Rightarrow> 'j json_ops \<Rightarrow> u64 \<Rightarrow> 's db_core \<Rightarrow> (db_error, 'j full_message) outcome" where
  "fetch_full_message rk rd jo i d =
     fst (bind_outcome (db_get rk rd MESSAGES (message_absorb rd) (u64_be i) d, ()) (\<lambda>msg _.
            (fetch_details_inner rk rd jo msg False d, ())))"

definition fetch_full_message_hex ::
  "'s rocks \<Rightarrow> radiation \<Rightarrow> 'j json_ops \<Rightarrow> u64 \<Rightarrow> 's db_core \<Rightarrow> (db_error, string) outcome" where
  "fetch_full_message_hex rk rd jo i d =
     fst (bind_outcome (fetch_full_message_bin rk rd i d, ()) (\<lambda>buf _. (Done (jo_hex jo buf), ())))"

text \<open>\<open>p\<close> decodes a line of \<open>strace\<close>, which starts at \<open>start\<close>.\<close>

definition fetch_strace ::
  "'s rocks \<Rightarrow> radiation \<Rightarrow> 't absorb \<Rightarrow> ('t \<Rightarrow> duration) \<Rightarrow> u64 \<Rightarrow> u64 \<Rightarrow> 's db_core \<Rightarrow>
   (db_error, (u64 \<times> 't) list) outcome" where
  "fetch_strace rk rd p start i timestamp d =
     fst (bind_outcome
       (if timestamp = 0 then Done i
        else search_timestamp rk rd STRACE p start
          (case total rk rd STRACE_CNT d of Done n \<Rightarrow> n | _ \<Rightarrow> 0) timestamp d, ())
       (\<lambda>i _. (Done (List.map_filter (decode_item rd (absorb_u64 rd) p)
          (rk_iter rk STRACE (IterFrom (u64_be i) DirForward) (dc_inner d))), ())))"

section \<open>Statistics\<close>

definition stat_event_absorb :: "radiation \<Rightarrow> (bytes \<Rightarrow> 'p option) \<Rightarrow> 'p stat_event absorb" where
  "stat_event_absorb rd from_bytes bs =
     bind_outcome (peer_id_absorb rd from_bytes bs) (\<lambda>p bs. bind_outcome (absorb_array rd 32 bs) (\<lambda>h bs.
     bind_outcome (absorb_u32 rd bs) (\<lambda>bh bs. bind_outcome (absorb_u32 rd bs) (\<lambda>gs bs.
     bind_outcome (absorb_bool rd bs) (\<lambda>inc bs. bind_outcome (message_type_absorb rd bs) (\<lambda>mk bs.
     bind_outcome (absorb_u64 rd bs) (\<lambda>mi bs. bind_outcome (time_absorb rd bs) (\<lambda>t bs.
     bind_outcome (time_absorb rd bs) (\<lambda>bt bs. bind_outcome (duration_opt_absorb rd bs) (\<lambda>l bs.
     bind_outcome (addr_absorb rd bs) (\<lambda>s bs. bind_outcome (addr_absorb rd bs) (\<lambda>r bs.
       (Done \<lparr>ev_producer_id = p, ev_hash = h, ev_block_height = bh, ev_global_slot = gs,
              ev_incoming = inc, ev_message_kind = mk, ev_message_id = mi, ev_time = t,
              ev_better_time = bt, ev_latency = l, ev_sender_addr = s, ev_receiver_addr = r\<rparr>, bs)))))))))))))"

text \<open>\<open>p_stat\<close> and \<open>p_tx\<close> decode \<open>BlockStat\<close> and \<open>TxStat\<close>.\<close>

definition fetch_stats ::
  "'s rocks \<Rightarrow> radiation \<Rightarrow> 'p block_stat absorb \<Rightarrow> u32 \<Rightarrow> 's db_core \<Rightarrow>
   ((u32 \<times> socket_addr) \<times> 'p block_stat) option" where
  "fetch_stats rk rd p_stat i d =
     fold (\<lambda>(k, v) acc.
         (case acc of
            None \<Rightarrow> Some (k, \<lparr>bs_height = fst k, bs_events = bs_events v\<rparr>)
          | Some (k0, current) \<Rightarrow> Some (k0, current\<lparr>bs_events := bs_events current @ bs_events v\<rparr>)))
       (takeWhile (\<lambda>(key, _). fst key = i)
          (List.map_filter (decode_item rd (stats_db_key_absorb rd) p_stat)
             (rk_iter rk STATS (IterFrom (u32_be i) DirForward) (dc_inner d)))) None"

definition fetch_last_stat ::
  "'s rocks \<Rightarrow> radiation \<Rightarrow> 'p block_stat absorb \<Rightarrow> 's db_core \<Rightarrow>
   ((u32 \<times> socket_addr) \<times> 'p block_stat) option" where
  "fetch_last_stat rk rd p_stat d =
     (case rk_iter rk STATS IterEnd (dc_inner d) of
        [] \<Rightarrow> None
      | item # _ \<Rightarrow>
          (case decode_item rd (stats_db_key_absorb rd) p_stat item of
             None \<Rightarrow> None | Some (k, _) \<Rightarrow> fetch_stats rk rd p_stat (fst k) d))"

definition fetch_stats_block_v2 ::
  "'s rocks \<Rightarrow> radiation \<Rightarrow> (bytes \<Rightarrow> 'p option) \<Rightarrow> u32 \<Rightarrow> 's db_core \<Rightarrow> 'p stat_event list" where
  "fetch_stats_block_v2 rk rd from_bytes i d =
     map snd (takeWhile (\<lambda>(key, _). fst key = i)
       (List.map_filter (decode_item rd (height_time_absorb rd) (stat_event_absorb rd from_bytes))
          (rk_iter rk STATS_BLOCK_V2 (IterFrom (u32_be i) DirForward) (dc_inner d))))"

definition fetch_last_stat_block_v2 ::
  "'s rocks \<Rightarrow> radiation \<Rightarrow> (bytes \<Rightarrow> 'p option) \<Rightarrow> 's db_core \<Rightarrow> (u32 \<times> 'p stat_event list) option" where
  "fetch_last_stat_block_v2 rk rd from_bytes d =
     (case rk_iter rk STATS_BLOCK_V2 IterEnd (dc_inner d) of
        [] \<Rightarrow> None
      | item # _ \<Rightarrow>
          map_option (\<lambda>(k, _). (fst k, fetch_stats_block_v2 rk rd from_bytes (fst k) d))
            (decode_item rd (height_time_absorb rd) (stat_event_absorb rd from_bytes) item))"

definition fetch_last_stat_tx ::
  "'s rocks \<Rightarrow> radiation \<Rightarrow> ('x, 'p) tx_stat absorb \<Rightarrow> 's db_core \<Rightarrow> (u32 \<times> ('x, 'p) tx_stat) option" where
  "fetch_last_stat_tx rk rd p_tx d =
     (case rk_iter rk STATS_TX IterEnd (dc_inner d) of
        [] \<Rightarrow> None | item # _ \<Rightarrow> decode_item rd (absorb_u32 rd) p_tx item)"

definition fetch_stats_tx ::
  "'s rocks \<Rightarrow> radiation \<Rightarrow> ('x, 'p) tx_stat absorb \<Rightarrow> u32 \<Rightarrow> 's db_core \<Rightarrow>
   (db_error, (u32 \<times> ('x, 'p) tx_stat) option) outcome" where
  "fetch_stats_tx rk rd p_tx i d =
     (case rk_get rk (Some STATS_TX) (u32_be i) (dc_inner d) of
        Inl e \<Rightarrow> Fail (Inner e)
      | Inr None \<Rightarrow> Done None
      | Inr (Some v) \<Rightarrow>
          (case parsed (absorb_ext rd p_tx v) of
             Done t \<Rightarrow> Done (Some (i, t)) | Fail e \<Rightarrow> Fail e | Panic \<Rightarrow> Panic | Hang \<Rightarrow> Hang))"

section \<open>Snarks by ledger hash\<close>

text \<open>The works that an event of a meshsub message brings, with the hash of the message.\<close>

definition event_snarks :: "('x, 'y, 'p) event \<Rightarrow> (snark_with_hash list \<times> bytes) option" where
  "event_snarks e = (case e of
     PublishV2 _ _ _ _ _ m h \<Rightarrow>
       (case m of
          SnarkPoolDiff diff \<Rightarrow>
            Some (case try_from_inner diff of None \<Rightarrow> [] | Some s \<Rightarrow> [s], h)
        | NewState block \<Rightarrow> Some (try_from_block block, h)
        | TransactionPoolDiff _ \<Rightarrow> None)
   | _ \<Rightarrow> None)"

text \<open>One work after the other, each message hash once.\<close>

fun collect_snarks ::
  "ledger_hash_idx \<Rightarrow> bytes \<Rightarrow> snark_with_hash list \<Rightarrow> bytes list \<times> (snark_with_hash \<times> u64) list \<Rightarrow>
   bytes list \<times> (snark_with_hash \<times> u64) list" where
  "collect_snarks i h [] acc = acc"
| "collect_snarks i h (s # ss) (seen, v) =
     collect_snarks i h ss
       (if conform s (lhi_hash i) \<and> h \<notin> set seen then (h # seen, v @ [(s, lhi_message_id i)]) else (seen, v))"

fun collect_events ::
  "ledger_hash_idx \<Rightarrow> (unit, ('x, 'y, 'p) event) outcome list \<Rightarrow> bytes list \<times> (snark_with_hash \<times> u64) list \<Rightarrow>
   (db_error, bytes list \<times> (snark_with_hash \<times> u64) list) outcome" where
  "collect_events i [] acc = Done acc"
| "collect_events i (Done e # es) acc =
     collect_events i es (case event_snarks e of None \<Rightarrow> acc | Some (ss, h) \<Rightarrow> collect_snarks i h ss acc)"
| "collect_events i (_ # es) acc = Panic"

fun collect_indexes ::
  "'s rocks \<Rightarrow> radiation \<Rightarrow> ('x, 'y, 'p) decode_ops \<Rightarrow> 's db_core \<Rightarrow> ledger_hash_idx list \<Rightarrow>
   bytes list \<times> (snark_with_hash \<times> u64) list \<Rightarrow>
   (db_error, bytes list \<times> (snark_with_hash \<times> u64) list) outcome" where
  "collect_indexes rk rd ops d [] acc = Done acc"
| "collect_indexes rk rd ops d (i # is) acc =
     (case fetch_blob rk rd (fst (lhi_id i)) (lhi_offset i) d of
        Done buf \<Rightarrow>
          (case parse_it ops buf False True of
             Inl e \<Rightarrow> Fail (DecodeErr e)
           | Inr items \<Rightarrow>
               (case collect_events i items acc of
                  Done acc \<Rightarrow> collect_indexes rk rd ops d is acc
                | Fail e \<Rightarrow> Fail e | Panic \<Rightarrow> Panic | Hang \<Rightarrow> Hang))
      | Fail e \<Rightarrow> Fail e
      | Panic \<Rightarrow> Panic
      | Hang \<Rightarrow> Hang)"

text \<open>The closure \<open>o\<close> of \<open>fetch_snark_by_hash\<close>, for one kind of hash.\<close>

definition fetch_snarks_of ::
  "'s rocks \<Rightarrow> radiation \<Rightarrow> ('x, 'y, 'p) decode_ops \<Rightarrow> ledger_hash \<Rightarrow> 's db_core \<Rightarrow>
   (db_error, (snark_with_hash \<times> u64) list) outcome" where
  "fetch_snarks_of rk rd ops h d =
     (let key = ledger_hash_idx_emit rd (ledger_hash_idx_new h);
          is = takeWhile (\<lambda>i. get_31 i = slice 1 32 key)
                 (List.map_filter (decode_index rd (ledger_hash_idx_absorb rd))
                    (rk_iter rk LEDGER_HASH_INDEX (IterFrom key DirForward) (dc_inner d)))
      in case collect_indexes rk rd ops d is ([], []) of
           Done (_, v) \<Rightarrow> Done v | Fail e \<Rightarrow> Fail e | Panic \<Rightarrow> Panic | Hang \<Rightarrow> Hang)"

record snark_by_hash =
  sbh_source :: "(snark_with_hash \<times> u64) list"
  sbh_target :: "(snark_with_hash \<times> u64) list"
  sbh_first_source :: "(snark_with_hash \<times> u64) list"
  sbh_middle :: "(snark_with_hash \<times> u64) list"
  sbh_second_target :: "(snark_with_hash \<times> u64) list"

text \<open>\<open>from_str\<close> reads a ledger hash from the text of the request.\<close>

definition fetch_snark_by_hash ::
  "'s rocks \<Rightarrow> radiation \<Rightarrow> ('x, 'y, 'p) decode_ops \<Rightarrow> (string \<Rightarrow> bytes option) \<Rightarrow> string \<Rightarrow> 's db_core \<Rightarrow>
   (db_error, snark_by_hash) outcome" where
  "fetch_snark_by_hash rk rd ops from_str hash_str d =
     (case from_str hash_str of
        None \<Rightarrow> Fail ParamDeserialize
      | Some h \<Rightarrow>
          fst (bind_outcome (fetch_snarks_of rk rd ops (LhSource (hash31 h)) d, ()) (\<lambda>a _.
               bind_outcome (fetch_snarks_of rk rd ops (LhTarget (hash31 h)) d, ()) (\<lambda>b _.
               bind_outcome (fetch_snarks_of rk rd ops (LhFirstSource (hash31 h)) d, ()) (\<lambda>c _.
               bind_outcome (fetch_snarks_of rk rd ops (LhMiddle (hash31 h)) d, ()) (\<lambda>e _.
               bind_outcome (fetch_snarks_of rk rd ops (LhSecondTarget (hash31 h)) d, ()) (\<lambda>f _.
                 (Done \<lparr>sbh_source = a, sbh_target = b, sbh_first_source = c, sbh_middle = e,
                        sbh_second_target = f\<rparr>, ())))))))) "

section \<open>Search by time stays in range\<close>

lemma search_loop_range:
  assumes "unat r \<le> unat pos" "unat pos + unat r \<le> T" "T < 2 ^ 64"
    and "search_loop at ts pos r = Done q"
  shows "if r = 0 then q = pos else 1 \<le> unat q \<and> unat q < T"
  using assms
proof (induction at ts pos r rule: search_loop.induct)
  case (1 at ts pos r)
  show ?case
  proof (cases "r = 0")
    case True
    with 1(6) show ?thesis by (simp add: search_loop.simps)
  next
    case False
    then have r: "0 < unat r" by (simp add: unat_gt_0)
    have h: "unat (r div 2) = unat r div 2" by (simp add: unat_div_distrib)
    obtain t where t: "at pos = Done t" using 1(6) False by (auto simp: search_loop.simps split: outcome.splits)
    have plus: "unat (pos + r div 2) = unat pos + unat r div 2"
      using 1(4,5) h by (simp add: unat_word_ariths)
    have minus: "unat (pos - r div 2) = unat pos - unat r div 2"
      using 1(3) h by (subst unat_sub) (simp_all add: word_le_nat_alt)
    consider (less) "duration_less t ts" | (eq) "\<not> duration_less t ts" "t = ts"
      | (greater) "\<not> duration_less t ts" "t \<noteq> ts" by blast
    then show ?thesis
    proof cases
      case less
      have "if r div 2 = 0 then q = pos + r div 2 else 1 \<le> unat q \<and> unat q < T"
      proof (rule 1(1) [OF False t refl less])
        show "unat (r div 2) \<le> unat (pos + r div 2)" "unat (pos + r div 2) + unat (r div 2) \<le> T"
          "T < 2 ^ 64" using 1(3,4,5) by (simp_all add: plus h)
        show "search_loop at ts (pos + r div 2) (r div 2) = Done q"
          using 1(6) False t less by (simp add: search_loop.simps [of at ts pos r] Let_def)
      qed
      with 1(3,4) r False plus show ?thesis by (auto split: if_splits)
    next
      case eq
      with 1(3,4,6) r False t show ?thesis by (simp add: search_loop.simps)
    next
      case greater
      have "if r div 2 = 0 then q = pos - r div 2 else 1 \<le> unat q \<and> unat q < T"
      proof (rule 1(2) [OF False t refl greater])
        show "unat (r div 2) \<le> unat (pos - r div 2)" "unat (pos - r div 2) + unat (r div 2) \<le> T"
          "T < 2 ^ 64" using 1(3,4,5) by (simp_all add: minus h)
        show "search_loop at ts (pos - r div 2) (r div 2) = Done q"
          using 1(6) False t greater by (simp add: search_loop.simps [of at ts pos r] Let_def)
      qed
      with 1(3,4) r False minus show ?thesis by (auto split: if_splits)
    qed
  qed
qed

section \<open>Sorted scans\<close>

text \<open>\<open>ahead dir a b\<close>: an iterator that runs in the direction yields \<open>a\<close> before \<open>b\<close>.\<close>

definition ahead :: "direction \<Rightarrow> 'a::linorder \<Rightarrow> 'a \<Rightarrow> bool" where
  "ahead dir a b = (if dir = DirForward then a < b else b < a)"

lemma ahead_trans: "ahead dir a b \<Longrightarrow> ahead dir b c \<Longrightarrow> ahead dir a c"
  by (auto simp: ahead_def split: if_splits)

lemma ahead_irrefl [simp]: "\<not> ahead dir a a"
  by (simp add: ahead_def)

lemma ahead_asym: "ahead dir a b \<Longrightarrow> \<not> ahead dir b a"
  by (auto simp: ahead_def split: if_splits)

lemma ahead_total: "ahead dir a b \<or> a = b \<or> ahead dir b a"
  by (auto simp: ahead_def)

lemma key_ahead:
  "length p = length q \<Longrightarrow>
   ahead dir (p @ u64_be a) (q @ u64_be b) \<longleftrightarrow> ahead dir p q \<or> p = q \<and> ahead dir a b"
  by (auto simp: ahead_def key_less)

lemma iter_from_ahead:
  assumes "bt_inv m"
  shows "sorted_wrt (ahead dir) (map fst (iter_view (IterFrom k dir) m))"
    and "set (iter_view (IterFrom k dir) m) = {e \<in> set m. \<not> ahead dir (fst e) k}"
proof -
  have s: "sorted_wrt (\<lambda>x y. fst x < fst y) m" using assms by (simp add: bt_inv_def sorted_wrt_map)
  show "sorted_wrt (ahead dir) (map fst (iter_view (IterFrom k dir) m))"
    using s by (cases dir) (simp_all add: iter_view_def ahead_def sorted_wrt_map sorted_wrt_rev sorted_wrt_filter)
  show "set (iter_view (IterFrom k dir) m) = {e \<in> set m. \<not> ahead dir (fst e) k}"
    by (cases dir) (auto simp: iter_view_def ahead_def)
qed

lemma takeWhile_filter_sorted:
  assumes "sorted_wrt R xs" "\<And>x y. x \<in> set xs \<Longrightarrow> y \<in> set xs \<Longrightarrow> R x y \<Longrightarrow> P y \<Longrightarrow> P x"
  shows "takeWhile P xs = filter P xs"
  using assms
proof (induction xs)
  case (Cons x xs)
  show ?case
  proof (cases "P x")
    case True
    have "takeWhile P xs = filter P xs"
      using Cons.prems by (intro Cons.IH) (auto intro: Cons.prems(2))
    with True show ?thesis by simp
  next
    case False
    then have "\<not> P y" if "y \<in> set xs" for y using that Cons.prems by auto
    with False show ?thesis by (simp add: filter_empty_conv)
  qed
qed simp

lemma ahead_unique:
  assumes "sorted_wrt (ahead dir) xs" "sorted_wrt (ahead dir) ys" "set xs = set ys"
  shows "xs = ys"
proof (cases dir)
  case DirForward
  with assms show ?thesis
    by (intro strict_sorted_equal) (simp_all add: ahead_def [abs_def] sorted_wrt_iff_nth_less)
next
  case DirReverse
  with assms have "sorted_wrt (<) (rev xs)" "sorted_wrt (<) (rev ys)"
    by (simp_all add: ahead_def [abs_def] sorted_wrt_rev)
  then have "rev xs = rev ys" using assms(3) by (intro strict_sorted_equal) simp_all
  then show ?thesis by simp
qed

context db_env
begin

lemma decode_index_list:
  assumes "\<And>p r. p \<in> set ps \<Longrightarrow> absorb (emit p @ r) = (Done p, r)" "map fst xs = map emit ps"
  shows "List.map_filter (decode_index rd absorb) (map Inr xs) = ps"
  using assms
proof (induction ps arbitrary: xs)
  case (Cons p ps)
  then obtain x xs' where x: "xs = x # xs'" "fst x = emit p" "map fst xs' = map emit ps" by (cases xs) auto
  have "absorb_ext rd absorb (emit p) = Done p" using Cons.prems(1) by (intro ext_rt) simp
  with x Cons.IH [of xs'] Cons.prems(1) show ?case
    by (cases x) (simp add: map_filter_simps decode_index_def ok_ext_def)
qed (simp add: map_filter_simps)

text \<open>Scanning an index whose keys are a fixed-length key followed by the id of the message.\<close>

lemma index_scan_ids:
  fixes emit :: "'k \<times> u64 \<Rightarrow> bytes"
  assumes keys: "fst ` set (view (dc_inner d) (Some c)) = emit ` S"
    and form: "\<And>k i. emit (k, i) = pre k @ u64_be i" "\<And>k. length (pre k) = n"
    and inj: "inj_on pre (fst ` S)"
    and read: "\<And>p r. p \<in> S \<Longrightarrow> absorb (emit p @ r) = (Done p, r)"
  shows "sorted_wrt (ahead dir) (index_scan rk rd c emit absorb dir k0 i0 d) \<and>
         set (index_scan rk rd c emit absorb dir k0 i0 d) = {i. (k0, i) \<in> S \<and> \<not> ahead dir i i0}"
proof -
  define xs where "xs = iter_view (IterFrom (emit (k0, i0)) dir) (view (dc_inner d) (Some c))"
  note x = iter_from_ahead [OF view_inv [of "dc_inner d" "Some c"], where dir = dir and k = "emit (k0, i0)", folded xs_def]
  have "\<exists>p. p \<in> S \<and> fst x = emit p" if "x \<in> set xs" for x
  proof -
    have "fst x \<in> emit ` S" using that x(2) keys by (metis (no_types, lifting) image_eqI mem_Collect_eq)
    then show ?thesis by auto
  qed
  then have "\<exists>f. \<forall>e \<in> set xs. f e \<in> S \<and> fst e = emit (f e)" by (intro bchoice) blast
  then obtain f where f: "\<forall>e \<in> set xs. f e \<in> S \<and> fst e = emit (f e)" ..
  define ps where "ps = map f xs"
  have ps: "set ps \<subseteq> S" "map fst xs = map emit ps" using f by (auto simp: ps_def)
  have scan: "index_scan rk rd c emit absorb dir k0 i0 d = map snd (takeWhile (\<lambda>p. fst p = k0) ps)"
  proof -
    have "List.map_filter (decode_index rd absorb) (map Inr xs) = ps"
      by (rule decode_index_list [OF _ ps(2)]) (use read ps(1) in blast)
    then show ?thesis by (simp add: index_scan_def rocks_iter xs_def)
  qed
  have sorted: "sorted_wrt (\<lambda>p q. ahead dir (emit p) (emit q)) ps"
    using x(1) unfolding ps(2) by (simp add: sorted_wrt_map)
  have mem: "p \<in> set ps \<longleftrightarrow> p \<in> S \<and> \<not> ahead dir (emit p) (emit (k0, i0))" for p
  proof -
    have e: "p = q" if "emit p = emit q" "q \<in> S" "p \<in> S" for q
    proof -
      obtain k i l j where pq: "p = (k, i)" "q = (l, j)" by (cases p; cases q) blast
      then have "pre k = pre l" "i = j" using that(1) by (simp_all add: form)
      moreover have "k \<in> fst ` S" "l \<in> fst ` S" using that pq by force+
      ultimately show ?thesis using pq inj by (simp add: inj_on_eq_iff)
    qed
    show ?thesis
    proof
      assume "p \<in> set ps"
      then obtain y where y: "y \<in> set xs" "p = f y" by (auto simp: ps_def)
      then have "p \<in> S" "fst y = emit p" using f by blast+
      moreover have "\<not> ahead dir (fst y) (emit (k0, i0))" using y(1) unfolding x(2) by simp
      ultimately show "p \<in> S \<and> \<not> ahead dir (emit p) (emit (k0, i0))" by simp
    next
      assume p: "p \<in> S \<and> \<not> ahead dir (emit p) (emit (k0, i0))"
      then have "emit p \<in> fst ` set (view (dc_inner d) (Some c))" using keys by simp
      then obtain y where y: "y \<in> set (view (dc_inner d) (Some c))" "fst y = emit p" by auto
      then have "y \<in> set xs" unfolding x(2) using p by simp
      moreover from this have "f y \<in> S" "fst y = emit (f y)" using f by blast+
      then have "p = f y" using e [of "f y"] p y(2) by simp
      ultimately show "p \<in> set ps" by (simp add: ps_def)
    qed
  qed
  have "takeWhile (\<lambda>p. fst p = k0) ps = filter (\<lambda>p. fst p = k0) ps"
  proof (rule takeWhile_filter_sorted [OF sorted])
    fix p q assume p: "p \<in> set ps" "q \<in> set ps" "ahead dir (emit p) (emit q)" "fst q = k0"
    obtain k i j where kij: "p = (k, i)" "q = (k0, j)" using p(4) by (metis prod.collapse)
    have "\<not> ahead dir (pre k) (pre k0)" using p(1) mem [of p] kij form by (simp add: key_ahead)
    moreover have "ahead dir (pre k) (pre k0) \<or> pre k = pre k0" using p(3) kij form by (auto simp: key_ahead)
    ultimately have "pre k = pre k0" by blast
    moreover have "k \<in> fst ` S" "k0 \<in> fst ` S" using p(1,2) ps(1) kij by force+
    ultimately show "fst p = k0" using inj kij by (simp add: inj_on_eq_iff)
  qed
  then have r: "index_scan rk rd c emit absorb dir k0 i0 d = map snd (filter (\<lambda>p. fst p = k0) ps)"
    by (simp add: scan)
  have "sorted_wrt (\<lambda>p q. ahead dir (snd p) (snd q)) (filter (\<lambda>p. fst p = k0) ps)"
  proof (rule sorted_wrt_mono_rel [OF _ sorted_wrt_filter [OF sorted]])
    fix p q assume a: "p \<in> set (filter (\<lambda>p. fst p = k0) ps)" "q \<in> set (filter (\<lambda>p. fst p = k0) ps)"
      "ahead dir (emit p) (emit q)"
    then have "p = (k0, snd p)" "q = (k0, snd q)" by (auto simp: prod_eq_iff)
    then have "emit p = pre k0 @ u64_be (snd p)" "emit q = pre k0 @ u64_be (snd q)"
      using form(1) by metis+
    with a(3) show "ahead dir (snd p) (snd q)" by (simp add: key_ahead)
  qed
  moreover have "set (map snd (filter (\<lambda>p. fst p = k0) ps)) = {i. (k0, i) \<in> S \<and> \<not> ahead dir i i0}"
  proof -
    have "(k0, i) \<in> set ps \<longleftrightarrow> (k0, i) \<in> S \<and> \<not> ahead dir i i0" for i
      by (simp add: mem form key_ahead)
    then show ?thesis by force
  qed
  ultimately show ?thesis unfolding r by (simp add: sorted_wrt_map)
qed

end

section \<open>The log of messages\<close>

text \<open>
  What the column families of messages and their indexes stand for: a list of messages by increasing
  number, each with the address of its connection and its types. \<open>log_inv\<close> relates the store to such
  a log; \<open>log_select\<close> is the specification of a query on it.
\<close>

record entry =
  en_id :: u64
  en_addr :: socket_addr
  en_msg :: message
  en_tys :: "message_type list"

definition log_inv ::
  "radiation \<Rightarrow> ('s \<Rightarrow> content) \<Rightarrow> 's \<Rightarrow> entry list \<Rightarrow> bool" where
  "log_inv rd view s L =
     (sorted_wrt (<) (map en_id L) \<and> (\<forall>e \<in> set L. message_ok (en_msg e)) \<and>
      view s (Some MESSAGES) = map (\<lambda>e. (u64_be (en_id e), message_emit rd (en_msg e))) L \<and>
      fst ` set (view s (Some ADDR_INDEX)) =
        (\<lambda>e. address_idx_emit rd (en_addr e, en_id e)) ` set L \<and>
      fst ` set (view s (Some CONNECTION_ID_INDEX)) =
        (\<lambda>e. connection_idx_emit rd (msg_connection_id (en_msg e), en_id e)) ` set L \<and>
      fst ` set (view s (Some STREAM_ID_INDEX)) =
        (\<lambda>e. stream_idx_emit rd ((msg_connection_id (en_msg e), msg_stream_id (en_msg e)), en_id e)) ` set L \<and>
      fst ` set (view s (Some STREAM_KIND_INDEX)) =
        (\<lambda>e. stream_by_kind_idx_emit rd (msg_stream_kind (en_msg e), en_id e)) ` set L \<and>
      fst ` set (view s (Some MESSAGE_KIND_INDEX)) =
        (\<Union>e \<in> set L. (\<lambda>t. message_kind_idx_emit rd (t, en_id e)) ` set (en_tys e)))"

definition stream_matches :: "stream_filter \<Rightarrow> entry \<Rightarrow> bool" where
  "stream_matches f e = (case f of
     AnyStreamByAddr a \<Rightarrow> addr_canon (en_addr e) = a
   | AnyStreamInConnection c \<Rightarrow> msg_connection_id (en_msg e) = c
   | StreamOf s \<Rightarrow> (msg_connection_id (en_msg e), msg_stream_id (en_msg e)) = s)"

text \<open>How many of the requested kinds a message is of.\<close>

definition kind_count :: "kind_filter \<Rightarrow> entry \<Rightarrow> nat" where
  "kind_count f e = (case f of
     AnyMessageInStream ks \<Rightarrow> length (filter (\<lambda>k. msg_stream_kind (en_msg e) = k) ks)
   | MessageKinds ts \<Rightarrow> length (filter (\<lambda>t. t \<in> set (en_tys e)) ts))"

text \<open>How often a query lists a message.\<close>

definition times_listed :: "stream_filter option \<Rightarrow> kind_filter option \<Rightarrow> entry \<Rightarrow> nat" where
  "times_listed sf kf e = (case (sf, kf) of
     (None, None) \<Rightarrow> 1
   | (Some a, None) \<Rightarrow> if stream_matches a e then 1 else 0
   | (None, Some b) \<Rightarrow> kind_count b e
   | (Some a, Some b) \<Rightarrow> min (if stream_matches a e then 1 else 0) (kind_count b e))"

definition from_start :: "direction \<Rightarrow> bool \<Rightarrow> u64 \<Rightarrow> entry list \<Rightarrow> entry list" where
  "from_start dir everything i L =
     filter (\<lambda>e. everything \<or> \<not> ahead dir (en_id e) i) (if dir = DirForward then L else rev L)"

definition listed :: "('a \<Rightarrow> nat) \<Rightarrow> 'a list \<Rightarrow> 'a list" where
  "listed n R = concat (map (\<lambda>e. replicate (n e) e) R)"

definition log_select :: "valid_params \<Rightarrow> bool \<Rightarrow> u64 \<Rightarrow> entry list \<Rightarrow> entry list" where
  "log_select params present i L =
     (let sf = vp_stream_filter params; kf = vp_kind_filter params in
      listed (times_listed sf kf)
        (from_start (vc_direction (vp_coordinate params)) (sf = None \<and> kf = None \<and> \<not> present) i L))"

text \<open>The documented behaviour of \<open>kmerge_by\<close> on iterators that run in its order.\<close>

locale kmerge_laws =
  fixes kmerge :: kmerge
  assumes kmerge_sorted:
      "\<forall>l \<in> set its. sorted_wrt (runs_before (dir = DirForward)) l \<Longrightarrow>
         sorted_wrt (runs_before (dir = DirForward)) (kmerge (merge_order dir) its)"
    and kmerge_mset:
      "\<forall>l \<in> set its. sorted_wrt (runs_before (dir = DirForward)) l \<Longrightarrow>
         mset (kmerge (merge_order dir) its) = sum_list (map mset its)"

subsection \<open>Lists with repetitions\<close>

lemma sorted_mset_unique: "sorted xs \<Longrightarrow> sorted ys \<Longrightarrow> mset xs = mset ys \<Longrightarrow> xs = ys"
  by (metis sorted_list_of_multiset_mset sorted_sort_id)

lemma runs_sorted_unique:
  fixes xs ys :: "'a::linorder list"
  assumes "sorted_wrt (runs_before fwd) xs" "sorted_wrt (runs_before fwd) ys" "mset xs = mset ys"
  shows "xs = ys"
proof (cases fwd)
  case True
  then have "runs_before fwd = ((\<le>) :: 'a \<Rightarrow> _)" by (simp add: runs_before_def fun_eq_iff)
  with assms show ?thesis by (intro sorted_mset_unique) simp_all
next
  case False
  then have "runs_before fwd = (\<lambda>a b :: 'a. b \<le> a)" by (simp add: runs_before_def fun_eq_iff)
  with assms have "rev xs = rev ys" by (intro sorted_mset_unique) (simp_all add: sorted_wrt_rev)
  then show ?thesis by simp
qed

lemma ahead_runs: "ahead dir a b \<Longrightarrow> runs_before (dir = DirForward) a b"
  by (cases dir) (simp_all add: ahead_def runs_before_def)

lemma listed_simps [simp]: "listed n [] = []" "listed n (e # R) = replicate (n e) e @ listed n R"
  by (simp_all add: listed_def)

lemma set_listed: "set (listed n R) = {e \<in> set R. n e \<noteq> 0}"
proof (induction R)
  case (Cons e R)
  show ?case
    by (simp only: listed_simps set_append Cons.IH set_replicate_conv_if list.set) (cases "n e = 0"; auto)
qed simp

lemma listed_sorted:
  assumes "sorted_wrt (ahead dir) (map f R)"
  shows "sorted_wrt (runs_before (dir = DirForward)) (map f (listed n R))"
  using assms
proof (induction R)
  case (Cons e R)
  have r: "sorted_wrt (runs_before (dir = DirForward)) (replicate k (f e))" for k
    by (induction k) (auto simp: runs_before_def)
  have "\<forall>x \<in> set (map f (listed n R)). runs_before (dir = DirForward) (f e) x"
  proof
    fix x assume "x \<in> set (map f (listed n R))"
    then obtain a where "a \<in> set R" "x = f a" by (auto simp: set_listed)
    with Cons.prems show "runs_before (dir = DirForward) (f e) x" by (auto intro: ahead_runs)
  qed
  moreover have "sorted_wrt (runs_before (dir = DirForward)) (map f (listed n R))"
    using Cons by simp
  ultimately show ?case
    unfolding listed_simps map_append map_replicate sorted_wrt_append using r [of "n e"] by simp
qed simp

lemma listed_filter: "filter P R = listed (\<lambda>e. if P e then 1 else 0) R"
  by (induction R) simp_all

lemma listed_add:
  "mset (map f (listed (\<lambda>e. m e + n e) R)) =
     mset (map f (listed m R)) + mset (map f (listed n R))"
proof (induction R)
  case (Cons e R)
  then show ?case by (simp add: replicate_add)
qed simp

lemma listed_count:
  assumes "distinct (map f R)"
  shows "count_list (map f (listed n R)) x = (case find (\<lambda>e. f e = x) R of None \<Rightarrow> 0 | Some e \<Rightarrow> n e)"
  using assms
proof (induction R)
  case (Cons e R)
  have "find (\<lambda>e. f e = x) R = None" if "f e = x"
    using Cons.prems that by (auto simp: find_None_iff image_iff)
  moreover have "count_list (replicate k a) x = (if a = x then k else 0)" for k a
    by (induction k) auto
  ultimately show ?case using Cons by (auto simp: count_list_append)
qed simp

lemma sum_kinds:
  "sum_list (map (\<lambda>k. mset (map f (filter (\<lambda>e. P k e) R))) ks) =
   mset (map f (listed (\<lambda>e. length (filter (\<lambda>k. P k e) ks)) R))"
proof (induction ks)
  case Nil
  have "listed (\<lambda>e. 0) R = []" by (induction R) simp_all
  then show ?case by simp
next
  case (Cons k ks)
  have "(\<lambda>e. length (filter (\<lambda>k. P k e) (k # ks))) =
      (\<lambda>e. (if P k e then 1 else 0) + length (filter (\<lambda>k. P k e) ks))" by auto
  then show ?case using Cons by (simp only: listed_add list.map sum_list.Cons listed_filter [of "P k"])
qed

subsection \<open>Scans and the log\<close>

lemma from_start_sorted:
  assumes "sorted_wrt (<) (map en_id L)"
  shows "sorted_wrt (ahead dir) (map en_id (from_start dir b i L))"
proof -
  have "sorted_wrt (\<lambda>x y. en_id x < en_id y) L" using assms by (simp add: sorted_wrt_map)
  then have "sorted_wrt (\<lambda>x y. ahead dir (en_id x) (en_id y)) (if dir = DirForward then L else rev L)"
    by (cases dir) (simp_all add: ahead_def sorted_wrt_rev)
  then show ?thesis by (simp only: from_start_def sorted_wrt_map sorted_wrt_filter)
qed

lemma set_from_start: "set (from_start dir b i L) = {e \<in> set L. b \<or> \<not> ahead dir (en_id e) i}"
  by (cases dir) (simp_all add: from_start_def)

lemma UN_image_single: "(\<Union>x \<in> A. f x ` {h x}) = (\<lambda>x. f x (h x)) ` A"
  by auto

lemma stream_matches_keys:
  "stream_matches (AnyStreamByAddr a) = (\<lambda>e. a \<in> {addr_canon (en_addr e)})"
  "stream_matches (AnyStreamInConnection c) = (\<lambda>e. c \<in> {msg_connection_id (en_msg e)})"
  "stream_matches (StreamOf t) = (\<lambda>e. t \<in> {(msg_connection_id (en_msg e), msg_stream_id (en_msg e))})"
  by (rule ext, simp only: stream_matches_def stream_filter.case singleton_iff, rule eq_commute)+

lemma kind_matches: "k \<in> {msg_stream_kind (en_msg e)} \<longleftrightarrow> msg_stream_kind (en_msg e) = k"
  by blast

lemma log_inv_keys:
  assumes "log_inv rd view s L"
  shows "fst ` set (view s (Some ADDR_INDEX)) =
      (\<lambda>e. address_idx_emit rd (en_addr e, en_id e)) ` set L"
    and "fst ` set (view s (Some CONNECTION_ID_INDEX)) =
      (\<Union>e \<in> set L. (\<lambda>k. connection_idx_emit rd (k, en_id e)) ` {msg_connection_id (en_msg e)})"
    and "fst ` set (view s (Some STREAM_ID_INDEX)) =
      (\<Union>e \<in> set L. (\<lambda>k. stream_idx_emit rd (k, en_id e)) `
         {(msg_connection_id (en_msg e), msg_stream_id (en_msg e))})"
    and "fst ` set (view s (Some STREAM_KIND_INDEX)) =
      (\<Union>e \<in> set L. (\<lambda>k. stream_by_kind_idx_emit rd (k, en_id e)) ` {msg_stream_kind (en_msg e)})"
    and "fst ` set (view s (Some MESSAGE_KIND_INDEX)) =
      (\<Union>e \<in> set L. (\<lambda>k. message_kind_idx_emit rd (k, en_id e)) ` set (en_tys e))"
  using assms by (simp_all only: log_inv_def UN_image_single simp_thms)

context db_env
begin

lemma scan_log:
  fixes emit :: "'k \<times> u64 \<Rightarrow> bytes" and K :: "entry \<Rightarrow> 'k set"
  assumes L: "sorted_wrt (<) (map en_id L)"
    and keys: "fst ` set (view (dc_inner d) (Some c)) = (\<Union>e \<in> set L. (\<lambda>k. emit (k, en_id e)) ` K e)"
    and form: "\<And>k i. emit (k, i) = pre k @ u64_be i" "\<And>k. length (pre k) = n"
    and read: "\<And>e k i r. e \<in> set L \<Longrightarrow> k \<in> K e \<Longrightarrow> absorb (emit (k, i) @ r) = (Done (k, i), r)"
  shows "index_scan rk rd c emit absorb dir k i d =
    map en_id (filter (\<lambda>e. k \<in> K e) (from_start dir False i L))"
proof -
  define S where "S = (\<Union>e \<in> set L. (\<lambda>k. (k, en_id e)) ` K e)"
  have S: "p \<in> S \<longleftrightarrow> (\<exists>e \<in> set L. snd p = en_id e \<and> fst p \<in> K e)" for p
    by (cases p) (force simp: S_def)
  have k: "fst ` set (view (dc_inner d) (Some c)) = emit ` S"
    unfolding keys S_def by (simp add: image_UN image_image)
  have r: "absorb (emit p @ r) = (Done p, r)" if p: "p \<in> S" for p r
  proof -
    obtain e where "e \<in> set L" "fst p \<in> K e" using p unfolding S by blast
    from read [OF this, of "snd p" r] show ?thesis by simp
  qed
  have i: "inj_on pre (fst ` S)"
  proof (rule inj_onI)
    fix a b assume "a \<in> fst ` S" "b \<in> fst ` S" and p: "pre a = pre b"
    then obtain e f where "e \<in> set L" "a \<in> K e" "f \<in> set L" "b \<in> K f" using S by blast
    then have "absorb (emit (a, 0) @ []) = (Done (a, 0), [])" "absorb (emit (b, 0) @ []) = (Done (b, 0), [])"
      using read by blast+
    with p show "a = b" by (simp add: form(1))
  qed
  note scan = index_scan_ids [OF k form i r, of dir k i]
  show ?thesis
  proof (rule ahead_unique [where dir = dir])
    show "sorted_wrt (ahead dir) (index_scan rk rd c emit absorb dir k i d)" using scan by blast
    show "sorted_wrt (ahead dir) (map en_id (filter (\<lambda>e. k \<in> K e) (from_start dir False i L)))"
      using from_start_sorted [OF L, of dir False i] by (simp only: sorted_wrt_map sorted_wrt_filter)
    have "set (index_scan rk rd c emit absorb dir k i d) = {j. (k, j) \<in> S \<and> \<not> ahead dir j i}"
      using scan by blast
    also have "\<dots> = en_id ` {e \<in> set L. k \<in> K e \<and> \<not> ahead dir (en_id e) i}"
      unfolding S by (simp only: fst_conv snd_conv) blast
    also have "\<dots> = set (map en_id (filter (\<lambda>e. k \<in> K e) (from_start dir False i L)))"
      by (simp only: set_map set_filter set_from_start mem_Collect_eq simp_thms conj_ac)
    finally show "set (index_scan rk rd c emit absorb dir k i d) =
        set (map en_id (filter (\<lambda>e. k \<in> K e) (from_start dir False i L)))" .
  qed
qed

lemma addr_emit_canon: "addr_emit rd (addr_canon a) = addr_emit rd a"
proof (cases "take 12 (addr_octets (ip a)) = v4_mapped_prefix")
  case True
  have "u32_be (be_u32 (drop 12 (addr_octets (ip a)))) = drop 12 (addr_octets (ip a))"
    by (rule u32_be_be_u32) simp
  then have "addr_octets (ip (addr_canon a)) = addr_octets (ip a)"
    using True append_take_drop_id [of 12 "addr_octets (ip a)"]
    by (simp add: addr_canon_def addr_octets_def [of "V4 _"])
  then show ?thesis by (simp add: addr_emit_def addr_canon_def)
qed (simp add: addr_canon_def)

lemmas index_forms = address_idx_emit_def connection_idx_emit_def stream_idx_emit_def
  stream_by_kind_idx_emit_def message_kind_idx_emit_def u64_bytes

lemma length_addr_emit: "length (addr_emit rd a) = 18"
  by (simp add: addr_emit_def array_bytes u16_bytes)

lemma stream_scan:
  assumes L: "log_inv rd view (dc_inner d) L"
  shows "stream_indexes rk rd dir i d f = map en_id (filter (stream_matches f) (from_start dir False i L))"
proof -
  have s: "sorted_wrt (<) (map en_id L)" and ok: "\<And>e. e \<in> set L \<Longrightarrow> message_ok (en_msg e)"
    using L unfolding log_inv_def by (simp_all only: simp_thms)
  show ?thesis
  proof (cases f)
    case (AnyStreamByAddr a)
    have k: "fst ` set (view (dc_inner d) (Some ADDR_INDEX)) =
        (\<Union>e \<in> set L. (\<lambda>k. address_idx_emit rd (k, en_id e)) ` {addr_canon (en_addr e)})"
      unfolding log_inv_keys(1) [OF L] UN_image_single by (simp add: address_idx_emit_def addr_emit_canon)
    have rt: "address_idx_absorb rd (address_idx_emit rd (k, i) @ r) = (Done (k, i), r)"
      if "k \<in> {addr_canon (en_addr e)}" for e k i r
      using that by (simp add: address_idx_rt addr_canon_idem)
    have "index_scan rk rd ADDR_INDEX (address_idx_emit rd) (address_idx_absorb rd) dir a i d =
        map en_id (filter (\<lambda>e. a \<in> {addr_canon (en_addr e)}) (from_start dir False i L))"
      by (rule scan_log [OF s k, of "addr_emit rd" 18, OF _ _ rt]) (simp_all add: index_forms length_addr_emit)
    with AnyStreamByAddr show ?thesis
      by (simp only: stream_indexes_def stream_matches_keys stream_filter.case)
  next
    case (AnyStreamInConnection c)
    have "index_scan rk rd CONNECTION_ID_INDEX (connection_idx_emit rd) (connection_idx_absorb rd) dir c i d =
        map en_id (filter (\<lambda>e. c \<in> {msg_connection_id (en_msg e)}) (from_start dir False i L))"
      by (rule scan_log [OF s log_inv_keys(2) [OF L], of u64_be 8, OF _ _ connection_idx_rt])
        (simp_all add: index_forms)
    with AnyStreamInConnection show ?thesis
      by (simp only: stream_indexes_def stream_matches_keys stream_filter.case)
  next
    case (StreamOf t)
    let ?K = "\<lambda>e. {(msg_connection_id (en_msg e), msg_stream_id (en_msg e))}"
    have rt: "stream_idx_absorb rd (stream_idx_emit rd (k, i) @ r) = (Done (k, i), r)"
      if "e \<in> set L" "k \<in> ?K e" for e k i r
      using ok [OF that(1)] that(2) by (intro stream_idx_rt) (simp add: message_ok_def)
    have "index_scan rk rd STREAM_ID_INDEX (stream_idx_emit rd) (stream_idx_absorb rd) dir t i d =
        map en_id (filter (\<lambda>e. t \<in> ?K e) (from_start dir False i L))"
      by (rule scan_log [OF s log_inv_keys(3) [OF L], of "stream_full_id_emit rd" 16, OF _ _ rt])
        (simp_all add: index_forms stream_full_id_emit_def stream_id_emit_def i64_bytes)
    with StreamOf show ?thesis
      by (simp only: stream_indexes_def stream_matches_keys stream_filter.case)
  qed
qed

lemma kind_scan:
  assumes L: "log_inv rd view (dc_inner d) L" and km: "kmerge_laws kmerge"
  shows "kind_indexes rk rd kmerge dir i d f = map en_id (listed (kind_count f) (from_start dir False i L))"
proof -
  let ?R = "from_start dir False i L"
  have s: "sorted_wrt (<) (map en_id L)" using L unfolding log_inv_def by (simp only: simp_thms)
  have merged: "kmerge (merge_order dir) (map (\<lambda>k. map en_id (filter (P k) ?R)) ks) =
      map en_id (listed (\<lambda>e. length (filter (\<lambda>k. P k e) ks)) ?R)" for P and ks :: "'k list"
  proof (rule runs_sorted_unique)
    have r: "\<forall>l \<in> set (map (\<lambda>k. map en_id (filter (P k) ?R)) ks). sorted_wrt (runs_before (dir = DirForward)) l"
      using listed_sorted [OF from_start_sorted [OF s]] by (simp add: listed_filter)
    show "sorted_wrt (runs_before (dir = DirForward))
        (kmerge (merge_order dir) (map (\<lambda>k. map en_id (filter (P k) ?R)) ks))"
      by (rule kmerge_laws.kmerge_sorted [OF km r])
    show "sorted_wrt (runs_before (dir = DirForward))
        (map en_id (listed (\<lambda>e. length (filter (\<lambda>k. P k e) ks)) ?R))"
      by (rule listed_sorted [OF from_start_sorted [OF s]])
    show "mset (kmerge (merge_order dir) (map (\<lambda>k. map en_id (filter (P k) ?R)) ks)) =
        mset (map en_id (listed (\<lambda>e. length (filter (\<lambda>k. P k e) ks)) ?R))"
      by (simp only: kmerge_laws.kmerge_mset [OF km r] map_map o_def sum_kinds)
  qed
  show ?thesis
  proof (cases f)
    case (AnyMessageInStream ks)
    have "index_scan rk rd STREAM_KIND_INDEX (stream_by_kind_idx_emit rd) (stream_by_kind_idx_absorb rd) dir k i d =
        map en_id (filter (\<lambda>e. k \<in> {msg_stream_kind (en_msg e)}) ?R)" for k
      by (rule scan_log [OF s log_inv_keys(4) [OF L], of "stream_kind_emit rd" 2, OF _ _ stream_by_kind_idx_rt])
        (simp_all add: index_forms stream_kind_emit_def u16_bytes)
    then show ?thesis
      using merged [of "\<lambda>k e. k \<in> {msg_stream_kind (en_msg e)}" ks]
      by (simp only: AnyMessageInStream kind_indexes_def kind_count_def [abs_def] kind_filter.case kind_matches)
  next
    case (MessageKinds ts)
    have "index_scan rk rd MESSAGE_KIND_INDEX (message_kind_idx_emit rd) (message_kind_idx_absorb rd) dir k i d =
        map en_id (filter (\<lambda>e. k \<in> set (en_tys e)) ?R)" for k
      by (rule scan_log [OF s log_inv_keys(5) [OF L], of "message_type_emit rd" 2, OF _ _ message_kind_idx_rt])
        (simp_all add: index_forms message_type_emit_def u16_bytes)
    then show ?thesis
      using merged [of "\<lambda>k e. k \<in> set (en_tys e)" ts]
      by (simp only: MessageKinds kind_indexes_def kind_count_def [abs_def] kind_filter.case)
  qed
qed

end

subsection \<open>Items and the log\<close>

lemma map_filter_all: "(\<And>x. x \<in> set xs \<Longrightarrow> f (h x) = Some (g x)) \<Longrightarrow> List.map_filter f (map h xs) = map g xs"
  by (induction xs) (simp_all add: map_filter_simps)

lemma takeWhile_take: "takeWhile P (take n xs) = take n (takeWhile P xs)"
proof (induction xs arbitrary: n)
  case (Cons x xs)
  then show ?case by (cases n) simp_all
qed simp

lemma limit_items_take:
  "unat (vc_limit c) \<le> n \<Longrightarrow> limit_items c ts (take n xs) = limit_items c ts xs"
  by (simp add: limit_items_def takeWhile_take min_def)

lemma iter_view_log:
  "iter_view (start_mode present i dir) (map (\<lambda>e. (u64_be (en_id e), h e)) L) =
     map (\<lambda>e. (u64_be (en_id e), h e)) (from_start dir (\<not> present) i L)"
proof (cases present)
  case True
  have "u64_be a \<le> u64_be b \<longleftrightarrow> \<not> b < a" for a b by (simp add: not_less [symmetric] u64_be_less)
  with True show ?thesis
    by (cases dir) (simp_all add: start_mode_def iter_view_def from_start_def ahead_def filter_map o_def rev_filter rev_map)
next
  case False
  then show ?thesis
    by (cases dir) (simp_all add: start_mode_def direction_mode_def iter_view_def from_start_def rev_map)
qed

text \<open>Intersecting the list of the messages that pass one filter with the list of another.\<close>

lemma intersect_listed:
  assumes "sorted_wrt (ahead dir) (map f R)"
  shows "sorted_intersect [map f (listed m R), map f (listed n R)] k (dir = DirForward) =
    Some (take k (map f (listed (\<lambda>e. min (m e) (n e)) R)))"
proof -
  have "distinct (map f R)"
    using assms by (simp add: distinct_conv_nth sorted_wrt_iff_nth_less) (metis ahead_irrefl linorder_neqE_nat)
  note count = listed_count [OF this]
  obtain full where full: "multi_cap (runs_before (dir = DirForward)) full [map f (listed m R), map f (listed n R)]"
    "sorted_intersect [map f (listed m R), map f (listed n R)] k (dir = DirForward) = Some (take k full)"
    using sorted_intersect_multi [of "[map f (listed m R), map f (listed n R)]" "dir = DirForward" k]
      listed_sorted [OF assms] by auto
  have "count_list full x = count_list (map f (listed (\<lambda>e. min (m e) (n e)) R)) x" for x
    using full(1) by (simp add: multi_cap_def count split: option.splits)
  then have "mset full = mset (map f (listed (\<lambda>e. min (m e) (n e)) R))"
    by (intro multiset_eqI) (simp only: count_mset)
  then have "full = map f (listed (\<lambda>e. min (m e) (n e)) R)"
    using full(1) [unfolded multi_cap_def, THEN conjunct1] listed_sorted [OF assms]
    by (intro runs_sorted_unique [where fwd = "dir = DirForward"])
  with full(2) show ?thesis by simp
qed

lemma log_inv_messages:
  "log_inv rd view s L \<Longrightarrow>
   view s (Some MESSAGES) = map (\<lambda>e. (u64_be (en_id e), message_emit rd (en_msg e))) L"
  by (simp only: log_inv_def)

context db_env
begin

lemma message_ext: "message_ok m \<Longrightarrow> absorb_ext rd (message_absorb rd) (message_emit rd m) = Done m"
  by (intro ext_rt) (rule message_rt)

lemma u64_ext: "absorb_ext rd (absorb_u64 rd) (u64_be i) = Done i"
  by (intro ext_rt) (simp add: u64_bytes [symmetric] u64_rt)

lemma fetch_by_indexes_log:
  assumes L: "log_inv rd view (dc_inner d) L" and es: "set es \<subseteq> set L"
  shows "fetch_messages_by_indexes rk rd d (map en_id es) = map (\<lambda>e. (en_id e, en_msg e)) es"
  unfolding fetch_messages_by_indexes_def
proof (rule map_filter_all)
  fix e assume "e \<in> set es"
  with es have e: "e \<in> set L" ..
  then have "message_ok (en_msg e)" using L by (simp only: log_inv_def)
  moreover have "(u64_be (en_id e), message_emit rd (en_msg e)) \<in> set (view (dc_inner d) (Some MESSAGES))"
    unfolding log_inv_messages [OF L] set_map by (rule image_eqI [OF refl e])
  then have "bt_get (u64_be (en_id e)) (view (dc_inner d) (Some MESSAGES)) = Some (message_emit rd (en_msg e))"
    by (simp only: bt_entries_get [OF view_inv])
  ultimately show "(case db_get rk rd MESSAGES (message_absorb rd) (u64_be (en_id e)) d of
      Done v \<Rightarrow> Some (en_id e, v) | _ \<Rightarrow> None) = Some (en_id e, en_msg e)"
    by (simp add: db_get_def rocks_get message_ext parsed_def)
qed

lemma unfiltered_log:
  assumes L: "log_inv rd view (dc_inner d) L"
  shows "List.map_filter (decode_item rd (absorb_u64 rd) (message_absorb rd))
      (rk_iter rk MESSAGES (start_mode present i dir) (dc_inner d)) =
    map (\<lambda>e. (en_id e, en_msg e)) (from_start dir (\<not> present) i L)"
proof -
  have ok: "message_ok (en_msg e)" if "e \<in> set (from_start dir (\<not> present) i L)" for e
    using L that by (simp only: log_inv_def set_from_start mem_Collect_eq)
  show ?thesis unfolding rocks_iter log_inv_messages [OF L] iter_view_log map_map
    by (rule map_filter_all) (simp add: decode_item_def ok_ext_def u64_ext message_ext ok)
qed

lemma message_items_log:
  assumes L: "log_inv rd view (dc_inner d) L" and km: "kmerge_laws kmerge"
    and start: "message_id rk rd (vp_coordinate params) d = (present, i)"
  shows "\<exists>n \<ge> unat (vc_limit (vp_coordinate params)).
    message_items rk rd kmerge params d = Some (take n (map (\<lambda>e. (en_id e, en_msg e)) (log_select params present i L)))"
proof -
  let ?dir = "vc_direction (vp_coordinate params)" and ?lim = "unat (vc_limit (vp_coordinate params))"
  let ?R = "from_start ?dir False i L" and ?g = "\<lambda>e. (en_id e, en_msg e)"
  have s: "sorted_wrt (ahead ?dir) (map en_id ?R)"
    using L by (intro from_start_sorted) (simp only: log_inv_def)
  have get: "fetch_messages_by_indexes rk rd d (take n (map en_id (listed c ?R))) = take n (map ?g (listed c ?R))"
    for n c
  proof -
    have "set (take n (listed c ?R)) \<subseteq> set L"
      using set_take_subset [of n "listed c ?R"] by (auto simp only: set_listed set_from_start)
    from fetch_by_indexes_log [OF L this] show ?thesis by (simp only: take_map)
  qed
  have all: "\<exists>n \<ge> ?lim. m = Some (take n xs)" if "m = Some xs" for m and xs :: "(u64 \<times> message) list"
    using that by (intro exI [of _ "max ?lim (length xs)"]) simp
  have get_all: "fetch_messages_by_indexes rk rd d (map en_id (listed c ?R)) = map ?g (listed c ?R)" for c
    using get [of "length (listed c ?R)" c] by (simp only: take_all length_map order_refl)
  consider (both) a b where "vp_stream_filter params = Some a" "vp_kind_filter params = Some b"
    | (stream) a where "vp_stream_filter params = Some a" "vp_kind_filter params = None"
    | (kind) b where "vp_stream_filter params = None" "vp_kind_filter params = Some b"
    | (none) "vp_stream_filter params = None" "vp_kind_filter params = None"
    by (cases "vp_stream_filter params"; cases "vp_kind_filter params") blast+
  then show ?thesis
  proof cases
    case both
    have "message_items rk rd kmerge params d = Some (take ?lim (map ?g (log_select params present i L)))"
      using both intersect_listed [OF s, of "\<lambda>e. if stream_matches a e then 1 else 0" "kind_count b" ?lim]
      by (simp only: message_items_def start Let_def prod.case option.case stream_scan [OF L] kind_scan [OF L km]
          listed_filter option.map get log_select_def times_listed_def [abs_def] option.distinct simp_thms)
    then show ?thesis by blast
  next
    case stream
    have "message_items rk rd kmerge params d = Some (map ?g (log_select params present i L))"
      using stream
      by (simp only: message_items_def start Let_def prod.case option.case stream_scan [OF L]
          listed_filter get_all log_select_def times_listed_def [abs_def] option.distinct simp_thms)
    then show ?thesis by (rule all)
  next
    case kind
    have "message_items rk rd kmerge params d = Some (map ?g (log_select params present i L))"
      using kind
      by (simp only: message_items_def start Let_def prod.case option.case kind_scan [OF L km]
          get_all log_select_def times_listed_def [abs_def] option.distinct simp_thms)
    then show ?thesis by (rule all)
  next
    case none
    have one: "listed (\<lambda>e. 1) xs = xs" for xs :: "entry list" by (induction xs) simp_all
    have "message_items rk rd kmerge params d = Some (map ?g (log_select params present i L))"
      using none
      by (simp only: message_items_def start Let_def prod.case option.case unfiltered_log [OF L]
          log_select_def times_listed_def [abs_def] one simp_thms)
    then show ?thesis by (rule all)
  qed
qed

lemma fetch_messages_log:
  assumes L: "log_inv rd view (dc_inner d) L" and km: "kmerge_laws kmerge"
    and conn: "\<And>e. e \<in> set L \<Longrightarrow> fetch_connection rk rd (msg_connection_id (en_msg e)) d = Done (conn e)"
    and start: "message_id rk rd (vp_coordinate params) d = (present, i)"
  shows "fetch_messages rk rd kmerge params d = Some (limit_items (vp_coordinate params) fm_timestamp
    (map (\<lambda>e. (en_id e, full_message_of (en_msg e) (ci_addr (cn_info (conn e))) (JString (msg_brief (en_msg e)))))
       (log_select params present i L)))"
    (is "_ = Some (limit_items _ _ (map ?h _))")
proof -
  obtain n where n: "unat (vc_limit (vp_coordinate params)) \<le> n"
    "message_items rk rd kmerge params d = Some (take n (map (\<lambda>e. (en_id e, en_msg e)) (log_select params present i L)))"
    using message_items_log [OF L km start] by blast
  let ?X = "log_select params present i L"
  have "e \<in> set L" if "e \<in> set (take n ?X)" for e
    using in_set_takeD [OF that] by (simp only: log_select_def Let_def set_listed set_from_start mem_Collect_eq)
  then have "List.map_filter (fetch_details rk rd d) (take n (map (\<lambda>e. (en_id e, en_msg e)) ?X)) = take n (map ?h ?X)"
    unfolding take_map by (intro map_filter_all) (simp add: fetch_details_def conn)
  then show ?thesis
    by (simp only: fetch_messages_def n(2) option.map limit_items_take [OF n(1)])
qed

end

subsection \<open>The layers write the log\<close>

definition log_cfs :: "cf set" where
  "log_cfs = {MESSAGES, ADDR_INDEX, CONNECTION_ID_INDEX, STREAM_ID_INDEX, STREAM_KIND_INDEX, MESSAGE_KIND_INDEX}"

lemma log_cfs_mem:
  "MESSAGES \<in> log_cfs" "ADDR_INDEX \<in> log_cfs" "CONNECTION_ID_INDEX \<in> log_cfs"
  "STREAM_ID_INDEX \<in> log_cfs" "STREAM_KIND_INDEX \<in> log_cfs" "MESSAGE_KIND_INDEX \<in> log_cfs"
  by (simp_all add: log_cfs_def)

lemma log_inv_cong:
  assumes "log_inv rd view s L" "\<And>c. c \<in> log_cfs \<Longrightarrow> view t (Some c) = view s (Some c)"
  shows "log_inv rd view t L"
  using assms(1) unfolding log_inv_def log_cfs_mem [THEN assms(2)] .

lemma bt_insert_last: "(\<And>p. p \<in> set m \<Longrightarrow> fst p < k) \<Longrightarrow> bt_insert k v m = m @ [(k, v)]"
proof (induction m)
  case (Cons p m)
  have "fst p < k" using Cons.prems by simp
  with Cons show ?case by (cases p) auto
qed simp

lemma apply_puts_keys:
  "fst ` set (apply_puts ps m c) = fst ` set (m c) \<union> {k. \<exists>v. (c, k, v) \<in> set ps}"
proof (induction ps arbitrary: m)
  case (Cons p ps)
  obtain b k v where p: "p = (b, k, v)" by (cases p)
  have "fst ` set (put1 p m c) = fst ` set (m c) \<union> (if c = b then {k} else {})"
    using bt_insert_keys [of k v "m b"] by (simp add: p put1_def)
  then show ?case using Cons [of "put1 p m"] by (auto simp: p split: if_splits)
qed simp

lemma apply_puts_cong: "m c = n c \<Longrightarrow> apply_puts ps m c = apply_puts ps n c"
proof (induction ps arbitrary: m n)
  case (Cons p ps)
  then have "put1 p m c = put1 p n c" by (cases p) (auto simp: put1_def)
  then have "apply_puts ps (put1 p m) c = apply_puts ps (put1 p n) c" by (rule Cons.IH)
  then show ?case by (simp only: apply_puts_simps)
qed simp

definition new_entry :: "u64 \<Rightarrow> socket_addr \<Rightarrow> message \<Rightarrow> message_type list \<Rightarrow> entry" where
  "new_entry i addr v tys = \<lparr>en_id = i, en_addr = addr, en_msg = v, en_tys = tys\<rparr>"

lemma new_entry_sel [simp]:
  "en_id (new_entry i addr v tys) = i" "en_addr (new_entry i addr v tys) = addr"
  "en_msg (new_entry i addr v tys) = v" "en_tys (new_entry i addr v tys) = tys"
  by (simp_all add: new_entry_def)

lemma message_puts_keys:
  "{k. \<exists>x. (Some ADDR_INDEX, k, x) \<in> set (message_puts rd addr i v tys hashes)} = {address_idx_emit rd (addr, i)}"
  "{k. \<exists>x. (Some CONNECTION_ID_INDEX, k, x) \<in> set (message_puts rd addr i v tys hashes)} =
     {connection_idx_emit rd (msg_connection_id v, i)}"
  "{k. \<exists>x. (Some STREAM_ID_INDEX, k, x) \<in> set (message_puts rd addr i v tys hashes)} =
     {stream_idx_emit rd ((msg_connection_id v, msg_stream_id v), i)}"
  "{k. \<exists>x. (Some STREAM_KIND_INDEX, k, x) \<in> set (message_puts rd addr i v tys hashes)} =
     {stream_by_kind_idx_emit rd (msg_stream_kind v, i)}"
  "{k. \<exists>x. (Some MESSAGE_KIND_INDEX, k, x) \<in> set (message_puts rd addr i v tys hashes)} =
     (\<lambda>t. message_kind_idx_emit rd (t, i)) ` set tys"
  by (auto simp: message_puts_def)

lemma log_inv_append:
  assumes L: "log_inv rd view s L" and i: "\<And>e. e \<in> set L \<Longrightarrow> en_id e < i" and v: "message_ok v"
    and puts: "\<And>c. c \<in> log_cfs \<Longrightarrow>
      view t (Some c) = apply_puts (message_puts rd addr i v tys hashes) (view s) (Some c)"
  shows "log_inv rd view t (L @ [new_entry i addr v tys])"
proof -
  note puts = log_cfs_mem [THEN puts]
  have m: "view t (Some MESSAGES) =
      map (\<lambda>e. (u64_be (en_id e), message_emit rd (en_msg e))) (L @ [new_entry i addr v tys])"
  proof -
    have "fst p < u64_be i" if "p \<in> set (map (\<lambda>e. (u64_be (en_id e), message_emit rd (en_msg e))) L)" for p
      using that i by (auto simp: u64_be_less)
    then have "bt_insert (u64_be i) x (map (\<lambda>e. (u64_be (en_id e), message_emit rd (en_msg e))) L) =
        map (\<lambda>e. (u64_be (en_id e), message_emit rd (en_msg e))) L @ [(u64_be i, x)]" for x
      by (rule bt_insert_last)
    then show ?thesis
      by (simp add: puts(1) message_puts_messages log_inv_messages [OF L])
  qed
  have s: "sorted_wrt (<) (map en_id (L @ [new_entry i addr v tys]))"
    using L i by (simp add: log_inv_def sorted_wrt_append)
  have ok: "\<forall>e \<in> set (L @ [new_entry i addr v tys]). message_ok (en_msg e)"
    using L v by (simp add: log_inv_def)
  show ?thesis
    unfolding log_inv_def
    by (intro conjI s ok m)
      (simp_all add: puts
        apply_puts_keys message_puts_keys log_inv_keys [OF L, unfolded UN_image_single] Un_commute)
qed

text \<open>What a call adds to the log: address, message up to its place among the blobs, types.\<close>

definition call_entries ::
  "('x, 'y, 'p) decode_ops \<Rightarrow> bool \<Rightarrow> db_call \<Rightarrow> (socket_addr \<times> message \<times> message_type list) list" where
  "call_entries ops idx c = (case c of
     CallAdd g s did kind bs \<Rightarrow>
       (case types_of_kind ops idx kind bs of
          Inl _ \<Rightarrow> []
        | Inr (tys, _) \<Rightarrow>
            [(grp_addr g,
              \<lparr>msg_connection_id = grp_id g, msg_stream_id = s, msg_stream_kind = kind,
               msg_incoming = incoming did, msg_timestamp = md_time (metadata did), msg_offset = 0,
               msg_size = of_nat (length bs), msg_brief = join_with CHR '','' (map message_type_display tys)\<rparr>,
              tys)])
   | _ \<Rightarrow> [])"

definition entry_data :: "entry \<Rightarrow> socket_addr \<times> message \<times> message_type list" where
  "entry_data e = (en_addr e, (en_msg e)\<lparr>msg_offset := 0\<rparr>, en_tys e)"

context db_env
begin

lemma stream_add_log:
  assumes inv: "blob_inv N (fa_core w)" "N + (CHUNK_HEADER_SIZE + length bs) < 2 ^ 64"
    and tys: "types_of_kind ops idx kind bs = Inr (tys, hashes)"
    and add: "stream_add rk rd ops idx g s did kind bs w = (r, w')"
  shows "\<exists>v. call_entries ops idx (CallAdd g s did kind bs) = [(grp_addr g, v\<lparr>msg_offset := 0\<rparr>, tys)] \<and>
     (call_ok ops idx (CallAdd g s did kind bs) \<longrightarrow> message_ok v) \<and>
     (\<forall>c \<in> log_cfs. view (dc_inner (fa_core w')) (Some c) =
        apply_puts (message_puts rd (grp_addr g) (fa_messages w) v tys hashes) (view (dc_inner (fa_core w))) (Some c))"
proof -
  let ?i = "fa_messages w"
  obtain off w1 h where w1:
    "group_add_raw rk rd g DecryptedNoise (incoming did) (md_time (metadata did)) bs w = (Done off, w1)"
    "w1 = w\<lparr>fa_core := fa_core w1\<rparr>"
    "view (dc_inner (fa_core w1)) =
       put1 (Some BLOBS, blob_key rd (grp_id g) off, h) (view (dc_inner (fa_core w)))"
    using group_add_raw_done [OF inv] by metis
  define v where "v = \<lparr>msg_connection_id = grp_id g, msg_stream_id = s, msg_stream_kind = kind,
    msg_incoming = incoming did, msg_timestamp = md_time (metadata did), msg_offset = off,
    msg_size = of_nat (length bs), msg_brief = join_with CHR '','' (map message_type_display tys)\<rparr>"
  obtain d2 where d2: "put_message rk rd (grp_addr g) ?i v tys hashes (fa_core w1) = (Done (), d2)"
    "view (dc_inner d2) = apply_puts (message_puts rd (grp_addr g) ?i v tys hashes) (view (dc_inner (fa_core w1)))"
    using put_message_done by blast
  define w2 where "w2 = w1\<lparr>fa_messages := ?i + 1, fa_core := d2\<rparr>"
  obtain w3 where w3: "on_core (set_total rk rd MESSAGES_CNT ?i) w2 = (Done (), w3)" "same_content w2 w3"
    using same_content_put [of None] unfolding set_total_def by blast
  have m1: "fa_messages w1 = ?i" using w1(2) by (metis facade.select_convs(2) facade.surjective facade.update_convs(5))
  have "w' = w3"
    using add w1(1) tys d2(1) w3(1) m1
    by (simp add: stream_add_def v_def [symmetric] on_core_def [of "put_message _ _ _ _ _ _ _"] w2_def Let_def)
  moreover have "view (dc_inner (fa_core w3)) (Some c) =
      apply_puts (message_puts rd (grp_addr g) ?i v tys hashes) (view (dc_inner (fa_core w))) (Some c)"
    if "c \<in> log_cfs" for c
  proof -
    have "c \<notin> {CONNECTIONS, RANDOMNESS, BLOBS}" using that by (auto simp: log_cfs_def)
    then have "view (dc_inner (fa_core w3)) (Some c) = view (dc_inner d2) (Some c)"
      "view (dc_inner (fa_core w1)) (Some c) = view (dc_inner (fa_core w)) (Some c)"
      using w3(2) by (simp_all add: same_content_def w2_def w1(3) put1_def)
    with apply_puts_cong [where c = "Some c" and m = "view (dc_inner (fa_core w1))"] show ?thesis
      by (simp only: d2(2))
  qed
  moreover have "message_ok v" if "call_ok ops idx (CallAdd g s did kind bs)"
    using that tys by (simp add: call_ok_def message_ok_def v_def)
  ultimately show ?thesis
    using tys by (intro exI [of _ v]) (simp add: call_entries_def v_def)
qed

lemma same_content_log:
  assumes "same_content w w'" "log_inv rd view (dc_inner (fa_core w)) L"
  shows "log_inv rd view (dc_inner (fa_core w')) L"
proof (rule log_inv_cong [OF assms(2)])
  fix c assume "c \<in> log_cfs"
  then have "c \<notin> {CONNECTIONS, RANDOMNESS}" by (auto simp: log_cfs_def)
  with assms(1) show "view (dc_inner (fa_core w')) (Some c) = view (dc_inner (fa_core w)) (Some c)"
    by (simp only: same_content_def simp_thms)
qed

lemma group_add_raw_log:
  assumes "blob_inv N (fa_core w)" "N + (CHUNK_HEADER_SIZE + length bs) < 2 ^ 64"
    and "log_inv rd view (dc_inner (fa_core w)) L" "group_add_raw rk rd g status inc t bs w = (r, w')"
  shows "log_inv rd view (dc_inner (fa_core w')) L \<and> (\<exists>off. r = Done off)"
proof -
  obtain off h where "r = Done off"
    "view (dc_inner (fa_core w')) = put1 (Some BLOBS, blob_key rd (grp_id g) off, h) (view (dc_inner (fa_core w)))"
    using group_add_raw_done [OF assms(1,2), of g status inc t] assms(4) by auto
  moreover from this(2) have "log_inv rd view (dc_inner (fa_core w')) L"
    by (intro log_inv_cong [OF assms(3)]) (auto simp: put1_def log_cfs_def)
  ultimately show ?thesis by blast
qed

text \<open>The log has the messages numbered below the counter.\<close>

definition logged :: "entry list \<Rightarrow> 's facade \<Rightarrow> bool" where
  "logged L w = (log_inv rd view (dc_inner (fa_core w)) L \<and>
     map (unat \<circ> en_id) L = [0..<unat (fa_messages w)])"

lemma exec_call_log:
  assumes good: "good N w" "N + call_cost c < 2 ^ 64" "call_ok ops idx c"
    and run: "exec_call rk rd ops idx c w = (l, w')" and L: "logged L w"
  shows "\<exists>M. logged (L @ M) w' \<and> map entry_data M = call_entries ops idx c"
proof -
  have inv: "blob_inv N (fa_core w)" and log: "log_inv rd view (dc_inner (fa_core w)) L"
    and ids: "map (unat \<circ> en_id) L = [0..<unat (fa_messages w)]"
    using good(1) L by (simp_all only: good_def logged_def)
  have step: "unat (fa_messages w') = unat (fa_messages w) + length l"
    using exec_call_step [OF good run] by (simp only: extends_def)
  have none: ?thesis
    if "log_inv rd view (dc_inner (fa_core w')) L" "l = []" "call_entries ops idx c = []"
    using that ids step by (intro exI [of _ "[]"]) (simp add: logged_def)
  have quiet: ?thesis if "same_content w w'" "l = []" "call_entries ops idx c = []"
    by (rule none [OF same_content_log [OF that(1) log] that(2,3)])
  show ?thesis
  proof (cases c)
    case (CallOpen info inc al t)
    obtain r w1 where "facade_add rk rd info inc al t w = (r, w1)" by fastforce
    with facade_add_content [OF this] run CallOpen show ?thesis
      by (intro quiet) (simp_all add: exec_call_def call_entries_def)
  next
    case (CallRandom bs)
    with run add_randomness_content [of w bs] show ?thesis
      by (intro quiet) (auto simp: exec_call_def call_entries_def)
  next
    case (CallUpdate g stats inc)
    with run group_update_content [of w g stats inc] show ?thesis
      by (intro quiet) (auto simp: exec_call_def call_entries_def)
  next
    case (CallDrop g)
    with run group_drop_content [of w g] show ?thesis
      by (intro quiet) (auto simp: exec_call_def call_entries_def)
  next
    case (CallRaw g status inc t bs)
    obtain r w1 where r: "group_add_raw rk rd g status inc t bs w = (r, w1)" by fastforce
    have "N + (CHUNK_HEADER_SIZE + length bs) < 2 ^ 64" using good(2) CallRaw by (simp add: call_cost_def)
    from group_add_raw_log [OF inv this log r] run r CallRaw show ?thesis
      by (intro none) (simp_all add: exec_call_def call_entries_def)
  next
    case (CallAdd g s did kind bs)
    have cost: "N + (CHUNK_HEADER_SIZE + length bs) < 2 ^ 64" using good(2) CallAdd by (simp add: call_cost_def)
    show ?thesis
    proof (cases "types_of_kind ops idx kind bs")
      case (Inl e)
      obtain r w1 where r: "group_add_raw rk rd g DecryptedNoise (incoming did) (md_time (metadata did)) bs w = (r, w1)"
        by fastforce
      note raw = group_add_raw_log [OF inv cost log r]
      then have "stream_add rk rd ops idx g s did kind bs w = (Fail (DecodeErr e), w1)"
        using r Inl by (auto simp: stream_add_def)
      with raw run CallAdd Inl show ?thesis
        by (intro none) (simp_all add: exec_call_def call_entries_def)
    next
      case (Inr th)
      then obtain tys hashes where t: "types_of_kind ops idx kind bs = Inr (tys, hashes)" by (cases th) auto
      obtain w1 where w1: "stream_add rk rd ops idx g s did kind bs w = (Done (fa_messages w), w1)"
        using stream_add_stored [OF inv cost t, of g s did] by blast
      with run CallAdd have e: "w' = w1" "l = [(fa_messages w, bs)]" by (simp_all add: exec_call_def)
      obtain v where v: "call_entries ops idx c = [(grp_addr g, v\<lparr>msg_offset := 0\<rparr>, tys)]" "message_ok v"
        "\<And>c. c \<in> log_cfs \<Longrightarrow> view (dc_inner (fa_core w1)) (Some c) =
          apply_puts (message_puts rd (grp_addr g) (fa_messages w) v tys hashes) (view (dc_inner (fa_core w))) (Some c)"
        using stream_add_log [OF inv cost t w1] good(3) unfolding CallAdd by blast
      have less: "en_id x < fa_messages w" if "x \<in> set L" for x
      proof -
        have "unat (en_id x) \<in> set (map (unat \<circ> en_id) L)" using that by simp
        then show ?thesis unfolding ids by (simp add: word_less_nat_alt)
      qed
      have "log_inv rd view (dc_inner (fa_core w1)) (L @ [new_entry (fa_messages w) (grp_addr g) v tys])"
        by (rule log_inv_append [OF log less v(2,3)])
      with v(1) ids step e show ?thesis
        by (intro exI [of _ "[new_entry (fa_messages w) (grp_addr g) v tys]"])
          (simp add: logged_def entry_data_def)
    qed
  qed
qed

lemma exec_calls_log:
  assumes "good N w" "N + sum_list (map call_cost cs) < 2 ^ 64" "\<forall>c \<in> set cs. call_ok ops idx c"
    and "exec_calls rk rd ops idx cs w = (l, w')" "logged L w"
  shows "\<exists>M. logged (L @ M) w' \<and> map entry_data M = concat (map (call_entries ops idx) cs)"
  using assms
proof (induction cs arbitrary: N w l w' L)
  case Nil
  then show ?case by (intro exI [of _ "[]"]) simp
next
  case (Cons c cs)
  obtain k v where k: "exec_call rk rd ops idx c w = (k, v)" by fastforce
  obtain m u where m: "exec_calls rk rd ops idx cs v = (m, u)" by fastforce
  have e: "w' = u" using Cons.prems(4) k m by simp
  have p: "N + call_cost c < 2 ^ 64" "call_ok ops idx c" using Cons.prems(2,3) by simp_all
  obtain M where M: "logged (L @ M) v" "map entry_data M = call_entries ops idx c"
    using exec_call_log [OF Cons.prems(1) p k Cons.prems(5)] by blast
  have g: "good (N + call_cost c) v" using exec_call_step [OF Cons.prems(1) p k] by blast
  have "\<exists>M'. logged ((L @ M) @ M') u \<and> map entry_data M' = concat (map (call_entries ops idx) cs)"
    by (rule Cons.IH [OF g _ _ m M(1)]) (use Cons.prems(2,3) in simp_all)
  then obtain M' where M': "logged ((L @ M) @ M') u" "map entry_data M' = concat (map (call_entries ops idx) cs)"
    by blast
  then show ?case using M(2) unfolding e by (intro exI [of _ "M @ M'"]) simp
qed

end

section \<open>Search by time\<close>

lemma search_loop_done:
  assumes "\<And>i. 1 \<le> unat i \<Longrightarrow> unat i < T \<Longrightarrow> \<exists>t. at i = Done t"
    and "unat r \<le> unat pos" "unat pos + unat r \<le> T" "T < 2 ^ 64"
  shows "\<exists>q. search_loop at ts pos r = Done q"
  using assms
proof (induction at ts pos r rule: search_loop.induct)
  case (1 at ts pos r)
  show ?case
  proof (cases "r = 0")
    case True
    then show ?thesis by (simp add: search_loop.simps)
  next
    case False
    then have r: "0 < unat r" by (simp add: unat_gt_0)
    have h: "unat (r div 2) = unat r div 2" by (simp add: unat_div_distrib)
    obtain t where t: "at pos = Done t" using 1(3) [of pos] 1(4,5) r by auto
    have plus: "unat (pos + r div 2) = unat pos + unat r div 2"
      using 1(5,6) h by (simp add: unat_word_ariths)
    have minus: "unat (pos - r div 2) = unat pos - unat r div 2"
      using 1(4) h by (subst unat_sub) (simp_all add: word_le_nat_alt)
    consider (less) "duration_less t ts" | (eq) "\<not> duration_less t ts" "t = ts"
      | (greater) "\<not> duration_less t ts" "t \<noteq> ts" by blast
    then show ?thesis
    proof cases
      case less
      have "\<exists>q. search_loop at ts (pos + r div 2) (r div 2) = Done q"
        by (rule 1(1) [OF False t refl less 1(3)]) (use 1(4,5,6) in \<open>simp_all add: plus h\<close>)
      with False t less show ?thesis by (simp add: search_loop.simps [of at ts pos r] Let_def)
    next
      case eq
      with False t show ?thesis by (simp add: search_loop.simps)
    next
      case greater
      have "\<exists>q. search_loop at ts (pos - r div 2) (r div 2) = Done q"
        by (rule 1(2) [OF False t refl greater 1(3)]) (use 1(4,5,6) in \<open>simp_all add: minus h\<close>)
      with False t greater show ?thesis by (simp add: search_loop.simps [of at ts pos r] Let_def)
    qed
  qed
qed

text \<open>C29: When the records numbered below the total can be read, the search by time returns the number
  of one of them. It never returns the first record, number 0, unless that is the only one.\<close>

theorem search_timestamp_range:
  assumes "n \<noteq> 0" "\<forall>i. i < n \<longrightarrow> (\<exists>v. db_get rk rd c p (u64_be i) d = Done v)"
  shows "\<exists>q. search_timestamp rk rd c p ts n timestamp d = Done q \<and> q < n \<and> (q = 0 \<longleftrightarrow> n = 1)"
proof -
  define at where "at pos = (case db_get rk rd c p (u64_be pos) d of
    Done v \<Rightarrow> Done (ts v) | Fail e \<Rightarrow> Fail e | Panic \<Rightarrow> Panic | Hang \<Rightarrow> Hang)" for pos
  define t where "t = \<lparr>as_secs = timestamp, subsec_nanos = 0\<rparr>"
  have n: "unat (n div 2) = unat n div 2" by (simp add: unat_div_distrib)
  have bound: "2 * (unat n div 2) \<le> unat n" "2 * (unat n div 2) < 2 ^ 64"
    using unsigned_less [of n, where 'a = nat] by simp_all
  have at: "\<exists>u. at i = Done u" if "1 \<le> unat i" "unat i < 2 * (unat n div 2)" for i
  proof -
    have "i < n" using that(2) bound(1) by (simp add: word_less_nat_alt)
    with assms(2) obtain v where "db_get rk rd c p (u64_be i) d = Done v" by blast
    then show ?thesis by (simp add: at_def)
  qed
  obtain q where q: "search_loop at t (n div 2) (n div 2) = Done q"
    using search_loop_done [of "2 * (unat n div 2)" at "n div 2" "n div 2" t, OF at] bound n by auto
  have range: "if n div 2 = 0 then q = n div 2 else 1 \<le> unat q \<and> unat q < 2 * (unat n div 2)"
    by (rule search_loop_range [OF _ _ _ q]) (use n bound in simp_all)
  have "q < n \<and> (q = 0 \<longleftrightarrow> n = 1)"
  proof (cases "n div 2 = 0")
    case True
    then have "unat n div 2 = 0" using n by simp
    moreover have "unat n \<noteq> 0" using assms(1) by (simp add: unat_eq_zero)
    ultimately have "n = 1" by (simp add: word_unat_eq_iff)
    with True range show ?thesis by simp
  next
    case False
    then have "n \<noteq> 1" by auto
    moreover have q1: "1 \<le> unat q" "unat q < 2 * (unat n div 2)" using range False by simp_all
    moreover have "unat q < unat n" using q1(2) bound(1) by (rule less_le_trans)
    ultimately show ?thesis by (auto simp: word_less_nat_alt)
  qed
  with q assms(1) show ?thesis by (simp add: search_timestamp_def at_def [abs_def] t_def)
qed

text \<open>The records of the sample: four messages, one each second.\<close>

definition sample_times :: content where
  "sample_times c =
     (if c = Some MESSAGES
      then map (\<lambda>i. (u64_be i, message_emit sample_rd
             (sample_message\<lparr>msg_timestamp := \<lparr>as_secs = 10 + i, subsec_nanos = 0\<rparr>\<rparr>))) [0, 1, 2, 3]
      else [])"

theorem search_timestamp_range_witness:
  "\<exists>q. search_timestamp mem_rocks sample_rd MESSAGES (message_absorb sample_rd) msg_timestamp 4 12
      (db_open sample_times) = Done q \<and> q < 4 \<and> (q = 0 \<longleftrightarrow> (4 :: u64) = 1)"
proof (rule search_timestamp_range)
  let ?m = "\<lambda>i. sample_message\<lparr>msg_timestamp := \<lparr>as_secs = 10 + i, subsec_nanos = 0\<rparr>\<rparr>"
  show "\<forall>i. i < 4 \<longrightarrow> (\<exists>v. db_get mem_rocks sample_rd MESSAGES (message_absorb sample_rd) (u64_be i)
      (db_open sample_times) = Done v)"
  proof (intro allI impI)
    fix i :: u64 assume "i < 4"
    then have i: "i \<in> set [0, 1, 2, 3]" 
      by (simp add: word_less_nat_alt word_unat_eq_iff) arith
    have ok: "message_ok (?m i)"
      using i by (auto simp: message_ok_def sample_message_def time_ok_def duration_ok_def stream_id_ok_def)
    have v: "bt_inv (mem_view sample_times (Some MESSAGES))" by (rule mem_view_inv)
    have "mem_view sample_times (Some MESSAGES) = sample_times (Some MESSAGES)"
      by (simp add: mem_view_def sample_times_def bt_inv_def u64_be_less)
    then have "bt_get (u64_be i) (mem_view sample_times (Some MESSAGES)) = Some (message_emit sample_rd (?m i))"
      using i bt_entries_get [OF v, of "u64_be i" "message_emit sample_rd (?m i)"]
      by (auto simp: sample_times_def)
    then show "\<exists>v. db_get mem_rocks sample_rd MESSAGES (message_absorb sample_rd) (u64_be i)
        (db_open sample_times) = Done v"
      by (intro exI [of _ "?m i"]) (simp add: db_get_def db_open_def mem.rocks_get memdb.message_ext [OF ok] parsed_def)
  qed
qed simp

section \<open>Queries on the log\<close>

context db_env
begin

lemma put_message_log:
  assumes L: "log_inv rd view (dc_inner d) L" and i: "\<And>e. e \<in> set L \<Longrightarrow> en_id e < i" and v: "message_ok v"
  shows "log_inv rd view (dc_inner (snd (put_message rk rd addr i v tys hashes d))) (L @ [new_entry i addr v tys])"
  using put_message_done [of addr i v tys hashes d] by (intro log_inv_append [OF L i v]) auto

lemma put_message_connection:
  "fetch_connection rk rd j (snd (put_message rk rd addr i v tys hashes d)) = fetch_connection rk rd j d"
  using put_message_done [of addr i v tys hashes d]
  by (auto simp: fetch_connection_def db_get_def rocks_get message_puts_other)

lemma put_cn_fetch: "connection_ok v \<Longrightarrow> fetch_connection rk rd i (snd (put_cn rk rd i v d)) = Done v"
  using put_in_done [of "Some CONNECTIONS" "emit_u64 rd i" "connection_emit rd v" d]
    ext_rt [of "connection_absorb rd" "connection_emit rd v" v, OF connection_rt]
  by (auto simp: put_cn_def fetch_connection_def db_get_def rocks_get put1_def u64_bytes bt_get_insert parsed_def)

lemma put_cn_log:
  "log_inv rd view (dc_inner d) L \<Longrightarrow> log_inv rd view (dc_inner (snd (put_cn rk rd i v d))) L"
  using put_in_done [of "Some CONNECTIONS" "emit_u64 rd i" "connection_emit rd v" d]
  by (auto simp: put_cn_def put1_def log_cfs_def elim!: log_inv_cong)

lemma log_inv_empty: "(\<And>c. view s (Some c) = []) \<Longrightarrow> log_inv rd view s []"
  by (simp add: log_inv_def)

end



text \<open>C9: A request for messages returns the messages of the log that pass its filters, from the
  requested start on in the requested direction, up to the limits. A message that is of several of the
  requested kinds is listed once for each of them when kinds are the only filter, and once otherwise.\<close>

theorem fetch_messages_spec:
  assumes "radiation_laws rd" "rocks_laws rk view" "kmerge_laws kmerge" "log_inv rd view (dc_inner d) L"
    and "\<forall>e \<in> set L. fetch_connection rk rd (msg_connection_id (en_msg e)) d = Done (conn e)"
    and "message_id rk rd (vp_coordinate params) d = (present, i)"
  shows "fetch_messages rk rd kmerge params d = Some (limit_items (vp_coordinate params) fm_timestamp
    (map (\<lambda>e. (en_id e, full_message_of (en_msg e) (ci_addr (cn_info (conn e))) (JString (msg_brief (en_msg e)))))
       (log_select params present i L)))"
proof -
  have e: "db_env rd rk view" using assms(1,2) by (rule db_env.intro)
  show ?thesis
    by (rule db_env.fetch_messages_log [OF e assms(4,3) _ assms(6)]) (use assms(5) in blast)
qed

definition sample_kmerge :: kmerge where
  "sample_kmerge before its = sort_by (\<lambda>a b. before a b \<or> a = b) (concat its)"

interpretation skm: kmerge_laws sample_kmerge
proof
  fix its dir
  have "(\<lambda>a b. merge_order dir a b \<or> a = b) = runs_before (dir = DirForward)"
    by (intro ext, cases dir) (auto simp: merge_order_def runs_before_def)
  then have e: "sample_kmerge (merge_order dir) its = sort_by (runs_before (dir = DirForward)) (concat its)"
    by (simp only: sample_kmerge_def)
  show "sorted_wrt (runs_before (dir = DirForward)) (sample_kmerge (merge_order dir) its)"
    unfolding e by (rule ro.sort_by_sorted) (rule ro.le_total, rule ro.le_trans)
  show "mset (sample_kmerge (merge_order dir) its) = sum_list (map mset its)"
    unfolding e by (simp add: ro.sort_by_mset mset_concat)
qed

text \<open>Two messages of one connection, the first of two types.\<close>

definition sample_log_db :: "content db_core" where
  "sample_log_db =
     snd (put_message mem_rocks sample_rd (ci_addr (cn_info sample_connection)) 1 sample_message [MtPing] []
      (snd (put_message mem_rocks sample_rd (ci_addr (cn_info sample_connection)) 0 sample_message
         [MtPing, MtFindNode] [] (snd (put_cn mem_rocks sample_rd 0 sample_connection (db_open (\<lambda>_. [])))))))"

definition sample_params :: valid_params where
  "sample_params =
     \<lparr>vp_coordinate = \<lparr>vc_start = ById 1 True, vc_limit = 16, vc_limit_timestamp = None, vc_direction = DirReverse\<rparr>,
      vp_stream_filter = None, vp_kind_filter = Some (MessageKinds [MtFindNode, MtPing])\<rparr>"

theorem fetch_messages_spec_witness:
  "map_option (map fst)
     (fetch_messages mem_rocks sample_rd sample_kmerge sample_params sample_log_db
      :: (u64 \<times> unit full_message) list option) = Some [1, 0, 0]"
proof -
  let ?a = "ci_addr (cn_info sample_connection)"
  let ?L = "([] @ [new_entry 0 ?a sample_message [MtPing, MtFindNode]]) @ [new_entry 1 ?a sample_message [MtPing]]"
  have cn: "connection_ok sample_connection"
    by (simp add: connection_ok_def sample_connection_def time_ok_def duration_ok_def duration_zero_def
        addr_canon_def addr_octets_def v4_mapped_prefix_def)
  have msg: "message_ok sample_message"
    by (simp add: message_ok_def sample_message_def time_ok_def duration_ok_def stream_id_ok_def)
  have empty: "log_inv sample_rd mem_view
      (dc_inner (snd (put_cn mem_rocks sample_rd 0 sample_connection (db_open (\<lambda>_. []))))) []"
    by (rule memdb.put_cn_log, rule memdb.log_inv_empty) (simp add: db_open_def mem_view_def)
  have L: "log_inv sample_rd mem_view (dc_inner sample_log_db) ?L"
    unfolding sample_log_db_def by (intro memdb.put_message_log empty msg) simp_all
  have "fetch_connection mem_rocks sample_rd 0 sample_log_db = Done sample_connection"
    by (simp only: sample_log_db_def memdb.put_message_connection memdb.put_cn_fetch [OF cn])
  then have "\<forall>e \<in> set ?L. fetch_connection mem_rocks sample_rd (msg_connection_id (en_msg e)) sample_log_db =
      Done ((\<lambda>_. sample_connection) e)"
    by (simp add: sample_message_def)
  note spec = fetch_messages_spec [OF sample_rd_laws mem_rocks_laws skm.kmerge_laws_axioms L this,
      of sample_params True 1]
  show ?thesis
    by (subst spec) (simp_all add: message_id_def start_id_def sample_params_def limit_items_def log_select_def
        from_start_def ahead_def times_listed_def kind_count_def)
qed

end
