(* ===== verification/RingBuffer.thy ===== *)
theory RingBuffer
  imports Prelude
begin

text \<open>
  The reading side of the ring buffer between the kernel and the recorder
  (\<open>bpf-ring-buffer/src/lib.rs\<close>). The memory that both share is a function from offsets to bytes and
  the position of the producer; mapping it, waiting for it with \<open>epoll\<close> and log output are left out.
  Lemmas: from a buffer that holds a sequence of records the reader takes exactly these records, in
  order, without the discarded ones, and it stops before a record that is still being written.
\<close>

unbundle bit_operations_syntax

section \<open>The reader\<close>

text \<open>
  \<open>rb_stored\<close> is the position of the consumer in the shared page, which tells the kernel what it may
  overwrite.
\<close>

record ring_buffer =
  rb_mask :: u64
  rb_consumer_pos_value :: u64
  rb_previous_distance :: u64
  rb_stored :: u64

record shared_memory =
  producer_pos :: u64
  rb_data :: "nat \<Rightarrow> u8"

datatype rb_error = Overflown | WouldBlock

definition HEADER_SIZE :: u64 where "HEADER_SIZE = 8"
definition BUSY_BIT :: u64 where "BUSY_BIT = push_bit 31 1"
definition DISCARD_BIT :: u64 where "DISCARD_BIT = push_bit 30 1"

definition mem_slice :: "(nat \<Rightarrow> u8) \<Rightarrow> nat \<Rightarrow> nat \<Rightarrow> bytes" where
  "mem_slice m a n = map m [a..<a + n]"

text \<open>\<open>from\<close> is \<open>from_rb_slice\<close> of the items; an item that cannot be parsed is logged and skipped.\<close>

definition read_slice ::
  "(bytes \<Rightarrow> ('e, 'd option) outcome) \<Rightarrow> shared_memory \<Rightarrow> ring_buffer \<Rightarrow>
   (rb_error, 'd option \<times> u64) outcome \<times> ring_buffer" where
  "read_slice from sh rb =
     (let pr_pos = producer_pos sh in
      if rb_consumer_pos_value rb < pr_pos then
        (let distance = pr_pos - rb_consumer_pos_value rb in
         if rb_mask rb + 1 < distance then (Fail Overflown, rb)
         else
           (let rb = rb\<lparr>rb_previous_distance := distance\<rparr>;
                masked_pos = rb_consumer_pos_value rb AND rb_mask rb;
                index_in_array = unat masked_pos div 8;
                header = (of_nat (from_le (mem_slice (rb_data sh) (8 * index_in_array) 8)) :: u64) AND 0xffffffff;
                data_offset = masked_pos + HEADER_SIZE
            in
            if header AND BUSY_BIT \<noteq> 0 then (Fail WouldBlock, rb)
            else
              (let len = header AND NOT DISCARD_BIT;
                   discard = (header AND DISCARD_BIT \<noteq> 0);
                   rb = rb\<lparr>rb_consumer_pos_value :=
                     rb_consumer_pos_value rb + (HEADER_SIZE + (len + 7) div 8 * 8)\<rparr>;
                   distance = pr_pos - rb_consumer_pos_value rb
               in
               if discard then (Done (None, distance), rb)
               else
                 (case from (mem_slice (rb_data sh) (unat data_offset) (unat len)) of
                    Done v \<Rightarrow> (Done (v, distance), rb)
                  | Fail _ \<Rightarrow> (Done (None, distance), rb)
                  | Panic \<Rightarrow> (Panic, rb)
                  | Hang \<Rightarrow> (Hang, rb)))))
      else (Fail WouldBlock, rb))"

definition read_finish :: "ring_buffer \<Rightarrow> ring_buffer" where
  "read_finish rb = rb\<lparr>rb_stored := rb_consumer_pos_value rb\<rparr>"

definition read_value ::
  "(bytes \<Rightarrow> ('e, 'd option) outcome) \<Rightarrow> shared_memory \<Rightarrow> ring_buffer \<Rightarrow>
   (rb_error, 'd option \<times> u64) outcome \<times> ring_buffer" where
  "read_value from sh rb =
     (case read_slice from sh rb of
        (Done (Some v, remaining), rb) \<Rightarrow> (Done (Some v, remaining), read_finish rb)
      | r \<Rightarrow> r)"

text \<open>
  \<open>read_blocking\<close>: what the thread sees in its turns is a list of shared memories, each with the
  flag that it is told to end while it waits. \<open>None\<close>: it still waits.
\<close>

datatype rb_stop = Terminate | Overflow

fun read_blocking ::
  "(bytes \<Rightarrow> ('e, 'd option) outcome) \<Rightarrow> (shared_memory \<times> bool) list \<Rightarrow> ring_buffer \<Rightarrow>
   (rb_stop, 'd option \<times> u64) outcome option \<times> ring_buffer" where
  "read_blocking from [] rb = (None, rb)"
| "read_blocking from ((sh, terminating) # turns) rb =
     (case read_value from sh rb of
        (Fail WouldBlock, rb) \<Rightarrow>
          if terminating then (Some (Fail Terminate), rb) else read_blocking from turns rb
      | (Fail Overflown, rb) \<Rightarrow> (Some (Fail Overflow), rb)
      | (Done value, rb) \<Rightarrow> (Some (Done value), rb)
      | (Panic, rb) \<Rightarrow> (Some Panic, rb)
      | (Hang, rb) \<Rightarrow> (Some Hang, rb))"

section \<open>What the kernel writes\<close>

text \<open>
  The documented layout of a BPF ring buffer: a record is a word with its length and two flags, a word
  for the kernel, and the data padded to a multiple of eight bytes.
\<close>

datatype rb_record = Submitted bytes | Discarded bytes | Busy bytes

primrec rec_bytes :: "rb_record \<Rightarrow> bytes" where
  "rec_bytes (Submitted b) = b"
| "rec_bytes (Discarded b) = b"
| "rec_bytes (Busy b) = b"

definition rec_flags :: "rb_record \<Rightarrow> nat" where
  "rec_flags r = (case r of Submitted _ \<Rightarrow> 0 | Discarded _ \<Rightarrow> 2 ^ 30 | Busy _ \<Rightarrow> 2 ^ 31)"

definition rec_size :: "rb_record \<Rightarrow> nat" where
  "rec_size r = 8 + (length (rec_bytes r) + 7) div 8 * 8"

text \<open>The records that lie in a memory of \<open>cap\<close> bytes from a position on.\<close>

fun records_at :: "nat \<Rightarrow> (nat \<Rightarrow> u8) \<Rightarrow> nat \<Rightarrow> rb_record list \<Rightarrow> bool" where
  "records_at cap m p [] = True"
| "records_at cap m p (r # rs) =
     (length (rec_bytes r) < 2 ^ 30 \<and>
      from_le (mem_slice m (p mod cap) 4) = length (rec_bytes r) + rec_flags r \<and>
      mem_slice m (p mod cap + 8) (length (rec_bytes r)) = rec_bytes r \<and>
      records_at cap m (p + rec_size r) rs)"

definition rb_holds :: "shared_memory \<Rightarrow> ring_buffer \<Rightarrow> rb_record list \<Rightarrow> bool" where
  "rb_holds sh rb rs =
     (\<exists>k \<ge> 3. k < 64 \<and> unat (rb_mask rb) = 2 ^ k - 1 \<and> 8 dvd unat (rb_consumer_pos_value rb) \<and>
        records_at (2 ^ k) (rb_data sh) (unat (rb_consumer_pos_value rb)) rs \<and>
        unat (producer_pos sh) = unat (rb_consumer_pos_value rb) + sum_list (map rec_size rs) \<and>
        sum_list (map rec_size rs) \<le> 2 ^ k)"

section \<open>The header of a record\<close>

lemma from_be_append: "from_be (a @ b) = from_be a * 256 ^ length b + from_be b"
proof (induction b rule: rev_induct)
  case (snoc x b)
  then show ?case by (simp add: append_assoc [symmetric] from_be_snoc algebra_simps del: append_assoc)
qed simp

lemma from_le_append: "from_le (a @ b) = from_le a + 256 ^ length a * from_le b"
  by (simp add: from_le_def from_be_append)

lemma mem_slice_add: "mem_slice m a (n + k) = mem_slice m a n @ mem_slice m (a + n) k"
proof -
  have "[a..<a + (n + k)] = [a..<a + n] @ [a + n..<a + n + k]"
    using upt_add_eq_append [of a "a + n" k] by (simp add: add.assoc)
  then show ?thesis by (simp add: mem_slice_def)
qed

lemma length_mem_slice [simp]: "length (mem_slice m a n) = n"
  by (simp add: mem_slice_def)

lemma no_high_bit: "l < 2 ^ 30 \<Longrightarrow> 30 \<le> n \<Longrightarrow> \<not> bit (of_nat l :: u64) n"
proof -
  assume l: "l < 2 ^ 30" "30 \<le> n"
  then have "l < 2 ^ n" by (meson less_le_trans one_le_numeral power_increasing)
  then have "\<not> bit l n" by (simp add: bit_iff_odd)
  then show ?thesis by (simp add: bit_simps)
qed

lemma header_word:
  "(of_nat (from_le (mem_slice m a 8)) :: u64) AND 0xffffffff = of_nat (from_le (mem_slice m a 4))"
proof -
  have "mem_slice m a 8 = mem_slice m a 4 @ mem_slice m (a + 4) 4"
    using mem_slice_add [of m a 4 4] by simp
  then have e: "from_le (mem_slice m a 8) = from_le (mem_slice m a 4) + 2 ^ 32 * from_le (mem_slice m (a + 4) 4)"
    by (simp add: from_le_append)
  have "from_le (mem_slice m a 4) < 2 ^ 32"
    using from_be_less [of "rev (mem_slice m a 4)"] by (simp add: from_le_def)
  then have "from_le (mem_slice m a 8) mod 2 ^ 32 = from_le (mem_slice m a 4)" unfolding e by simp
  moreover have "(w :: u64) AND 0xffffffff = take_bit 32 w" for w
    by (simp add: take_bit_eq_mask mask_eq_exp_minus_1)
  ultimately show ?thesis by (simp add: take_bit_of_nat take_bit_nat_def)
qed

lemma bit_flags: "bit BUSY_BIT n \<longleftrightarrow> n = 31" "bit DISCARD_BIT n \<longleftrightarrow> n = 30"
  unfolding BUSY_BIT_def DISCARD_BIT_def bit_push_bit_iff bit_1_iff by auto

lemma header_flags:
  assumes "l < 2 ^ 30"
  shows "of_nat l AND BUSY_BIT = 0" "of_nat l AND DISCARD_BIT = 0" "of_nat l AND NOT DISCARD_BIT = of_nat l"
    and "of_nat (l + 2 ^ 30) AND BUSY_BIT = 0" "of_nat (l + 2 ^ 30) AND DISCARD_BIT \<noteq> 0"
    "of_nat (l + 2 ^ 30) AND NOT DISCARD_BIT = of_nat l"
    and "of_nat (l + 2 ^ 31) AND BUSY_BIT \<noteq> 0"
proof -
  note n = no_high_bit [OF assms]
  have e: "(of_nat (l + 2 ^ 30) :: u64) = of_nat l OR DISCARD_BIT" "(of_nat (l + 2 ^ 31) :: u64) = of_nat l OR BUSY_BIT"
  proof -
    have "(of_nat l :: u64) + DISCARD_BIT = of_nat l OR DISCARD_BIT" "(of_nat l :: u64) + BUSY_BIT = of_nat l OR BUSY_BIT"
      by (rule disjunctive_add; use n in \<open>auto simp: bit_flags\<close>)+
    then show "(of_nat (l + 2 ^ 30) :: u64) = of_nat l OR DISCARD_BIT" "(of_nat (l + 2 ^ 31) :: u64) = of_nat l OR BUSY_BIT"
      by (simp_all add: DISCARD_BIT_def BUSY_BIT_def)
  qed
  have and_eq: "(a AND b) = c" if "\<And>n. n < 64 \<Longrightarrow> bit a n \<and> bit b n \<longleftrightarrow> bit c n" for a b c :: u64
    by (rule bit_word_eqI) (use that in \<open>simp add: bit_simps\<close>)
  show "of_nat l AND BUSY_BIT = 0" "of_nat l AND DISCARD_BIT = 0" "of_nat l AND NOT DISCARD_BIT = of_nat l"
    by (rule and_eq; use n in \<open>auto simp: bit_flags bit_not_iff\<close>)+
  show "of_nat (l + 2 ^ 30) AND BUSY_BIT = 0" "of_nat (l + 2 ^ 30) AND NOT DISCARD_BIT = of_nat l"
    unfolding e by (rule and_eq; use n in \<open>auto simp: bit_flags bit_not_iff bit_or_iff\<close>)+
  have "bit ((of_nat l OR DISCARD_BIT) AND DISCARD_BIT) 30" "bit ((of_nat l OR BUSY_BIT) AND BUSY_BIT) 31"
    by (simp_all add: bit_flags bit_and_iff bit_or_iff)
  then show "of_nat (l + 2 ^ 30) AND DISCARD_BIT \<noteq> 0" "of_nat (l + 2 ^ 31) AND BUSY_BIT \<noteq> 0"
    unfolding e by (metis bit_0_eq bot_apply bot_bool_def)+
qed

section \<open>Records come out as they went in\<close>

definition rec_value :: "(bytes \<Rightarrow> ('e, 'd option) outcome) \<Rightarrow> rb_record \<Rightarrow> 'd option" where
  "rec_value from r = (case r of
     Submitted b \<Rightarrow> (case from b of Done v \<Rightarrow> v | _ \<Rightarrow> None)
   | _ \<Rightarrow> None)"

lemma rb_holds_Cons:
  assumes "rb_holds sh rb (r # rs)"
  defines "c \<equiv> unat (rb_consumer_pos_value rb)" and "l \<equiv> length (rec_bytes r)"
  shows "rb_consumer_pos_value rb < producer_pos sh"
    and "\<not> rb_mask rb + 1 < producer_pos sh - rb_consumer_pos_value rb"
    and "(of_nat (from_le (mem_slice (rb_data sh) (8 * (unat (rb_consumer_pos_value rb AND rb_mask rb) div 8)) 8)) :: u64)
      AND 0xffffffff = of_nat (l + rec_flags r)"
    and "l < 2 ^ 30"
    and "mem_slice (rb_data sh) (unat ((rb_consumer_pos_value rb AND rb_mask rb) + HEADER_SIZE)) l = rec_bytes r"
    and "unat (rb_consumer_pos_value rb + (HEADER_SIZE + (of_nat l + 7) div 8 * 8)) = c + rec_size r"
    and "c + rec_size r + sum_list (map rec_size rs) = unat (producer_pos sh)"
    and "unat (rb_consumer_pos_value rb') = c + rec_size r \<Longrightarrow> rb_mask rb' = rb_mask rb \<Longrightarrow> rb_holds sh rb' rs"
proof -
  obtain k where k: "3 \<le> k" "k < 64" "unat (rb_mask rb) = 2 ^ k - 1" "8 dvd c"
    "records_at (2 ^ k) (rb_data sh) c (r # rs)" "unat (producer_pos sh) = c + sum_list (map rec_size (r # rs))"
    "sum_list (map rec_size (r # rs)) \<le> 2 ^ k"
    using assms(1) unfolding rb_holds_def c_def by blast
  have k64: "2 ^ k \<le> (2 ^ 63 :: nat)" using k(2) by (intro power_increasing) simp_all
  show "rb_consumer_pos_value rb < producer_pos sh"
    using k(6) by (simp add: word_less_nat_alt c_def rec_size_def)
  then have d: "unat (producer_pos sh - rb_consumer_pos_value rb) = sum_list (map rec_size (r # rs))"
    using k(6) by (simp add: unat_sub word_less_nat_alt c_def order_less_imp_le word_le_nat_alt)
  have m: "rb_mask rb = mask k"
  proof -
    have "rb_mask rb = of_nat (unat (rb_mask rb))" by simp
    also have "\<dots> = of_nat (mask k)" unfolding k(3) by (simp only: mask_eq_exp_minus_1)
    finally show ?thesis by (simp only: of_nat_mask_eq)
  qed
  have "unat (rb_mask rb + 1) = 2 ^ k"
    using k(3) k64 by (simp add: unat_word_ariths)
  with d k(7) show "\<not> rb_mask rb + 1 < producer_pos sh - rb_consumer_pos_value rb"
    by (simp add: word_less_nat_alt)
  have masked: "unat (rb_consumer_pos_value rb AND rb_mask rb) = c mod 2 ^ k"
    by (simp add: m c_def take_bit_eq_mask [symmetric] unsigned_take_bit_eq take_bit_nat_def)
  have "8 dvd (2 ^ k :: nat)" using k(1) le_imp_power_dvd [of 3 k "2 :: nat"] by simp
  then have "8 dvd c mod 2 ^ k" using k(4) by (simp add: dvd_mod)
  then have "8 * (c mod 2 ^ k div 8) = c mod 2 ^ k" by simp
  then show "(of_nat (from_le (mem_slice (rb_data sh) (8 * (unat (rb_consumer_pos_value rb AND rb_mask rb) div 8)) 8)) :: u64)
      AND 0xffffffff = of_nat (l + rec_flags r)"
    using k(5) by (simp add: masked header_word l_def)
  show l: "l < 2 ^ 30" using k(5) by (simp add: l_def)
  have "c mod 2 ^ k < 2 ^ k" by simp
  then have "c mod 2 ^ k < 2 ^ 63" using k64 by (rule less_le_trans)
  then have "c mod 2 ^ k + 8 < 2 ^ 64" by simp
  then have "unat ((rb_consumer_pos_value rb AND rb_mask rb) + HEADER_SIZE) = c mod 2 ^ k + 8"
    using masked by (simp add: unat_word_ariths HEADER_SIZE_def)
  with k(5) show "mem_slice (rb_data sh) (unat ((rb_consumer_pos_value rb AND rb_mask rb) + HEADER_SIZE)) l = rec_bytes r"
    by (simp add: l_def)
  show sum: "c + rec_size r + sum_list (map rec_size rs) = unat (producer_pos sh)" using k(6) by simp
  have "unat (HEADER_SIZE + (of_nat l + 7) div 8 * 8) = rec_size r"
    using l by (simp add: HEADER_SIZE_def rec_size_def l_def unat_word_ariths unat_div_distrib unat_of_nat)
  moreover have "c + rec_size r < 2 ^ 64" using sum unsigned_less [of "producer_pos sh", where 'a = nat] by simp
  ultimately show "unat (rb_consumer_pos_value rb + (HEADER_SIZE + (of_nat l + 7) div 8 * 8)) = c + rec_size r"
    by (simp add: unat_word_ariths c_def)
  show "rb_holds sh rb' rs" if "unat (rb_consumer_pos_value rb') = c + rec_size r" "rb_mask rb' = rb_mask rb"
    unfolding rb_holds_def using that k by (intro exI [of _ k]) (auto simp: rec_size_def)
qed

lemma read_busy:
  assumes "rb_holds sh rb (Busy b # rs)"
  shows "fst (read_value from sh rb) = Fail WouldBlock"
proof -
  note h = rb_holds_Cons [OF assms]
  have "of_nat (length b + 2 ^ 31) AND BUSY_BIT \<noteq> 0" using h(4) by (intro header_flags(7)) simp
  with h(1,2,3) show ?thesis by (simp add: read_value_def read_slice_def Let_def rec_flags_def)
qed

lemma read_record:
  assumes "rb_holds sh rb (r # rs)" and "\<And>b. r \<noteq> Busy b"
    and "\<And>b. r = Submitted b \<Longrightarrow> from b \<noteq> Panic \<and> from b \<noteq> Hang"
  shows "\<exists>rest rb'. read_value from sh rb = (Done (rec_value from r, rest), rb') \<and> rb_holds sh rb' rs \<and>
     unat rest = sum_list (map rec_size rs) \<and>
     (rb_stored rb \<le> rb_consumer_pos_value rb \<longrightarrow> rb_stored rb' \<le> rb_consumer_pos_value rb')"
proof -
  let ?l = "length (rec_bytes r)"
  note h = rb_holds_Cons [OF assms(1)]
  define q where "q = rb_consumer_pos_value rb + (HEADER_SIZE + (of_nat ?l + 7) div 8 * 8)"
  define rb1 where "rb1 = rb\<lparr>rb_previous_distance := producer_pos sh - rb_consumer_pos_value rb,
    rb_consumer_pos_value := q\<rparr>"
  have q: "unat q = unat (rb_consumer_pos_value rb) + rec_size r" using h(6) by (simp add: q_def)
  have le: "rb_consumer_pos_value rb \<le> q" using q by (simp add: word_le_nat_alt)
  have rest: "unat (producer_pos sh - q) = sum_list (map rec_size rs)"
    using q h(7) by (subst unat_sub) (simp_all add: word_le_nat_alt)
  have holds: "rb_holds sh rb' rs" if "rb_consumer_pos_value rb' = q" "rb_mask rb' = rb_mask rb" for rb'
    using h(8) [of rb'] that q by simp
  have "read_slice from sh rb = (Done (rec_value from r, producer_pos sh - q), rb1)"
  proof (cases r)
    case (Submitted b)
    then have "of_nat ?l AND BUSY_BIT = 0" "of_nat ?l AND DISCARD_BIT = 0" "of_nat ?l AND NOT DISCARD_BIT = of_nat ?l"
      using header_flags(1-3) [OF h(4)] by simp_all
    moreover have "unat (of_nat ?l :: u64) = ?l" using h(4) by (simp add: unat_of_nat)
    ultimately show ?thesis
      using h(1,2,3,5) Submitted assms(3) [OF Submitted]
      by (cases "from b") (simp_all add: read_slice_def Let_def rec_flags_def rec_value_def rb1_def q_def)
  next
    case (Discarded b)
    then have "of_nat (?l + 2 ^ 30) AND BUSY_BIT = 0" "of_nat (?l + 2 ^ 30) AND DISCARD_BIT \<noteq> 0"
      "of_nat (?l + 2 ^ 30) AND NOT DISCARD_BIT = of_nat ?l"
      using header_flags(4-6) [OF h(4)] by simp_all
    with h(1,2,3) Discarded show ?thesis
      by (simp add: read_slice_def Let_def rec_flags_def rec_value_def rb1_def q_def)
  next
    case (Busy b)
    with assms(2) show ?thesis by blast
  qed
  then show ?thesis
    using le rest by (cases "rec_value from r")
      (auto simp: read_value_def rb1_def read_finish_def intro!: holds)
qed

text \<open>Reading \<open>n\<close> times, or until the reader blocks.\<close>

fun rb_reads ::
  "(bytes \<Rightarrow> ('e, 'd option) outcome) \<Rightarrow> shared_memory \<Rightarrow> nat \<Rightarrow> ring_buffer \<Rightarrow> 'd option list \<times> ring_buffer" where
  "rb_reads from sh 0 rb = ([], rb)"
| "rb_reads from sh (Suc n) rb =
     (case read_value from sh rb of
        (Done (v, _), rb) \<Rightarrow> (case rb_reads from sh n rb of (vs, rb) \<Rightarrow> (v # vs, rb))
      | (_, rb) \<Rightarrow> ([], rb))"

lemma rb_reads_records:
  assumes "rb_holds sh rb (rs @ bs)" "\<forall>r \<in> set rs. \<forall>b. r \<noteq> Busy b" "bs = [] \<or> (\<exists>b cs. bs = Busy b # cs)"
    and "\<forall>b. Submitted b \<in> set rs \<longrightarrow> from b \<noteq> Panic \<and> from b \<noteq> Hang"
    and "length rs \<le> n" "rb_stored rb \<le> rb_consumer_pos_value rb"
  shows "\<exists>rb'. rb_reads from sh n rb = (map (rec_value from) rs, rb') \<and> rb_stored rb' \<le> rb_consumer_pos_value rb'"
  using assms
proof (induction rs arbitrary: rb n)
  case Nil
  have "fst (read_value from sh rb) = Fail WouldBlock"
  proof (cases bs)
    case Nil
    then have "producer_pos sh = rb_consumer_pos_value rb"
      using \<open>rb_holds sh rb ([] @ bs)\<close> by (auto simp: rb_holds_def word_unat_eq_iff)
    then show ?thesis by (simp add: read_value_def read_slice_def Let_def)
  next
    case (Cons b cs)
    with Nil.prems(1,3) read_busy show ?thesis by auto
  qed
  moreover have "rb_stored (snd (read_value from sh rb)) = rb_stored rb \<and>
      rb_consumer_pos_value (snd (read_value from sh rb)) = rb_consumer_pos_value rb"
    if "fst (read_value from sh rb) = Fail WouldBlock"
    using that by (auto simp: read_value_def read_slice_def Let_def split: if_splits outcome.splits option.splits)
  ultimately show ?case using Nil.prems(6)
    by (cases n; cases "read_value from sh rb") auto
next
  case (Cons r rs)
  from Cons.prems(5) obtain m where n: "n = Suc m" "length rs \<le> m" by (cases n) auto
  obtain rest rb1 where r: "read_value from sh rb = (Done (rec_value from r, rest), rb1)"
    "rb_holds sh rb1 (rs @ bs)" "rb_stored rb1 \<le> rb_consumer_pos_value rb1"
    using read_record [of sh rb r "rs @ bs" "from"] Cons.prems(1,2,4,6) by auto
  from Cons.IH [OF r(2) _ Cons.prems(3) _ n(2) r(3)] Cons.prems(2,4) obtain rb' where
    "rb_reads from sh m rb1 = (map (rec_value from) rs, rb')" "rb_stored rb' \<le> rb_consumer_pos_value rb'" by auto
  with r(1) n(1) show ?case by simp
qed

text \<open>C23: Reading a ring buffer that holds any sequence of records gives their contents one after the
  other, without the discarded ones, up to the first record that the kernel still writes; there the
  reader waits. It never frees the space of a record that it has not read.\<close>

theorem ring_buffer_fifo:
  assumes "rb_holds sh rb (rs @ bs)" "\<forall>r \<in> set rs. \<forall>b. r \<noteq> Busy b" "bs = [] \<or> (\<exists>b cs. bs = Busy b # cs)"
    and "\<forall>b. Submitted b \<in> set rs \<longrightarrow> from b \<noteq> Panic \<and> from b \<noteq> Hang"
    and "length rs \<le> n" "rb_stored rb \<le> rb_consumer_pos_value rb"
  shows "\<exists>rb'. rb_reads from sh n rb = (map (rec_value from) rs, rb') \<and> rb_stored rb' \<le> rb_consumer_pos_value rb'"
  using assms by (rule rb_reads_records)

definition sample_ring :: "nat \<Rightarrow> u8" where
  "sample_ring i = (if i < 48 then
     [3, 0, 0, 0, 0, 0, 0, 0, 10, 11, 12, 0, 0, 0, 0, 0,
      1, 0, 0, 0x40, 0, 0, 0, 0, 13, 0, 0, 0, 0, 0, 0, 0,
      1, 0, 0, 0x80, 0, 0, 0, 0, 14, 0, 0, 0, 0, 0, 0, 0] ! i else 0)"

theorem ring_buffer_fifo_witness:
  "\<exists>rb'. rb_reads (\<lambda>b. Done (Some b) :: (unit, bytes option) outcome)
     \<lparr>producer_pos = 48, rb_data = sample_ring\<rparr> 5
     \<lparr>rb_mask = 63, rb_consumer_pos_value = 0, rb_previous_distance = 0, rb_stored = 0\<rparr> =
     ([Some [10, 11, 12], None], rb') \<and> rb_stored rb' \<le> rb_consumer_pos_value rb'"
proof -
  let ?sh = "\<lparr>producer_pos = 48, rb_data = sample_ring\<rparr>"
  let ?rb = "\<lparr>rb_mask = 63, rb_consumer_pos_value = 0, rb_previous_distance = 0, rb_stored = 0\<rparr>"
  have "rb_holds ?sh ?rb ([Submitted [10, 11, 12], Discarded [13]] @ [Busy [14]])"
    unfolding rb_holds_def
    by (rule exI [of _ 6])
      (simp add: rec_size_def rec_flags_def mem_slice_def sample_ring_def upt_rec from_le_def from_be_def)
  from ring_buffer_fifo [OF this, of "\<lambda>b. Done (Some b) :: (unit, bytes option) outcome" 5] show ?thesis
    by (simp add: rec_value_def)
qed

end
