(* ===== verification/Sniffer.thy ===== *)
theory Sniffer
  imports RingBuffer Types
begin

text \<open>
  The BPF programs that watch the system calls of a node (\<open>bpf-recorder/src/main.rs\<close>, \<open>context.rs\<close>,
  \<open>send.rs\<close>) and the events by which they tell the recorder (\<open>bpf-recorder/src/lib.rs\<close>). What the kernel
  answers while a program runs (helpers of the crate \<open>ebpf\<close>) is the argument \<open>kern\<close>. Lemmas: an
  event is read back as it was sent, with the bytes of the system call.
\<close>

unbundle bit_operations_syntax

section \<open>Events\<close>

datatype data_tag =
    TagDebug | TagClose | TagConnect | TagBind | TagListen | TagAccept | TagWrite | TagRead | TagAlias
  | TagRandom | TagGetSockOpt | TagSnarkWorker

definition data_tags :: "data_tag list" where
  "data_tags =
     [TagDebug, TagClose, TagConnect, TagBind, TagListen, TagAccept, TagWrite, TagRead, TagAlias,
      TagRandom, TagGetSockOpt, TagSnarkWorker]"

definition data_tag_u32 :: "data_tag \<Rightarrow> u32" where
  "data_tag_u32 t = (case t of
     TagDebug \<Rightarrow> 0 | TagClose \<Rightarrow> 1 | TagConnect \<Rightarrow> 2 | TagBind \<Rightarrow> 3 | TagListen \<Rightarrow> 4 | TagAccept \<Rightarrow> 5
   | TagWrite \<Rightarrow> 6 | TagRead \<Rightarrow> 7 | TagAlias \<Rightarrow> 8 | TagRandom \<Rightarrow> 9 | TagGetSockOpt \<Rightarrow> 10
   | TagSnarkWorker \<Rightarrow> 11)"

definition data_tag_from_u32 :: "u32 \<Rightarrow> data_tag option" where
  "data_tag_from_u32 c = find (\<lambda>v. data_tag_u32 v = c) data_tags"

text \<open>\<open>be_size\<close> is an \<open>i32\<close>, read with \<open>sint\<close>.\<close>

record bpf_event =
  be_fd :: u32
  be_pid :: u32
  be_tid :: u32
  be_ts0 :: u64
  be_ts1 :: u64
  be_tag :: data_tag
  be_size :: u32

definition event_new :: "u32 \<Rightarrow> u32 \<Rightarrow> u64 \<Rightarrow> u64 \<Rightarrow> bpf_event" where
  "event_new pid tid ts0 ts1 =
     \<lparr>be_fd = 0, be_pid = pid, be_tid = tid, be_ts0 = ts0, be_ts1 = ts1, be_tag = TagDebug, be_size = 0\<rparr>"

definition set_tag_fd :: "data_tag \<Rightarrow> u32 \<Rightarrow> bpf_event \<Rightarrow> bpf_event" where
  "set_tag_fd tag fd e = e\<lparr>be_fd := fd, be_tag := tag\<rparr>"

definition set_ok :: "u64 \<Rightarrow> bpf_event \<Rightarrow> bpf_event" where
  "set_ok n e = e\<lparr>be_size := ucast n\<rparr>"

definition set_err :: "u64 \<Rightarrow> bpf_event \<Rightarrow> bpf_event" where
  "set_err code e = e\<lparr>be_size := ucast code\<rparr>"

text \<open>
  The layout of \<open>Event\<close> (\<open>repr(C)\<close>, 40 bytes); the bytes 12 to 16 are padding and keep what the buffer
  had.
\<close>

definition EVENT_SIZE :: nat where "EVENT_SIZE = 40"

definition event_write :: "bpf_event \<Rightarrow> bytes \<Rightarrow> bytes" where
  "event_write e buf =
     to_le 4 (unat (be_fd e)) @ to_le 4 (unat (be_pid e)) @ to_le 4 (unat (be_tid e)) @ slice 12 16 buf @
     to_le 8 (unat (be_ts0 e)) @ to_le 8 (unat (be_ts1 e)) @ to_le 4 (unat (data_tag_u32 (be_tag e))) @
     to_le 4 (unat (be_size e)) @ drop EVENT_SIZE buf"

text \<open>\<open>ptr::read\<close>; a tag out of range is undefined behaviour of the program.\<close>

definition event_read :: "bytes \<Rightarrow> bpf_event option" where
  "event_read bs =
     map_option (\<lambda>tag.
       \<lparr>be_fd = of_nat (from_le (slice 0 4 bs)), be_pid = of_nat (from_le (slice 4 8 bs)),
        be_tid = of_nat (from_le (slice 8 12 bs)), be_ts0 = of_nat (from_le (slice 16 24 bs)),
        be_ts1 = of_nat (from_le (slice 24 32 bs)), be_tag = tag,
        be_size = of_nat (from_le (slice 36 40 bs))\<rparr>)
       (data_tag_from_u32 (of_nat (from_le (slice 32 36 bs))))"

datatype sniffer_variant =
    NewApp string
  | NewSnarkWorkerApp
  | BindEv socket_addr
  | IncomingConnection socket_addr
  | OutgoingConnection socket_addr
  | Disconnected
  | IncomingData bytes
  | OutgoingData bytes
  | RandomEv bytes
  | GetSockOptEv bytes
  | ErrorEv data_tag u32

record sniffer_event =
  se_pid :: u32
  se_tid :: u32
  se_fd :: u32
  se_ts0 :: u64
  se_ts1 :: u64
  se_variant :: sniffer_variant

text \<open>The address behind \<open>Accept\<close>, \<open>Connect\<close> and \<open>Bind\<close>; \<open>Panic\<close> where a slice is out of range.\<close>

definition event_address :: "bytes \<Rightarrow> (unit, socket_addr option) outcome" where
  "event_address d =
     (if length d < 4 then Panic
      else
        (let family = from_le (slice 0 2 d); port = be_u16 (slice 2 4 d) in
         if family = 2 then
           (if length d < 8 then Panic else Done (Some \<lparr>ip = V4 (be_u32 (slice 4 8 d)), port = port\<rparr>))
         else if family = 10 then
           (if length d < 24 then Panic
            else Done (Some \<lparr>ip = V6 (of_nat (from_be (slice 8 24 d))), port = port\<rparr>))
         else Done None))"

text \<open>\<open>from_rb_slice\<close>: \<open>Hang\<close> is the exit of the process when an event is longer than its record.\<close>

definition from_rb_slice :: "bytes \<Rightarrow> (unit, sniffer_event option) outcome" where
  "from_rb_slice bs =
     (if bs = [] then Done None
      else if length bs < EVENT_SIZE then Done None
      else
        (case event_read bs of
           None \<Rightarrow> Panic
         | Some e \<Rightarrow>
             (let ret = (\<lambda>v. Done (Some \<lparr>se_pid = be_pid e, se_tid = be_tid e, se_fd = be_fd e,
                    se_ts0 = be_ts0 e, se_ts1 = be_ts1 e, se_variant = v\<rparr>));
                  sz = nat (sint (be_size e)) in
              if sint (be_size e) < 0 then ret (ErrorEv (be_tag e) (be_size e))
              else if length bs < EVENT_SIZE + sz then Hang
              else
                (let d = slice EVENT_SIZE (EVENT_SIZE + sz) bs in
                 case be_tag e of
                   TagAccept \<Rightarrow>
                     (case event_address d of
                        Done (Some a) \<Rightarrow> ret (IncomingConnection a) | Done None \<Rightarrow> Done None | _ \<Rightarrow> Panic)
                 | TagConnect \<Rightarrow>
                     (case event_address d of
                        Done (Some a) \<Rightarrow> ret (OutgoingConnection a) | Done None \<Rightarrow> Done None | _ \<Rightarrow> Panic)
                 | TagBind \<Rightarrow>
                     (case event_address d of
                        Done (Some a) \<Rightarrow> ret (BindEv a) | Done None \<Rightarrow> Done None | _ \<Rightarrow> Panic)
                 | TagRead \<Rightarrow> ret (IncomingData d)
                 | TagWrite \<Rightarrow> ret (OutgoingData d)
                 | TagClose \<Rightarrow> ret Disconnected
                 | TagAlias \<Rightarrow>
                     if d = [] then Panic
                     else ret (NewApp (if utf8_valid (butlast d) then bytes_str (butlast d)
                                       else ''invalid_uft8_alias''))
                 | TagRandom \<Rightarrow> ret (RandomEv d)
                 | TagGetSockOpt \<Rightarrow> ret (GetSockOptEv d)
                 | TagSnarkWorker \<Rightarrow> ret NewSnarkWorkerApp
                 | TagDebug \<Rightarrow> Done None
                 | TagListen \<Rightarrow> Done None))))"

section \<open>The kernel\<close>

text \<open>
  What the kernel answers while one program runs: process and thread, the time since boot, reads of user
  memory (result and what they leave in the destination), the error of a reservation in the ring buffer
  (depending on what it holds), of an insertion into a map and of a removal, and what a reserved buffer
  has in it.
\<close>

datatype bpf_map = MapPid | MapPidSnarkWorker | MapContext | MapConnections

record kern =
  kn_pid_tgid :: u64
  kn_ktime :: u64
  kn_user :: "u64 \<Rightarrow> nat \<Rightarrow> int \<times> bytes"
  kn_user_str :: "u64 \<Rightarrow> nat \<Rightarrow> int \<times> bytes"
  kn_reserve :: "nat \<Rightarrow> rb_record list \<Rightarrow> int option"
  kn_insert :: "bpf_map \<Rightarrow> int option"
  kn_remove :: "bpf_map \<Rightarrow> int option"
  kn_fresh :: "nat \<Rightarrow> bytes"

definition kn_pid :: "kern \<Rightarrow> u32" where
  "kn_pid kn = ucast (drop_bit 32 (kn_pid_tgid kn))"

definition kn_tid :: "kern \<Rightarrow> u32" where
  "kn_tid kn = ucast (kn_pid_tgid kn)"

text \<open>\<open>context::Variant\<close>: the arguments of a system call, kept until it returns.\<close>

datatype variant =
    VEmpty u64 u64
  | VBind u32 u64 u64
  | VConnect u32 u64 u64
  | VAccept u32 u64 u64
  | VWrite u32 u64
  | VRead u32 u64
  | VSend u32 u64
  | VRecv u32 u64
  | VGetRandom u64 u64
  | VGetSockOptL1O4 u32 u64 u64
  | VGetSockOptIrrelevant u32 u64 u64

definition variant_ptr :: "variant \<Rightarrow> u64" where
  "variant_ptr v = (case v of
     VEmpty p _ \<Rightarrow> p
   | VBind _ p _ \<Rightarrow> p
   | VConnect _ p _ \<Rightarrow> p
   | VAccept _ p _ \<Rightarrow> p
   | VWrite _ p \<Rightarrow> p
   | VRead _ p \<Rightarrow> p
   | VSend _ p \<Rightarrow> p
   | VRecv _ p \<Rightarrow> p
   | VGetRandom p _ \<Rightarrow> p
   | VGetSockOptL1O4 _ p _ \<Rightarrow> p
   | VGetSockOptIrrelevant _ p _ \<Rightarrow> p)"

text \<open>The maps and the ring buffer of \<open>App\<close>.\<close>

record bpf_app =
  ba_event_queue :: "rb_record list"
  ba_pid :: "u32 \<rightharpoonup> u32"
  ba_pid_snark_worker :: "u32 \<rightharpoonup> u32"
  ba_context :: "u32 \<rightharpoonup> variant \<times> u64"
  ba_connections :: "u64 \<rightharpoonup> u32"

definition bpf_app_new :: bpf_app where
  "bpf_app_new = \<lparr>ba_event_queue = [], ba_pid = Map.empty, ba_pid_snark_worker = Map.empty,
     ba_context = Map.empty, ba_connections = Map.empty\<rparr>"

type_synonym 'a bpf = "bpf_app \<Rightarrow> (int, 'a) outcome \<times> bpf_app"

text \<open>A reservation, submitted or discarded at the end of the program.\<close>

definition rb_submit :: "kern \<Rightarrow> nat \<Rightarrow> (bytes \<Rightarrow> bytes) \<Rightarrow> unit bpf" where
  "rb_submit kn n fill a =
     (case kn_reserve kn n (ba_event_queue a) of
        Some e \<Rightarrow> (Fail e, a)
      | None \<Rightarrow> (Done (), a\<lparr>ba_event_queue := ba_event_queue a @ [Submitted (fill (kn_fresh kn n))]\<rparr>))"

definition rb_scratch :: "kern \<Rightarrow> nat \<Rightarrow> unit bpf" where
  "rb_scratch kn n a =
     (case kn_reserve kn n (ba_event_queue a) of
        Some e \<Rightarrow> (Fail e, a)
      | None \<Rightarrow> (Done (), a\<lparr>ba_event_queue := ba_event_queue a @ [Discarded (kn_fresh kn n)]\<rparr>))"

section \<open>Sending an event\<close>

text \<open>\<open>send::sized\<close> for user memory, with a buffer of \<open>n\<close> bytes behind the event.\<close>

definition send_sized :: "kern \<Rightarrow> nat \<Rightarrow> bpf_event \<Rightarrow> u64 \<Rightarrow> unit bpf" where
  "send_sized kn n e ptr a =
     (let sz = sint (be_size e) in
      if 0 < sz \<and> sz \<le> int n then
        (let to_copy = nat (sz - 1) mod n + 1;
             (result, d) = kn_user kn ptr to_copy;
             e1 = (if 0 < result then e\<lparr>be_size := of_int result\<rparr> else e)
         in case rb_submit kn (n + EVENT_SIZE)
                  (\<lambda>buf. event_write e1 (take EVENT_SIZE buf @ d @ drop (EVENT_SIZE + to_copy) buf)) a of
              (Done _, a) \<Rightarrow> (Done (), a)
            | (_, a) \<Rightarrow> rb_submit kn EVENT_SIZE (event_write (e\<lparr>be_size := - 90\<rparr>)) a)
      else rb_submit kn EVENT_SIZE (event_write e) a)"

definition dyn_sized :: "kern \<Rightarrow> bpf_event \<Rightarrow> u64 \<Rightarrow> unit bpf" where
  "dyn_sized kn e ptr a =
     (if sint (be_size e) \<le> 0 then send_sized kn 0 e ptr a
      else
        (case find (\<lambda>k. sint (be_size e) \<le> 2 ^ k) [8..<28] of
           Some k \<Rightarrow> send_sized kn (2 ^ k) e ptr a
         | None \<Rightarrow> (Fail 0, a)))"

section \<open>Which processes are watched\<close>

text \<open>The arguments of a tracepoint, by their offset in the context.\<close>

type_synonym bpf_context = "nat \<Rightarrow> u64"

definition check_pid :: "kern \<Rightarrow> unit bpf" where
  "check_pid kn a = (if ba_pid a (kn_pid kn) = Some 0xffffffff then (Done (), a) else (Fail 0, a))"

definition check_pid_snark_worker :: "kern \<Rightarrow> unit bpf" where
  "check_pid_snark_worker kn a =
     (if ba_pid_snark_worker a (kn_pid kn) = Some 0xffffffff then (Done (), a) else (Fail 0, a))"

definition check_env_entry :: "kern \<Rightarrow> u64 \<Rightarrow> u32 bpf" where
  "check_env_entry kn entry a =
     bind_outcome (rb_scratch kn 0x200 a) (\<lambda>_ a.
       case kn_user_str kn entry 0x200 of (c, str) \<Rightarrow>
         if \<not> (9 \<le> c \<and> c \<le> 0x200) then (Fail c, a)
         else if take 9 str = as_bytes ''BPF_ALIAS'' then (Done (of_int (c - 10)), a)
         else (Fail 0, a))"

text \<open>The entry is found: its alias is sent and the process is watched from now on.\<close>

definition watch_alias :: "kern \<Rightarrow> u32 \<Rightarrow> u64 \<Rightarrow> unit bpf" where
  "watch_alias kn len entry a =
     (let ts = kn_ktime kn;
          e = set_ok (ucast len) (set_tag_fd TagAlias 0 (event_new (kn_pid kn) (kn_tid kn) ts ts))
      in bind_outcome (dyn_sized kn e (entry + 10) a) (\<lambda>_ a.
           case kn_insert kn MapPid of
             Some err \<Rightarrow> (Fail err, a)
           | None \<Rightarrow> (Done (), a\<lparr>ba_pid := (ba_pid a)(kn_pid kn \<mapsto> 0xffffffff)\<rparr>)))"

text \<open>The loop over the environment; \<open>n\<close> turns are left of 256.\<close>

fun check_env_loop :: "kern \<Rightarrow> u64 \<Rightarrow> nat \<Rightarrow> u64 \<Rightarrow> unit bpf" where
  "check_env_loop kn env 0 i a = (Fail 0, a)"
| "check_env_loop kn env (Suc n) i a =
     (case kn_user kn (env + 8 * i) 8 of (c, p) \<Rightarrow>
        if c \<noteq> 0 then (Fail 0, a)
        else
          (let entry = of_nat (from_le p) in
           if entry = 0 then (Fail 0, a)
           else
             (case check_env_entry kn entry a of
                (Done len, a) \<Rightarrow> watch_alias kn len entry a
              | (_, a) \<Rightarrow> check_env_loop kn env n (i + 1) a)))"

definition check_env_flag :: "kern \<Rightarrow> u64 \<Rightarrow> unit bpf" where
  "check_env_flag kn env a =
     (if env = 0 then (Fail 0, a)
      else bind_outcome (rb_scratch kn 8 a) (\<lambda>_. check_env_loop kn env 0x100 0))"

definition check_arg_entry :: "kern \<Rightarrow> u64 \<Rightarrow> unit bpf" where
  "check_arg_entry kn entry a =
     bind_outcome (rb_scratch kn 0x200 a) (\<lambda>_ a.
       case kn_user_str kn entry 0x200 of (c, str) \<Rightarrow>
         if \<not> (8 \<le> c \<and> c \<le> 0x200) then (Fail c, a)
         else if take 18 str = as_bytes ''coda-libp2p_helper'' \<or> take 8 str = as_bytes ''openmina''
         then (Done (), a)
         else (Fail 0, a))"

definition check_name :: "kern \<Rightarrow> u64 \<Rightarrow> unit bpf" where
  "check_name kn argv a =
     (if argv = 0 then (Fail 0, a)
      else
        bind_outcome (rb_scratch kn 8 a) (\<lambda>_ a.
          case kn_user kn argv 8 of (c, p) \<Rightarrow>
            if c \<noteq> 0 \<or> from_le p = 0 then (Fail 0, a)
            else
              (case check_arg_entry kn (of_nat (from_le p)) a of
                 (Done _, a) \<Rightarrow> (Done (), a) | (_, a) \<Rightarrow> (Fail 0, a))))"

definition check_snark_worker :: "kern \<Rightarrow> u64 \<Rightarrow> bool bpf" where
  "check_snark_worker kn argv a =
     (if argv = 0 then (Fail 0, a)
      else
        bind_outcome (rb_scratch kn 8 a) (\<lambda>_ a.
        bind_outcome (rb_scratch kn 16 a) (\<lambda>_ a.
          case kn_user kn (argv + 16) 8 of (c, p) \<Rightarrow>
            if c \<noteq> 0 \<or> from_le p = 0 then (Done False, a)
            else
              (case kn_user_str kn (of_nat (from_le p)) 16 of (c, str) \<Rightarrow>
                 if c < 12 then (Done False, a)
                 else if take 12 str = as_bytes ''snark-worker'' then
                   (let ts = kn_ktime kn;
                        e = set_ok 0 (set_tag_fd TagSnarkWorker 0 (event_new (kn_pid kn) (kn_tid kn) ts ts))
                    in bind_outcome (dyn_sized kn e 0 a) (\<lambda>_ a.
                         case kn_insert kn MapPidSnarkWorker of
                           Some err \<Rightarrow> (Fail err, a)
                         | None \<Rightarrow>
                             (Done True, a\<lparr>ba_pid_snark_worker :=
                                (ba_pid_snark_worker a)(kn_pid kn \<mapsto> 0xffffffff)\<rparr>)))
                 else (Done False, a)))))"

definition on_exec :: "kern \<Rightarrow> u64 \<Rightarrow> u64 \<Rightarrow> unit bpf" where
  "on_exec kn argv env a =
     (case check_snark_worker kn argv a of
        (Done True, a) \<Rightarrow> (Done (), a)
      | (_, a) \<Rightarrow> bind_outcome (check_name kn argv a) (\<lambda>_. check_env_flag kn env))"

definition execve :: "kern \<Rightarrow> bpf_context \<Rightarrow> unit bpf" where
  "execve kn ctx = on_exec kn (ctx 0x18) (ctx 0x20)"

definition execveat :: "kern \<Rightarrow> bpf_context \<Rightarrow> unit bpf" where
  "execveat kn ctx = on_exec kn (ctx 0x20) (ctx 0x28)"

section \<open>System calls\<close>

definition sys_enter :: "kern \<Rightarrow> bool \<Rightarrow> variant \<Rightarrow> unit bpf" where
  "sys_enter kn snark_worker v a =
     (case (case check_pid kn a of
              (Done _, a) \<Rightarrow> (Done (), a)
            | (r, a) \<Rightarrow> if snark_worker then check_pid_snark_worker kn a else (r, a)) of
        (Done _, a) \<Rightarrow>
          (case kn_insert kn MapContext of
             Some err \<Rightarrow> (Fail err, a)
           | None \<Rightarrow> (Done (), a\<lparr>ba_context := (ba_context a)(kn_tid kn \<mapsto> (v, kn_ktime kn))\<rparr>))
      | r \<Rightarrow> r)"

text \<open>The ports are compared with the family of the address, as the code does.\<close>

definition check_addr :: "kern \<Rightarrow> u64 \<Rightarrow> (int, bytes) outcome" where
  "check_addr kn ptr =
     (case kn_user kn ptr 2 of (c, t) \<Rightarrow>
        (let ty = from_le t in
         if c \<noteq> 0 then Fail 0
         else if ty \<noteq> 2 \<and> ty \<noteq> 10 then Fail 0
         else
           (case (if ty = 2 then kn_user kn (ptr + 4) 4 else kn_user kn (ptr + 8) 16) of (c, addr) \<Rightarrow>
              if c \<noteq> 0 then Fail 0
              else if fst (kn_user kn (ptr + 2) 2) \<noteq> 0 then Fail 0
              else if ty \<in> {0, 53, 443, 80, 65535} then Fail 0
              else Done (if ty = 2 then replicate 10 0 @ [0xff, 0xff] @ addr else addr))))"

definition socket_id :: "u32 \<Rightarrow> u32 \<Rightarrow> u64" where
  "socket_id fd pid = push_bit 32 (ucast fd) + ucast pid"

definition track :: "kern \<Rightarrow> u64 \<Rightarrow> unit bpf" where
  "track kn s a =
     (case kn_insert kn MapConnections of
        Some err \<Rightarrow> (Fail err, a)
      | None \<Rightarrow> (Done (), a\<lparr>ba_connections := (ba_connections a)(s \<mapsto> 1)\<rparr>))"

text \<open>The length behind a pointer, as \<open>accept\<close> and \<open>getsockopt\<close> return it.\<close>

definition read_len :: "kern \<Rightarrow> u64 \<Rightarrow> u64 option" where
  "read_len kn p = (case kn_user kn p 4 of (c, b) \<Rightarrow> if c \<noteq> 0 then None else Some (of_nat (from_le b)))"

text \<open>A connection that is forgotten; the outcome tells whether there was one.\<close>

definition untrack :: "kern \<Rightarrow> u64 \<Rightarrow> bool bpf" where
  "untrack kn s a =
     (case kn_remove kn MapConnections of
        Some err \<Rightarrow> (Fail err, a)
      | None \<Rightarrow>
          (Done (ba_connections a s \<noteq> None), a\<lparr>ba_connections := (ba_connections a)(s := None)\<rparr>))"

text \<open>A read or write that returned \<open>ret\<close>: one that failed on a connection also closes it.\<close>

definition on_ret_io :: "kern \<Rightarrow> u64 \<Rightarrow> data_tag \<Rightarrow> u32 \<Rightarrow> u64 \<Rightarrow> bpf_event \<Rightarrow> unit bpf" where
  "on_ret_io kn ret tag fd ptr e a =
     (let e = set_tag_fd tag fd e; s = socket_id fd (be_pid e) in
      if fd = 0 \<or> fd = 1 \<or> fd = 2 then
        (if 0 \<le> sint ret then dyn_sized kn (set_ok ret e) ptr a else (Done (), a))
      else if ba_connections a s = None then (Done (), a)
      else if sint ret < 0 then
        bind_outcome (untrack kn s a) (\<lambda>was a.
          if \<not> was then (Done (), a)
          else bind_outcome (dyn_sized kn (set_err ret e) 0 a)
                 (\<lambda>_. dyn_sized kn (set_tag_fd TagClose fd e) ptr))
      else dyn_sized kn (set_ok ret e) ptr a)"

definition on_ret :: "kern \<Rightarrow> u64 \<Rightarrow> variant \<Rightarrow> u64 \<Rightarrow> u64 \<Rightarrow> unit bpf" where
  "on_ret kn ret v ts0 ts1 a =
     (let e = event_new (kn_pid kn) (kn_tid kn) ts0 ts1; ptr = variant_ptr v in
      if sint ret = - 11 then (Done (), a)
      else
        (case v of
           VEmpty _ len \<Rightarrow>
             (let e = set_tag_fd TagDebug 0 e in
              dyn_sized kn (if sint ret < 0 then set_err ret e else set_ok len e) ptr a)
         | VBind fd _ addr_len \<Rightarrow>
             (let e = set_tag_fd TagBind fd e in
              dyn_sized kn (if sint ret < 0 then set_err ret e else set_ok addr_len e) ptr a)
         | VConnect fd _ addr_len \<Rightarrow>
             (case check_addr kn ptr of
                Done _ \<Rightarrow>
                  (let e = set_tag_fd TagConnect fd e in
                   if sint ret < 0 \<and> sint ret \<noteq> - 115 then dyn_sized kn (set_err ret e) ptr a
                   else bind_outcome (track kn (socket_id fd (kn_pid kn)) a)
                          (\<lambda>_. dyn_sized kn (set_ok addr_len e) ptr))
              | Fail err \<Rightarrow> (Fail err, a) | Panic \<Rightarrow> (Panic, a) | Hang \<Rightarrow> (Hang, a))
         | VGetSockOptL1O4 fd _ len_ptr \<Rightarrow>
             (let e = set_tag_fd TagGetSockOpt fd e in
              if sint ret < 0 then dyn_sized kn (set_err ret e) ptr a
              else
                (case read_len kn len_ptr of
                   None \<Rightarrow> (Fail 0, a) | Some len \<Rightarrow> dyn_sized kn (set_ok len e) ptr a))
         | VGetSockOptIrrelevant _ _ _ \<Rightarrow> (Done (), a)
         | VAccept _ _ addr_len_ptr \<Rightarrow>
             (let fd = ucast ret; e = set_tag_fd TagAccept fd e in
              if sint ret < 0 then dyn_sized kn (set_err ret e) ptr a
              else
                (case check_addr kn ptr of
                   Done _ \<Rightarrow>
                     bind_outcome (track kn (socket_id fd (kn_pid kn)) a) (\<lambda>_ a.
                       case read_len kn addr_len_ptr of
                         None \<Rightarrow> (Fail 0, a) | Some len \<Rightarrow> dyn_sized kn (set_ok len e) ptr a)
                 | Fail err \<Rightarrow> (Fail err, a) | Panic \<Rightarrow> (Panic, a) | Hang \<Rightarrow> (Hang, a)))
         | VSend fd _ \<Rightarrow> on_ret_io kn ret TagWrite fd ptr e a
         | VWrite fd _ \<Rightarrow> on_ret_io kn ret TagWrite fd ptr e a
         | VRecv fd _ \<Rightarrow> on_ret_io kn ret TagRead fd ptr e a
         | VRead fd _ \<Rightarrow> on_ret_io kn ret TagRead fd ptr e a
         | VGetRandom _ data_len \<Rightarrow> dyn_sized kn (set_ok data_len (set_tag_fd TagRandom 0 e)) ptr a))"

definition on_ret_snark_worker :: "kern \<Rightarrow> u64 \<Rightarrow> variant \<Rightarrow> u64 \<Rightarrow> u64 \<Rightarrow> unit bpf" where
  "on_ret_snark_worker kn ret v ts0 ts1 a =
     (let e = event_new (kn_pid kn) (kn_tid kn) ts0 ts1;
          send = (\<lambda>tag fd.
            if 0 \<le> sint ret then dyn_sized kn (set_ok ret (set_tag_fd tag fd e)) (variant_ptr v) a
            else (Done (), a))
      in case v of VWrite fd _ \<Rightarrow> send TagWrite fd | VRead fd _ \<Rightarrow> send TagRead fd | _ \<Rightarrow> (Done (), a))"

definition sys_exit :: "kern \<Rightarrow> bpf_context \<Rightarrow> unit bpf" where
  "sys_exit kn ctx a =
     (case (case check_pid kn a of
              (Done _, a) \<Rightarrow> (Done False, a)
            | (_, a) \<Rightarrow> bind_outcome (check_pid_snark_worker kn a) (\<lambda>_ a. (Done True, a))) of
        (Done snark_worker, a) \<Rightarrow>
          (case kn_remove kn MapContext of
             Some err \<Rightarrow> (Fail err, a)
           | None \<Rightarrow>
               (case ba_context a (kn_tid kn) of
                  Some (v, ts0) \<Rightarrow>
                    (let ret = ctx 0x10; a = a\<lparr>ba_context := (ba_context a)(kn_tid kn := None)\<rparr> in
                     if snark_worker then on_ret_snark_worker kn ret v ts0 (kn_ktime kn) a
                     else on_ret kn ret v ts0 (kn_ktime kn) a)
                | None \<Rightarrow> (Fail (- 1), a)))
      | (Fail e, a) \<Rightarrow> (Fail e, a) | (Panic, a) \<Rightarrow> (Panic, a) | (Hang, a) \<Rightarrow> (Hang, a))"

subsection \<open>The tracepoints\<close>

definition enter_bind :: "kern \<Rightarrow> bpf_context \<Rightarrow> unit bpf" where
  "enter_bind kn ctx = sys_enter kn False (VBind (ucast (ctx 0x10)) (ctx 0x18) (ctx 0x20))"

definition enter_connect :: "kern \<Rightarrow> bpf_context \<Rightarrow> unit bpf" where
  "enter_connect kn ctx = sys_enter kn False (VConnect (ucast (ctx 0x10)) (ctx 0x18) (ctx 0x20))"

definition enter_getsockopt :: "kern \<Rightarrow> bpf_context \<Rightarrow> unit bpf" where
  "enter_getsockopt kn ctx =
     (if ctx 0x18 = 1 \<and> ctx 0x20 = 4
      then sys_enter kn False (VGetSockOptL1O4 (ucast (ctx 0x10)) (ctx 0x28) (ctx 0x30))
      else sys_enter kn False (VGetSockOptIrrelevant (ucast (ctx 0x10)) (ctx 0x28) (ctx 0x30)))"

definition enter_accept4 :: "kern \<Rightarrow> bpf_context \<Rightarrow> unit bpf" where
  "enter_accept4 kn ctx = sys_enter kn False (VAccept (ucast (ctx 0x10)) (ctx 0x18) (ctx 0x20))"

definition enter_close :: "kern \<Rightarrow> bpf_context \<Rightarrow> unit bpf" where
  "enter_close kn ctx a =
     bind_outcome (check_pid kn a) (\<lambda>_ a.
       (let fd = ucast (ctx 0x10); ts = kn_ktime kn in
        bind_outcome (untrack kn (socket_id fd (kn_pid kn)) a) (\<lambda>was a.
          if \<not> was then (Done (), a)
          else dyn_sized kn (set_tag_fd TagClose fd (event_new (kn_pid kn) (kn_tid kn) ts ts)) 0 a)))"

definition enter_write :: "kern \<Rightarrow> bpf_context \<Rightarrow> unit bpf" where
  "enter_write kn ctx = sys_enter kn True (VWrite (ucast (ctx 0x10)) (ctx 0x18))"

definition enter_read :: "kern \<Rightarrow> bpf_context \<Rightarrow> unit bpf" where
  "enter_read kn ctx = sys_enter kn True (VRead (ucast (ctx 0x10)) (ctx 0x18))"

definition enter_sendto :: "kern \<Rightarrow> bpf_context \<Rightarrow> unit bpf" where
  "enter_sendto kn ctx = sys_enter kn False (VSend (ucast (ctx 0x10)) (ctx 0x18))"

definition enter_recvfrom :: "kern \<Rightarrow> bpf_context \<Rightarrow> unit bpf" where
  "enter_recvfrom kn ctx = sys_enter kn False (VRecv (ucast (ctx 0x10)) (ctx 0x18))"

definition enter_getrandom :: "kern \<Rightarrow> bpf_context \<Rightarrow> unit bpf" where
  "enter_getrandom kn ctx = sys_enter kn False (VGetRandom (ctx 0x10) (ctx 0x18))"

text \<open>
  One program that runs: \<open>exit_*\<close> are all \<open>sys_exit\<close>, and \<open>enter_shutdown\<close> is \<open>enter_close\<close>.
\<close>

datatype tracepoint =
    Execve | Execveat | EnterBind | EnterConnect | EnterGetsockopt | EnterAccept4 | EnterClose | EnterWrite
  | EnterRead | EnterSendto | EnterRecvfrom | EnterGetrandom | EnterShutdown | SysExit

definition run_prog :: "tracepoint \<Rightarrow> kern \<Rightarrow> bpf_context \<Rightarrow> unit bpf" where
  "run_prog t = (case t of
     Execve \<Rightarrow> execve | Execveat \<Rightarrow> execveat | EnterBind \<Rightarrow> enter_bind | EnterConnect \<Rightarrow> enter_connect
   | EnterGetsockopt \<Rightarrow> enter_getsockopt | EnterAccept4 \<Rightarrow> enter_accept4 | EnterClose \<Rightarrow> enter_close
   | EnterWrite \<Rightarrow> enter_write | EnterRead \<Rightarrow> enter_read | EnterSendto \<Rightarrow> enter_sendto
   | EnterRecvfrom \<Rightarrow> enter_recvfrom | EnterGetrandom \<Rightarrow> enter_getrandom | EnterShutdown \<Rightarrow> enter_close
   | SysExit \<Rightarrow> sys_exit)"

text \<open>
  What the kernel documents of its helpers: a reservation has the length asked for, and a read of user
  memory fills its destination and returns 0 or a negative error.
\<close>

definition kernel_ok :: "kern \<Rightarrow> bool" where
  "kernel_ok kn \<longleftrightarrow>
     (\<forall>n. length (kn_fresh kn n) = n) \<and>
     (\<forall>p n. fst (kn_user kn p n) \<le> 0 \<and> length (snd (kn_user kn p n)) = n)"

inductive bpf_step :: "bpf_app \<Rightarrow> bpf_app \<Rightarrow> bool" where
  prog: "kernel_ok kn \<Longrightarrow> bpf_step a (snd (run_prog t kn ctx a))"

inductive bpf_reach :: "bpf_app \<Rightarrow> bool" where
  init: "bpf_reach bpf_app_new"
| step: "bpf_reach a \<Longrightarrow> bpf_step a b \<Longrightarrow> bpf_reach b"

section \<open>Lemmas\<close>

subsection \<open>Events in a record\<close>

lemma data_tag_from_to [simp]: "data_tag_from_u32 (data_tag_u32 t) = Some t"
  by (cases t) (simp_all add: data_tag_from_u32_def data_tags_def data_tag_u32_def)

lemma from_to_le_word:
  "from_le (to_le 4 (unat (w :: u32))) = unat w" "from_le (to_le 8 (unat (v :: u64))) = unat v"
  using unsigned_less [of w, where 'a = nat] unsigned_less [of v, where 'a = nat] by (simp_all add: from_to_le)

lemma slice_skip: "length xs \<le> a \<Longrightarrow> slice a b (xs @ ys) = slice (a - length xs) (b - length xs) ys"
  by (simp add: slice_def)

lemma slice_all: "length xs = b \<Longrightarrow> slice 0 b xs = xs"
  by (simp add: slice_def)

lemma event_read_write [simp]:
  assumes "EVENT_SIZE \<le> length buf"
  shows "event_read (event_write e buf) = Some e"
  using assms
  by (simp add: event_read_def event_write_def EVENT_SIZE_def slice_skip slice_all from_to_le_word)

lemma event_write_body [simp]:
  assumes "EVENT_SIZE \<le> length buf"
  shows "length (event_write e buf) = length buf" "drop EVENT_SIZE (event_write e buf) = drop EVENT_SIZE buf"
  using assms by (simp_all add: event_write_def EVENT_SIZE_def)

text \<open>A record that has an event and all of its data.\<close>

definition record_ok :: "bytes \<Rightarrow> bool" where
  "record_ok b \<longleftrightarrow> EVENT_SIZE \<le> length b \<and>
     (case event_read b of
        None \<Rightarrow> False
      | Some e \<Rightarrow> sint (be_size e) < 0 \<or> EVENT_SIZE + nat (sint (be_size e)) \<le> length b)"

lemma record_okI:
  "EVENT_SIZE \<le> length b \<Longrightarrow> event_read b = Some e \<Longrightarrow>
   sint (be_size e) \<le> 0 \<or> EVENT_SIZE + nat (sint (be_size e)) \<le> length b \<Longrightarrow> record_ok b"
  by (auto simp: record_ok_def)

lemma record_ok_no_hang: "record_ok b \<Longrightarrow> from_rb_slice b \<noteq> Hang"
  by (auto simp: record_ok_def from_rb_slice_def Let_def split: option.splits outcome.splits data_tag.splits)

lemma from_rb_slice_event:
  assumes "event_read b = Some e" "EVENT_SIZE \<le> length b" "0 < sint (be_size e)"
    and "EVENT_SIZE + nat (sint (be_size e)) \<le> length b"
    and "be_tag e = TagWrite \<and> v = OutgoingData (slice EVENT_SIZE (EVENT_SIZE + nat (sint (be_size e))) b) \<or>
      be_tag e = TagRead \<and> v = IncomingData (slice EVENT_SIZE (EVENT_SIZE + nat (sint (be_size e))) b)"
  shows "from_rb_slice b = Done (Some \<lparr>se_pid = be_pid e, se_tid = be_tid e, se_fd = be_fd e,
    se_ts0 = be_ts0 e, se_ts1 = be_ts1 e, se_variant = v\<rparr>)"
  using assms by (auto simp: from_rb_slice_def Let_def EVENT_SIZE_def)

subsection \<open>Sending\<close>

lemma send_sized_data:
  assumes "kernel_ok kn" "kn_reserve kn (n + EVENT_SIZE) (ba_event_queue a) = None"
    and "0 < sint (be_size e)" "sint (be_size e) \<le> int n"
  shows "\<exists>b. send_sized kn n e ptr a = (Done (), a\<lparr>ba_event_queue := ba_event_queue a @ [Submitted b]\<rparr>) \<and>
    event_read b = Some e \<and> EVENT_SIZE + nat (sint (be_size e)) \<le> length b \<and>
    slice EVENT_SIZE (EVENT_SIZE + nat (sint (be_size e))) b = snd (kn_user kn ptr (nat (sint (be_size e))))"
proof -
  define sz where "sz = nat (sint (be_size e))"
  obtain result d where u: "kn_user kn ptr sz = (result, d)" by (cases "kn_user kn ptr sz")
  have sz: "0 < sz" "sz \<le> n" "nat (sint (be_size e) - 1) mod n = sz - 1" "Suc (EVENT_SIZE + (sz - 1)) = EVENT_SIZE + sz"
    using assms(3,4) by (auto simp: sz_def nat_diff_distrib)
  have k: "result \<le> 0" "length d = sz" "length (kn_fresh kn (n + EVENT_SIZE)) = n + EVENT_SIZE"
    using assms(1) u unfolding kernel_ok_def by (metis fst_conv, metis snd_conv, blast)
  define buf where "buf = take EVENT_SIZE (kn_fresh kn (n + EVENT_SIZE)) @ d @
    drop (EVENT_SIZE + sz) (kn_fresh kn (n + EVENT_SIZE))"
  have buf: "length buf = EVENT_SIZE + n" "take sz (drop EVENT_SIZE buf) = d" using k sz by (simp_all add: buf_def)
  have "send_sized kn n e ptr a =
    (Done (), a\<lparr>ba_event_queue := ba_event_queue a @ [Submitted (event_write e buf)]\<rparr>)"
    using assms(2-4) k(1) u sz by (simp add: send_sized_def Let_def rb_submit_def buf_def del: mod_less)
  with buf sz(2) u show ?thesis
    by (intro exI [of _ "event_write e buf"]) (simp add: slice_def flip: sz_def)
qed

lemma dyn_sized_data:
  assumes "kernel_ok kn" "\<forall>n. kn_reserve kn n (ba_event_queue a) = None"
    and "0 < sint (be_size e)" "sint (be_size e) \<le> 2 ^ 27"
  shows "\<exists>b. dyn_sized kn e ptr a = (Done (), a\<lparr>ba_event_queue := ba_event_queue a @ [Submitted b]\<rparr>) \<and>
    event_read b = Some e \<and> EVENT_SIZE + nat (sint (be_size e)) \<le> length b \<and>
    slice EVENT_SIZE (EVENT_SIZE + nat (sint (be_size e))) b = snd (kn_user kn ptr (nat (sint (be_size e))))"
proof -
  obtain k where k: "find (\<lambda>k. sint (be_size e) \<le> 2 ^ k) [8..<28] = Some k"
  proof (cases "find (\<lambda>k. sint (be_size e) \<le> 2 ^ k) [8..<28]")
    case None
    moreover have "27 \<in> set [8..<28]" by simp
    ultimately have "\<not> sint (be_size e) \<le> 2 ^ 27" unfolding find_None_iff by blast
    with assms(4) show ?thesis by simp
  qed auto
  then have "sint (be_size e) \<le> 2 ^ k" unfolding find_Some_iff by blast
  then have "sint (be_size e) \<le> int (2 ^ k)" by simp
  from send_sized_data [OF assms(1) _ assms(3) this, of a ptr] assms(2,3) k show ?thesis
    by (simp add: dyn_sized_def del: upt_rec_numeral)
qed

text \<open>What a program may do to the state: an invariant that allows all of it is kept by every program.\<close>

locale bpf_inv =
  fixes ok :: "kern \<Rightarrow> bool" and P :: "bpf_app \<Rightarrow> bool"
  assumes ok_kernel: "ok kn \<Longrightarrow> kernel_ok kn"
    and submit: "P a \<Longrightarrow> record_ok b \<Longrightarrow> P (a\<lparr>ba_event_queue := ba_event_queue a @ [Submitted b]\<rparr>)"
    and discard: "P a \<Longrightarrow> P (a\<lparr>ba_event_queue := ba_event_queue a @ [Discarded b]\<rparr>)"
    and watch: "ok kn \<Longrightarrow> P a \<Longrightarrow> P (a\<lparr>ba_pid := (ba_pid a)(kn_pid kn \<mapsto> 0xffffffff)\<rparr>)"
    and watch_worker:
      "ok kn \<Longrightarrow> P a \<Longrightarrow> P (a\<lparr>ba_pid_snark_worker := (ba_pid_snark_worker a)(kn_pid kn \<mapsto> 0xffffffff)\<rparr>)"
    and own_context: "ok kn \<Longrightarrow> P a \<Longrightarrow> P (a\<lparr>ba_context := (ba_context a)(kn_tid kn := c)\<rparr>)"
    and own_connection:
      "ok kn \<Longrightarrow> P a \<Longrightarrow> P (a\<lparr>ba_connections := (ba_connections a)(socket_id fd (kn_pid kn) := n)\<rparr>)"
begin

lemma bind_inv: "P (snd r) \<Longrightarrow> (\<And>x a. P a \<Longrightarrow> P (snd (k x a))) \<Longrightarrow> P (snd (bind_outcome r k))"
  by (cases r; cases "fst r") auto

lemma rb_submit_inv: "P a \<Longrightarrow> record_ok (fill (kn_fresh kn n)) \<Longrightarrow> P (snd (rb_submit kn n fill a))"
  by (auto simp: rb_submit_def submit split: option.splits)

lemma rb_scratch_inv: "P a \<Longrightarrow> P (snd (rb_scratch kn n a))"
  by (auto simp: rb_scratch_def discard split: option.splits)

lemma rb_submit_event:
  assumes "ok kn" "P a" "sint (be_size e) \<le> 0"
  shows "P (snd (rb_submit kn EVENT_SIZE (event_write e) a))"
  using ok_kernel [OF assms(1)] assms(2,3)
  by (intro rb_submit_inv record_okI) (simp_all add: kernel_ok_def)

lemma send_sized_inv:
  assumes "ok kn" "P a" "sint (be_size e) \<le> int n"
  shows "P (snd (send_sized kn n e ptr a))"
proof (cases "0 < sint (be_size e)")
  case True
  show ?thesis
  proof (cases "kn_reserve kn (n + EVENT_SIZE) (ba_event_queue a)")
    case None
    from send_sized_data [OF ok_kernel [OF assms(1)] None True assms(3), of ptr] obtain b where
      "send_sized kn n e ptr a = (Done (), a\<lparr>ba_event_queue := ba_event_queue a @ [Submitted b]\<rparr>)"
      "event_read b = Some e" "EVENT_SIZE + nat (sint (be_size e)) \<le> length b" by blast
    with assms(2) show ?thesis by (simp add: submit record_okI)
  next
    case (Some err)
    with True assms show ?thesis
      by (simp add: send_sized_def Let_def rb_submit_def [of _ "n + EVENT_SIZE"] rb_submit_event split: prod.split)
  qed
next
  case False
  with assms show ?thesis by (simp add: send_sized_def rb_submit_event)
qed

lemma dyn_sized_inv: "ok kn \<Longrightarrow> P a \<Longrightarrow> P (snd (dyn_sized kn e ptr a))"
  by (auto simp: dyn_sized_def send_sized_inv find_Some_iff simp del: upt_rec_numeral split: option.split)

lemma check_pid_inv: "P a \<Longrightarrow> P (snd (check_pid kn a))" "P a \<Longrightarrow> P (snd (check_pid_snark_worker kn a))"
  by (simp_all add: check_pid_def check_pid_snark_worker_def)

lemma check_env_entry_inv: "P a \<Longrightarrow> P (snd (check_env_entry kn entry a))"
  unfolding check_env_entry_def by (rule bind_inv) (simp_all add: rb_scratch_inv split: prod.split)

lemma check_env_loop_inv: "ok kn \<Longrightarrow> P a \<Longrightarrow> P (snd (check_env_loop kn env n i a))"
proof (induction n arbitrary: i a)
  case (Suc n)
  have f: "P a \<Longrightarrow> P (snd (watch_alias kn len entry a))" for len entry a
    unfolding watch_alias_def Let_def using Suc.prems(1)
    by (intro bind_inv dyn_sized_inv) (simp_all add: watch split: option.split)
  have "P (snd (case check_env_entry kn entry a of
      (Done len, a) \<Rightarrow> watch_alias kn len entry a | (_, a) \<Rightarrow> check_env_loop kn env n (i + 1) a))" for entry
    using check_env_entry_inv [OF Suc.prems(2), of kn entry] Suc.IH [OF Suc.prems(1)] f
    by (auto split: prod.split outcome.split)
  with Suc.prems(2) show ?case by (simp add: Let_def split: prod.split del: split_paired_All split_paired_Ex)
qed simp

lemma check_arg_entry_inv: "P a \<Longrightarrow> P (snd (check_arg_entry kn entry a))"
  unfolding check_arg_entry_def by (rule bind_inv) (simp_all add: rb_scratch_inv split: prod.split)

lemma check_name_inv: "P a \<Longrightarrow> P (snd (check_name kn argv a))"
proof -
  have arg: "check_arg_entry kn entry a = (r, b) \<Longrightarrow> P a \<Longrightarrow> P b" for entry a r b
    using check_arg_entry_inv [of a kn entry] by simp
  show "P a \<Longrightarrow> P (snd (check_name kn argv a))"
    unfolding check_name_def by (auto intro!: bind_inv rb_scratch_inv dest: arg split: prod.split outcome.split)
qed

lemma check_snark_worker_inv: "ok kn \<Longrightarrow> P a \<Longrightarrow> P (snd (check_snark_worker kn argv a))"
  unfolding check_snark_worker_def Let_def
  by (auto intro!: bind_inv rb_scratch_inv dyn_sized_inv watch_worker split: prod.split option.split)

lemma on_exec_inv: "ok kn \<Longrightarrow> P a \<Longrightarrow> P (snd (on_exec kn argv env a))"
proof -
  assume ok: "ok kn" and P: "P a"
  have "P a \<Longrightarrow> P (snd (bind_outcome (check_name kn argv a) (\<lambda>_. check_env_flag kn env)))" for a
    unfolding check_env_flag_def
    by (intro bind_inv check_name_inv) (auto intro!: bind_inv rb_scratch_inv check_env_loop_inv [OF ok])
  with check_snark_worker_inv [OF ok P, of argv] show ?thesis
    by (auto simp: on_exec_def split: prod.split outcome.split bool.split)
qed

lemma sys_enter_inv: "ok kn \<Longrightarrow> P a \<Longrightarrow> P (snd (sys_enter kn w v a))"
  by (auto simp: sys_enter_def check_pid_def check_pid_snark_worker_def own_context split: option.split)

lemma track_inv:
  "ok kn \<Longrightarrow> P a \<Longrightarrow> P (snd (track kn (socket_id fd (kn_pid kn)) a))"
  "ok kn \<Longrightarrow> P a \<Longrightarrow> P (snd (untrack kn (socket_id fd (kn_pid kn)) a))"
  by (simp_all add: track_def untrack_def own_connection split: option.split)

lemma on_ret_io_inv:
  "ok kn \<Longrightarrow> P a \<Longrightarrow> be_pid e = kn_pid kn \<Longrightarrow> P (snd (on_ret_io kn ret tag fd ptr e a))"
  unfolding on_ret_io_def Let_def
  by (auto simp: set_tag_fd_def intro!: bind_inv dyn_sized_inv track_inv)

lemma on_ret_inv: "ok kn \<Longrightarrow> P a \<Longrightarrow> P (snd (on_ret kn ret v ts0 ts1 a))"
  unfolding on_ret_def Let_def
  by (cases v) (auto simp: event_new_def intro!: bind_inv dyn_sized_inv track_inv on_ret_io_inv
      split: outcome.split option.split)

lemma sys_exit_inv: "ok kn \<Longrightarrow> P a \<Longrightarrow> P (snd (sys_exit kn ctx a))"
  unfolding sys_exit_def check_pid_def check_pid_snark_worker_def on_ret_snark_worker_def Let_def
  by (auto simp: own_context intro!: on_ret_inv dyn_sized_inv split: option.split variant.split)

lemma enter_close_inv: "ok kn \<Longrightarrow> P a \<Longrightarrow> P (snd (enter_close kn ctx a))"
  unfolding enter_close_def Let_def by (intro bind_inv check_pid_inv track_inv) (auto intro!: dyn_sized_inv)

lemma run_prog_inv: "ok kn \<Longrightarrow> P a \<Longrightarrow> P (snd (run_prog t kn ctx a))"
  by (cases t) (simp_all add: run_prog_def execve_def execveat_def enter_bind_def enter_connect_def
      enter_getsockopt_def enter_accept4_def enter_write_def enter_read_def enter_sendto_def
      enter_recvfrom_def enter_getrandom_def on_exec_inv sys_enter_inv sys_exit_inv enter_close_inv)

end

section \<open>Every record is an event\<close>

definition queue_ok :: "bpf_app \<Rightarrow> bool" where
  "queue_ok a \<longleftrightarrow>
     (\<forall>r \<in> set (ba_event_queue a).
        case r of Submitted b \<Rightarrow> record_ok b | Discarded b \<Rightarrow> True | Busy b \<Rightarrow> False)"

lemma queue_okD:
  assumes "queue_ok a"
  shows "Submitted b \<in> set (ba_event_queue a) \<Longrightarrow> record_ok b" "Busy b \<notin> set (ba_event_queue a)"
  using assms unfolding queue_ok_def by force+

interpretation queue_inv: bpf_inv kernel_ok queue_ok
  by unfold_locales (auto simp: queue_ok_def)

lemma reach_queue_ok: "bpf_reach a \<Longrightarrow> queue_ok a"
proof (induction rule: bpf_reach.induct)
  case init
  show ?case by (simp add: queue_ok_def bpf_app_new_def)
next
  case (step a b)
  from step(2) show ?case using queue_inv.run_prog_inv step.IH by cases simp
qed

lemma event_address_long: "24 \<le> length d \<Longrightarrow> \<exists>x. event_address d = Done x"
  by (simp add: event_address_def Let_def)

lemma record_ok_read:
  assumes "record_ok b"
  shows "\<exists>e. event_read b = Some e \<and> from_rb_slice b \<noteq> Hang \<and>
    (from_rb_slice b = Panic \<longrightarrow>
       be_tag e = TagAlias \<and> be_size e = 0 \<or>
       be_tag e \<in> {TagAccept, TagConnect, TagBind} \<and> 0 \<le> sint (be_size e) \<and> sint (be_size e) < 24)"
proof -
  from assms obtain e where e: "event_read b = Some e" "EVENT_SIZE \<le> length b"
    "sint (be_size e) < 0 \<or> EVENT_SIZE + nat (sint (be_size e)) \<le> length b"
    by (auto simp: record_ok_def split: option.splits)
  define d where "d = slice EVENT_SIZE (EVENT_SIZE + nat (sint (be_size e))) b"
  have b: "b \<noteq> []" using e(2) by (auto simp: EVENT_SIZE_def)
  have len: "length d = nat (sint (be_size e))" if "\<not> sint (be_size e) < 0" using e(3) that by (simp add: d_def)
  have "be_size e = 0" if "\<not> sint (be_size e) < 0" "d = []"
  proof -
    from len that have "sint (be_size e) = sint (0 :: u32)" by simp
    then show ?thesis by (rule signed_word_eqI)
  qed
  moreover have "sint (be_size e) < 24" if "\<not> sint (be_size e) < 0" "\<And>x. event_address d \<noteq> Done x"
  proof (rule ccontr)
    assume "\<not> sint (be_size e) < 24"
    with len that(1) have "24 \<le> length d" by simp
    with event_address_long that(2) show False by blast
  qed
  ultimately show ?thesis using e b record_ok_no_hang [OF assms]
    by (intro exI [of _ e]) (auto simp: from_rb_slice_def Let_def simp flip: d_def
        split: if_splits outcome.splits option.splits data_tag.splits)
qed

text \<open>C7: Whatever the watched system calls are, and however the programs of the threads interleave, every
  record that they submit is a complete event: the reader never leaves the process because of a record
  that is too short, and it panics only for an address of less than 24 bytes or an empty alias.\<close>

theorem sniffer_records_readable:
  assumes "bpf_reach a" "Submitted b \<in> set (ba_event_queue a)"
  shows "\<exists>e. event_read b = Some e \<and> from_rb_slice b \<noteq> Hang \<and>
    (from_rb_slice b = Panic \<longrightarrow>
       be_tag e = TagAlias \<and> be_size e = 0 \<or>
       be_tag e \<in> {TagAccept, TagConnect, TagBind} \<and> 0 \<le> sint (be_size e) \<and> sint (be_size e) < 24)"
  by (rule record_ok_read [OF queue_okD(1) [OF reach_queue_ok [OF assms(1)] assms(2)]])

section \<open>Reads and writes are reported\<close>

text \<open>Programs of other threads that run while the thread \<open>tid\<close> is in its system call.\<close>

inductive others :: "u32 \<Rightarrow> bpf_app \<Rightarrow> bpf_app \<Rightarrow> bool" for tid where
  refl: "others tid a a"
| other: "others tid a b \<Longrightarrow> kernel_ok kn \<Longrightarrow> kn_tid kn \<noteq> tid \<Longrightarrow> others tid a (snd (run_prog t kn ctx b))"

interpretation frame_inv: bpf_inv "\<lambda>kn. kernel_ok kn \<and> kn_tid kn \<noteq> tid"
    "\<lambda>a. ba_context a tid = c \<and> (ba_pid a pid = Some 0xffffffff)" for tid c pid
  by unfold_locales auto

lemma others_frame:
  "others tid a b \<Longrightarrow> ba_context a tid = c \<Longrightarrow> ba_pid a pid = Some 0xffffffff \<Longrightarrow>
   ba_context b tid = c \<and> ba_pid b pid = Some 0xffffffff"
proof (induction rule: others.induct)
  case (other a b kn t ctx)
  with frame_inv.run_prog_inv [of kn tid b c pid t ctx] show ?case by blast
qed simp

definition io_call :: "tracepoint \<Rightarrow> (bytes \<Rightarrow> sniffer_variant) option" where
  "io_call t = (case t of
     EnterWrite \<Rightarrow> Some OutgoingData | EnterSendto \<Rightarrow> Some OutgoingData
   | EnterRead \<Rightarrow> Some IncomingData | EnterRecvfrom \<Rightarrow> Some IncomingData | _ \<Rightarrow> None)"

lemma sint_size:
  fixes ret :: u64
  assumes "0 \<le> sint ret" "sint ret \<le> 2 ^ 27"
  shows "sint (ucast ret :: u32) = sint ret"
proof -
  have "sint (ucast (word_of_int k :: u64) :: u32) = k" if "0 \<le> k" "k \<le> 2 ^ 27" for k
    using that by (simp add: unsigned_of_int take_bit_int_eq_self signed_of_int signed_take_bit_int_eq_self)
  from this [OF assms] show ?thesis by simp
qed

lemma sys_enter_context:
  assumes "ba_pid a (kn_pid kn) = Some 0xffffffff" "kn_insert kn MapContext = None"
  shows "sys_enter kn w v a = (Done (), a\<lparr>ba_context := (ba_context a)(kn_tid kn \<mapsto> (v, kn_ktime kn))\<rparr>)"
  using assms by (simp add: sys_enter_def check_pid_def)

lemma on_ret_io_data:
  assumes "kernel_ok kn" "\<forall>n. kn_reserve kn n (ba_event_queue a) = None" "0 < sint ret" "sint ret \<le> 2 ^ 27"
    and "fd \<in> {0, 1, 2} \<or> ba_connections a (socket_id fd (be_pid e)) \<noteq> None"
    and "tag = TagWrite \<and> data = OutgoingData \<or> tag = TagRead \<and> data = IncomingData"
  shows "\<exists>r. on_ret_io kn ret tag fd ptr e a =
      (Done (), a\<lparr>ba_event_queue := ba_event_queue a @ [Submitted r]\<rparr>) \<and>
    from_rb_slice r = Done (Some \<lparr>se_pid = be_pid e, se_tid = be_tid e, se_fd = fd, se_ts0 = be_ts0 e,
      se_ts1 = be_ts1 e, se_variant = data (snd (kn_user kn ptr (nat (sint ret))))\<rparr>)"
proof -
  define e1 where "e1 = set_ok ret (set_tag_fd tag fd e)"
  have size: "sint (be_size e1) = sint ret" using sint_size [of ret] assms(3,4) by (simp add: e1_def set_ok_def)
  from dyn_sized_data [OF assms(1,2), of e1 ptr] size assms(3,4) obtain r where
    r: "dyn_sized kn e1 ptr a = (Done (), a\<lparr>ba_event_queue := ba_event_queue a @ [Submitted r]\<rparr>)"
      "event_read r = Some e1" "EVENT_SIZE + nat (sint ret) \<le> length r"
      "slice EVENT_SIZE (EVENT_SIZE + nat (sint ret)) r = snd (kn_user kn ptr (nat (sint ret)))" by auto
  have "on_ret_io kn ret tag fd ptr e a = dyn_sized kn e1 ptr a"
    using assms(3,5) by (auto simp: on_ret_io_def Let_def e1_def set_tag_fd_def)
  moreover have "from_rb_slice r = Done (Some \<lparr>se_pid = be_pid e1, se_tid = be_tid e1, se_fd = be_fd e1,
      se_ts0 = be_ts0 e1, se_ts1 = be_ts1 e1, se_variant = data (snd (kn_user kn ptr (nat (sint ret))))\<rparr>)"
    using r(2-4) size assms(3,6)
    by (intro from_rb_slice_event) (auto simp: e1_def set_ok_def set_tag_fd_def)
  ultimately show ?thesis using r(1) by (auto simp: e1_def set_ok_def set_tag_fd_def)
qed

text \<open>C6: A read or write that moves bytes on a connection of a watched process is reported exactly once,
  when it returns, whatever other threads do meanwhile: the reader gets one event with the process, the
  thread, the descriptor, both times, the direction and exactly the bytes of the call.\<close>

theorem sniffer_reports_io:
  assumes "io_call t = Some data" "kn_pid_tgid k1 = kn_pid_tgid k0"
    and "ba_pid a (kn_pid k0) = Some 0xffffffff" "kn_insert k0 MapContext = None"
    and "others (kn_tid k0) (snd (run_prog t k0 ctx0 a)) b"
    and "ucast (ctx0 0x10) \<in> {0, 1, 2 :: u32} \<or>
      ba_connections b (socket_id (ucast (ctx0 0x10)) (kn_pid k0)) \<noteq> None"
    and "kernel_ok k1" "kn_remove k1 MapContext = None" "\<forall>n. kn_reserve k1 n (ba_event_queue b) = None"
    and "0 < sint (ctx1 0x10)" "sint (ctx1 0x10) \<le> 2 ^ 27"
  shows "\<exists>r b'. run_prog SysExit k1 ctx1 b = (Done (), b') \<and>
    ba_event_queue b' = ba_event_queue b @ [Submitted r] \<and>
    from_rb_slice r = Done (Some \<lparr>se_pid = kn_pid k0, se_tid = kn_tid k0, se_fd = ucast (ctx0 0x10),
      se_ts0 = kn_ktime k0, se_ts1 = kn_ktime k1,
      se_variant = data (snd (kn_user k1 (ctx0 0x18) (nat (sint (ctx1 0x10)))))\<rparr>)"
proof -
  let ?fd = "ucast (ctx0 0x10) :: u32" and ?p = "ctx0 0x18" and ?e = "event_new (kn_pid k0) (kn_tid k0) (kn_ktime k0)
    (kn_ktime k1)"
  have pt: "kn_pid k1 = kn_pid k0" "kn_tid k1 = kn_tid k0" using assms(2) by (simp_all add: kn_pid_def kn_tid_def)
  define v where "v = (case t of EnterWrite \<Rightarrow> VWrite ?fd ?p | EnterSendto \<Rightarrow> VSend ?fd ?p
    | EnterRead \<Rightarrow> VRead ?fd ?p | _ \<Rightarrow> VRecv ?fd ?p)"
  define tag where "tag = (if t = EnterWrite \<or> t = EnterSendto then TagWrite else TagRead)"
  have t: "t = EnterWrite \<or> t = EnterSendto \<or> t = EnterRead \<or> t = EnterRecvfrom"
    using assms(1) by (auto simp: io_call_def split: tracepoint.splits)
  then have "snd (run_prog t k0 ctx0 a) = a\<lparr>ba_context := (ba_context a)(kn_tid k0 \<mapsto> (v, kn_ktime k0))\<rparr>"
    using sys_enter_context [OF assms(3,4)]
    by (auto simp: run_prog_def enter_write_def enter_sendto_def enter_read_def enter_recvfrom_def v_def)
  with others_frame [OF assms(5), of "Some (v, kn_ktime k0)" "kn_pid k0"] assms(3)
  have b: "ba_context b (kn_tid k0) = Some (v, kn_ktime k0)" "ba_pid b (kn_pid k0) = Some 0xffffffff" by auto
  define b1 where "b1 = b\<lparr>ba_context := (ba_context b)(kn_tid k0 := None)\<rparr>"
  have "sint (ctx1 0x10) \<noteq> - 11" using assms(10) by simp
  with t b assms(8) have run: "run_prog SysExit k1 ctx1 b = on_ret_io k1 (ctx1 0x10) tag ?fd ?p ?e b1"
    by (auto simp: run_prog_def sys_exit_def check_pid_def pt on_ret_def Let_def b1_def v_def tag_def variant_ptr_def)
  have "tag = TagWrite \<and> data = OutgoingData \<or> tag = TagRead \<and> data = IncomingData"
    using t assms(1) by (auto simp: tag_def io_call_def)
  from on_ret_io_data [OF assms(7) _ assms(10,11) _ this, of b1 ?fd ?e ?p] assms(6,9) run show ?thesis
    by (auto simp: b1_def event_new_def)
qed

text \<open>C22: Reading the ring buffer gives the events that the programs have sent, in their order: for every part
  of the queue that the memory holds, the reader returns the value of each record, as long as none of them
  has a short address or an empty alias.\<close>

theorem sniffer_reader:
  assumes "bpf_reach a" "ba_event_queue a = old @ rs" "rb_holds sh rb rs"
    and "\<forall>b. Submitted b \<in> set rs \<longrightarrow> from_rb_slice b \<noteq> Panic"
    and "length rs \<le> n" "rb_stored rb \<le> rb_consumer_pos_value rb"
  shows "\<exists>rb'. rb_reads from_rb_slice sh n rb = (map (rec_value from_rb_slice) rs, rb') \<and>
    rb_stored rb' \<le> rb_consumer_pos_value rb'"
proof -
  have "\<forall>r \<in> set rs. \<forall>b. r \<noteq> Busy b" "\<forall>b. Submitted b \<in> set rs \<longrightarrow> record_ok b"
    using queue_okD [OF reach_queue_ok [OF assms(1)]] assms(2) by auto
  with assms(3-6) show ?thesis by (intro rb_reads_records [where bs = "[]"]) (simp_all add: record_ok_no_hang)
qed

section \<open>Samples\<close>

text \<open>Process 7, thread 9; a word of user memory holds its own address.\<close>

definition sample_kern :: "u64 \<Rightarrow> kern" where
  "sample_kern time = \<lparr>kn_pid_tgid = 0x700000009, kn_ktime = time,
     kn_user = (\<lambda>p n. (0, to_le n (unat p))),
     kn_user_str = (\<lambda>p n.
       if p = 0x100 then (9, as_bytes ''openmina'' @ [0])
       else if p = 0x200 then (10, as_bytes ''BPF_ALIAS'' @ [0])
       else if p = 0x310 then (13, as_bytes ''snark-worker'' @ [0])
       else (0, [])),
     kn_reserve = (\<lambda>_ _. None), kn_insert = (\<lambda>_. None), kn_remove = (\<lambda>_. None),
     kn_fresh = (\<lambda>n. replicate n 0)\<rparr>"

lemma sample_kern_ok: "kernel_ok (sample_kern t)"
  by (simp add: kernel_ok_def sample_kern_def)

lemma sample_kern_simps:
  "kn_pid (sample_kern t) = 7" "kn_tid (sample_kern t) = 9" "kn_ktime (sample_kern t) = t"
  "kn_pid_tgid (sample_kern t) = 0x700000009" "kn_user (sample_kern t) p n = (0, to_le n (unat p))"
  "kn_reserve (sample_kern t) n q = None" "kn_insert (sample_kern t) m = None"
  "kn_remove (sample_kern t) m = None" "kn_fresh (sample_kern t) n = replicate n 0"
  by (simp_all add: kn_pid_def kn_tid_def sample_kern_def)

definition sample_watched :: bpf_app where
  "sample_watched = bpf_app_new\<lparr>ba_pid := [7 \<mapsto> 0xffffffff], ba_connections := [socket_id 5 7 \<mapsto> 1]\<rparr>"

theorem sniffer_reports_io_witness:
  "\<exists>r b'. run_prog SysExit (sample_kern 30) (\<lambda>_. 3)
      (snd (run_prog EnterWrite (sample_kern 20) (\<lambda>i. if i = 0x10 then 5 else 0x123456) sample_watched)) = (Done (), b') \<and>
    ba_event_queue b' = [Submitted r] \<and>
    from_rb_slice r = Done (Some \<lparr>se_pid = 7, se_tid = 9, se_fd = 5, se_ts0 = 20, se_ts1 = 30,
      se_variant = OutgoingData [0x56, 0x34, 0x12]\<rparr>)"
proof -
  let ?k0 = "sample_kern 20" and ?k1 = "sample_kern 30" and ?ctx = "\<lambda>i :: nat. if i = 0x10 then 5 else 0x123456 :: u64"
  have q: "snd (run_prog EnterWrite ?k0 ?ctx sample_watched) =
      sample_watched\<lparr>ba_context := [9 \<mapsto> (VWrite 5 0x123456, 20)]\<rparr>"
    by (simp add: run_prog_def enter_write_def sys_enter_def check_pid_def sample_kern_simps sample_watched_def
        bpf_app_new_def)
  have d: "to_le 3 0x123456 = [0x56, 0x34, 0x12]" by (simp add: to_le_def numeral_3_eq_3)
  show ?thesis
    using sniffer_reports_io [of EnterWrite OutgoingData ?k1 ?k0 sample_watched ?ctx, OF _ _ _ _ others.refl,
        of "\<lambda>_. 3"] sample_kern_ok [of 30]
    unfolding q by (simp add: sample_kern_simps io_call_def d sample_watched_def bpf_app_new_def)
qed

theorem sniffer_records_readable_witness:
  "\<exists>b e. Submitted b \<in> set (ba_event_queue (snd (run_prog Execve (sample_kern 20)
      (\<lambda>i. if i = 0x18 then 0x100 else 0x200) bpf_app_new))) \<and>
    event_read b = Some e \<and> from_rb_slice b = Panic \<and> be_tag e = TagAlias \<and> be_size e = 0"
proof -
  let ?k = "sample_kern 20" and ?ctx = "\<lambda>i :: nat. if i = 0x18 then 0x100 else 0x200 :: u64"
  let ?a = "snd (run_prog Execve ?k ?ctx bpf_app_new)"
  define b where "b = event_write (set_tag_fd TagAlias 0 (event_new 7 9 20 20)) (replicate 40 0)"
  have "bpf_reach ?a" by (intro bpf_reach.step [OF bpf_reach.init] bpf_step.prog sample_kern_ok)
  moreover have "Submitted b \<in> set (ba_event_queue ?a)" unfolding b_def by code_simp
  moreover have "from_rb_slice b = Panic" unfolding b_def by code_simp
  moreover have "event_read b = Some (set_tag_fd TagAlias 0 (event_new 7 9 20 20))" unfolding b_def by code_simp
  ultimately show ?thesis using sniffer_records_readable [of ?a b] by (auto simp: set_tag_fd_def)
qed

definition sample_event :: bytes where
  "sample_event = event_write (set_tag_fd TagSnarkWorker 0 (event_new 7 9 20 20)) (replicate 40 0)"

theorem sniffer_reader_witness:
  "\<exists>rb'. rb_reads from_rb_slice \<lparr>producer_pos = 48, rb_data = (\<lambda>i. ([40, 0, 0, 0, 0, 0, 0, 0] @ sample_event) ! i)\<rparr> 5
     \<lparr>rb_mask = 63, rb_consumer_pos_value = 0, rb_previous_distance = 0, rb_stored = 0\<rparr> =
     ([Some \<lparr>se_pid = 7, se_tid = 9, se_fd = 0, se_ts0 = 20, se_ts1 = 20, se_variant = NewSnarkWorkerApp\<rparr>], rb') \<and>
     rb_stored rb' \<le> rb_consumer_pos_value rb'"
proof -
  let ?a = "snd (run_prog Execve (sample_kern 20) (\<lambda>_. 0x300) bpf_app_new)"
  let ?sh = "\<lparr>producer_pos = 48, rb_data = (\<lambda>i. ([40, 0, 0, 0, 0, 0, 0, 0] @ sample_event) ! i)\<rparr>"
  let ?rb = "\<lparr>rb_mask = 63, rb_consumer_pos_value = 0, rb_previous_distance = 0, rb_stored = 0\<rparr>"
  have "bpf_reach ?a" by (intro bpf_reach.step [OF bpf_reach.init] bpf_step.prog sample_kern_ok)
  moreover have "ba_event_queue ?a =
      [Discarded (replicate 8 0), Discarded (replicate 16 0)] @ [Submitted sample_event]" by code_simp
  moreover have e: "sample_event = [0, 0, 0, 0, 7, 0, 0, 0, 9, 0, 0, 0, 0, 0, 0, 0, 20, 0, 0, 0, 0, 0, 0, 0,
      20, 0, 0, 0, 0, 0, 0, 0, 11, 0, 0, 0, 0, 0, 0, 0]" by code_simp
  have "rb_holds ?sh ?rb [Submitted sample_event]"
    unfolding rb_holds_def e by (rule exI [of _ 6])
      (simp add: rec_size_def rec_flags_def mem_slice_def upt_rec from_le_def from_be_def)
  moreover have v: "from_rb_slice sample_event = Done (Some \<lparr>se_pid = 7, se_tid = 9, se_fd = 0, se_ts0 = 20,
      se_ts1 = 20, se_variant = NewSnarkWorkerApp\<rparr>)" by code_simp
  ultimately show ?thesis
    using sniffer_reader [of ?a "[Discarded (replicate 8 0), Discarded (replicate 16 0)]" "[Submitted sample_event]"
        ?sh ?rb 5] by (simp add: rec_value_def)
qed

end
