(* ===== verification/Spec2Isabelle.thy ===== *)
theory Spec2Isabelle
  imports Yamux Mplex Multistream Pnet Noise Accumulator Recorder Query Sniffer
begin

text \<open>
  \<^bold>\<open>The program.\<close> The repository is a debugger for the peer-to-peer network of Mina nodes. A BPF module
  reports the socket calls of a node; the recorder (\<open>src/mina-recorder\<close>) takes the byte streams of each
  connection apart, layer by layer, stores every message with indexes in RocksDB, gathers statistics of the
  gossip and answers queries over HTTP. This library models the recorder: what happens to the bytes
  from the socket to the database and back to the one who asks.

  \<^bold>\<open>The layers.\<close> Each layer is a handler \<open>on_data\<close> (type \<open>on_data\<close> of \<open>Types\<close>): it gets the next bytes of one
  direction, changes its state and the world, calls the layer inside and ends in an \<open>outcome\<close> (\<open>Done\<close>,
  \<open>Fail\<close> for \<open>Err\<close>, \<open>Panic\<close>, \<open>Hang\<close> for a call that never returns). Inside out:

    \<^item> \<open>Pnet\<close>: the private-network cipher (\<open>connection/pnet.rs\<close>). The stream behind the nonce is decrypted
      however it is cut into chunks; a first chunk of less than 24 bytes switches the layer off.
    \<^item> \<open>Multistream\<close>: protocol negotiation (\<open>connection/multistream_select.rs\<close>), for both directions: chunking
      does not matter, the loop ends, and what follows the agreement reaches the inner layer.
    \<^item> \<open>Noise\<close>: handshake and transport (\<open>connection/noise.rs\<close>): the recorder follows the XX handshake
      when it knows the ephemeral key of one side, and then hands on the plain text of both directions.
    \<^item> \<open>Yamux\<close>, \<open>Mplex\<close>: the multiplexers (\<open>connection/yamux.rs\<close>, \<open>connection/mplex.rs\<close>): the frames
      found in a stream are those of a reference parser, emitted frames are read back, and the handler
      does what a frame-by-frame reference does.
    \<^item> \<open>MinaProtocol\<close>, \<open>Accumulator\<close>: RPC and meshsub (\<open>connection/mina_protocol\<close>, \<open>connection/accumulator.rs\<close>):
      complete messages leave the accumulators in order, a response is stored with the header of its
      query, the meshsub sink stores, decodes and observes each message.
    \<^item> \<open>Recorder\<close>: the stack of all layers and the recorder with one thread per connection (\<open>recorder.rs\<close>,
      \<open>connection/mux.rs\<close>). A step relation interleaves the threads; in every run a connection handles its
      chunks in the order they were sent, and only a panic loses some.

  \<^bold>\<open>Around them.\<close> \<open>KeyRecover\<close> (\<open>key_recover.rs\<close>) searches the secret key behind an observed public key.
  \<open>Decode\<close> (\<open>decode/\<close>) names the types of a message and lists the events of a meshsub message; \<open>Stats\<close>
  (\<open>stats.rs\<close>, \<open>decode/meshsub_stats.rs\<close>) keeps the statistics of blocks, transactions and snark works.

  \<^bold>\<open>The database.\<close> \<open>Coding\<close> has the binary form of keys and values (\<open>custom_coding.rs\<close>, \<open>chunk.rs\<close>,
  \<open>database/index.rs\<close>, \<open>database/types.rs\<close>), \<open>Params\<close> the parameters of a query (\<open>database/params.rs\<close>),
  \<open>Intersect\<close> the intersection of indexes (\<open>database/sorted_intersect.rs\<close>), \<open>Db\<close> the writing side of
  \<open>DbCore\<close> and the facade that the layers call (\<open>database/core.rs\<close>, \<open>database/rocksdb.rs\<close>), \<open>Query\<close> the
  reading side. Every stored message is read back under its number after any later calls; a
  restart reuses the last number.

  \<^bold>\<open>Foundations.\<close> \<open>Prelude\<close> (integers, bytes, outcomes, strings), \<open>Framing\<close> (length-prefixed framing of a
  stream, a locale that four layers interpret), \<open>Varint\<close> (the crate \<open>unsigned_varint\<close> as a locale, with
  LEB128 as its instance), \<open>BTree\<close> (\<open>BTreeMap\<close> as a sorted list), \<open>Types\<close> (events, streams, the
  interface of the database).

  \<^bold>\<open>Third-party code\<close> is an argument of the definitions that use it: ciphers, curves and hashes, protobuf
  and binprot decoders, \<open>radiation\<close>, RocksDB, \<open>kmerge_by\<close>. What the program relies on is a locale
  (\<open>varint\<close>, \<open>radiation_laws\<close>, \<open>rocks_laws\<close>, \<open>kmerge_laws\<close>) or a named hypothesis, and each has a
  concrete instance, on which the witnesses evaluate.

  \<^bold>\<open>Machine integers\<close> keep their width. A release build has no overflow checks, so additions wrap. Lengths of
  buffers are natural numbers where the code compares \<open>usize\<close> values that cannot overflow in memory, and
  \<open>usize_add\<close> where a length from the network is added. Loops are recursive functions with a
  termination proof; none needs fuel. The one loop that may run forever (a yamux stream with an
  unreadable header) is the value \<open>None\<close>, which the handler turns into \<open>Hang\<close>.

  \<^bold>\<open>Not modelled:\<close> the rendering of messages as JSON and all log output (no effect on the state); the HTTP
  server, the command-line tools, \<open>ptrace\<close> and \<open>strace\<close> (input and output of the operating system); the
  BPF programs, their loader and the ring buffer (kernel code, \<open>unsafe\<close> memory mapping); the capnp reader,
  the aggregator, the simulator, the tester and the topology tool, which are separate programs.
\<close>

section \<open>Stream ids\<close>

lemma yamux_stream_id_ok: "stream_id_ok (yamux_stream_id n)"
proof -
  have "unat n div 2 < 2 ^ 31" using unsigned_less [of n, where 'a = nat] by simp
  then have "unat (ucast (n div 2) :: u64) < 2 ^ 31"
    by (simp add: unsigned_ucast_eq unat_div_distrib take_bit_nat_eq_self)
  then show ?thesis by (simp add: yamux_stream_id_def stream_id_ok_def word_less_nat_alt)
qed

lemma drop_bit_3_less: "drop_bit 3 v < (0x7fffffffffffffff :: u64)"
proof -
  have "unat v div 8 < 2 ^ 61" using unsigned_less [of v, where 'a = nat] by simp
  then show ?thesis by (simp add: word_less_nat_alt drop_bit_eq_div unat_div_distrib)
qed

lemma mplex_r_stream_id_ok:
  assumes "mplex_r vdec inc bs = Done (Some (t, s, len, off))"
  shows "stream_id_ok s"
proof -
  have "drop_bit 3 v < (0x8000000000000000 :: u64)" for v
    using drop_bit_3_less by (rule order.strict_trans) simp
  with assms drop_bit_3_less show ?thesis
    by (auto simp: mplex_r_def stream_id_ok_def Let_def split: option.splits if_splits prod.splits)
qed

lemma mplex_turn_cases:
  "fst (mplex_turn vdec inc st bs) \<in> {Done Pending, Panic} \<union> {Done (Ready (t, s, p)) | t s p. stream_id_ok s}"
proof -
  have "fst (mplex_accumulate vdec inc acc bs) \<in>
      {Done Pending, Panic} \<union> {Done (Ready (t, s, p)) | t s p. stream_id_ok s}" for acc
    by (auto simp: mplex_accumulate_def Let_def dest: mplex_r_stream_id_ok split: outcome.splits option.splits)
  then show ?thesis by (simp add: mplex_turn_def split_beta)
qed

text \<open>
  Two databases and two ways to make the handler of a stream that agree on every id the coding of the
  database can represent.
\<close>

definition agree_on_ids ::
  "('e, 'w) db_ops \<Rightarrow> ('e, 'w) db_ops \<Rightarrow> (stream_id \<Rightarrow> 'i) \<Rightarrow> (stream_id \<Rightarrow> 'i) \<Rightarrow> bool" where
  "agree_on_ids db db' mk mk' =
     (db_drop db = db_drop db' \<and>
      (\<forall>s. stream_id_of_code (stream_id_code s) = s \<longrightarrow> mk s = mk' s \<and> db_add db s = db_add db' s))"

lemma agreeD:
  assumes "agree_on_ids db db' mk mk'"
  shows "db_drop db = db_drop db'" "stream_id_ok s \<Longrightarrow> mk s = mk' s" "stream_id_ok s \<Longrightarrow> db_add db s = db_add db' s"
  using assms by (simp_all add: agree_on_ids_def stream_id_code_roundtrip)

lemma agree_sym: "agree_on_ids db db' mk mk' \<Longrightarrow> agree_on_ids db' db mk' mk"
  by (simp add: agree_on_ids_def)

lemma yamux_controls_agree:
  assumes "agree_on_ids db db' mk mk'"
  shows "yamux_controls mk inc fs st = yamux_controls mk' inc fs st"
proof -
  have "yamux_control mk inc h = yamux_control mk' inc h" for h
    using agreeD(2) [OF assms yamux_stream_id_ok] by (intro ext) (simp add: yamux_control_def Let_def)
  then show ?thesis by (simp add: yamux_controls_def)
qed

lemma yamux_agree:
  assumes "agree_on_ids db db' mk mk'"
  shows "yamux_on_data db mk inner did bs st w = yamux_on_data db' mk' inner did bs st w"
proof -
  note a = agreeD(1) [OF assms] agreeD(2,3) [OF assms yamux_stream_id_ok]
  have d: "yamux_deliver db mk inner did h x st w = yamux_deliver db' mk' inner did h x st w" for h x st w
    by (simp only: yamux_deliver_def a Let_def)
  have "yamux_deliver_all db mk inner did rs st w = yamux_deliver_all db' mk' inner did rs st w" for rs st w
  proof (induction rs arbitrary: st w)
    case (Cons r rs)
    then show ?case
      by (cases r rule: sum.exhaust [where 'b = "header \<times> bytes"])
        (simp, cases "projr r", simp add: d split: prod.split outcome.split)
  qed simp
  then show ?thesis
    by (simp only: yamux_on_data_def yamux_process_eq yamux_controls_agree [OF assms])
qed

lemma mplex_step_agree:
  assumes "agree_on_ids db db' mk mk'" "stream_id_ok s"
  shows "mplex_step hexenc mk inc (t, s, p) inners = mplex_step hexenc mk' inc (t, s, p) inners"
    and "fst (fst (mplex_step hexenc mk inc (t, s, p) inners)) = s"
  using agreeD(2) [OF assms] by (cases t; simp add: mplex_step_def)+

lemma mplex_loop_agree:
  assumes "agree_on_ids db db' mk mk'" "\<forall>m \<in> set out. stream_id_ok (fst m)"
    and "mplex_loop vdec hexenc mk inc st bs out = Some y"
  shows "mplex_loop vdec hexenc mk' inc st bs out = Some y \<and>
    (\<forall>ms. fst y = Done ms \<longrightarrow> (\<forall>m \<in> set ms. stream_id_ok (fst m)))"
proof -
  let ?P = "\<lambda>vdec hexenc mk inc st bs out y. agree_on_ids db db' mk mk' \<longrightarrow> (\<forall>m \<in> set out. stream_id_ok (fst m)) \<longrightarrow>
    mplex_loop vdec hexenc mk' inc st bs out = Some y \<and>
    (\<forall>ms. fst y = Done ms \<longrightarrow> (\<forall>m \<in> set ms. stream_id_ok (fst m)))"
  have "?P vdec hexenc mk inc st bs out y"
  proof (rule mplex_loop.raw_induct [where P = ?P, OF _ assms(3)], intro impI)
    fix loop vdec hexenc mk inc st bs out y
    assume IH: "\<And>vdec hexenc mk inc st bs out y. loop vdec hexenc mk inc st bs out = Some y \<Longrightarrow>
        ?P vdec hexenc mk inc st bs out y"
      and step: "(let t = mplex_turn vdec inc st bs in
        if fst t = Done Pending then Some (Done out, snd t)
        else if fst t = Panic then Some (Panic, snd t)
        else
          let o' = mplex_step hexenc mk inc (case fst t of Done (Ready m) \<Rightarrow> m) (m_inners (snd t))
          in loop vdec hexenc mk inc ((snd t)\<lparr>m_inners := snd o'\<rparr>) [] (out @ [fst o'])) = Some y"
      and a: "agree_on_ids db db' mk mk'" and out: "\<forall>m \<in> set out. stream_id_ok (fst m)"
    obtain r st1 where t: "mplex_turn vdec inc st bs = (r, st1)" by fastforce
    consider "r = Done Pending" | "r = Panic" | tg s p where "r = Done (Ready (tg, s, p))" "stream_id_ok s"
      using mplex_turn_cases [of vdec inc st bs] t by auto
    then show "mplex_loop vdec hexenc mk' inc st bs out = Some y \<and>
        (\<forall>ms. fst y = Done ms \<longrightarrow> (\<forall>m \<in> set ms. stream_id_ok (fst m)))"
    proof cases
      case 3
      let ?o = "mplex_step hexenc mk inc (tg, s, p) (m_inners st1)"
      have "loop vdec hexenc mk inc (st1\<lparr>m_inners := snd ?o\<rparr>) [] (out @ [fst ?o]) = Some y"
        using step t 3 by (simp add: Let_def)
      from IH [OF this] a out 3(2) mplex_step_agree [OF a 3(2)] show ?thesis
        using t 3 by (subst mplex_loop.simps) (simp add: Let_def)
    qed (use step t out in \<open>auto simp: mplex_loop.simps [of vdec hexenc mk' inc st bs out] Let_def\<close>)
  qed
  with assms(1,2) show ?thesis by blast
qed

lemma mplex_process_agree:
  assumes "agree_on_ids db db' mk mk'"
  shows "mplex_process vdec hexenc mk inc st bs = mplex_process vdec hexenc mk' inc st bs"
proof -
  note loop = mplex_loop_agree [where out = "[]", simplified, THEN conjunct1]
  have "mplex_loop vdec hexenc mk inc st bs [] = mplex_loop vdec hexenc mk' inc st bs []"
  proof (cases "mplex_loop vdec hexenc mk inc st bs []")
    case None
    with loop [OF agree_sym [OF assms], of vdec hexenc inc st bs] show ?thesis
      by (cases "mplex_loop vdec hexenc mk' inc st bs []") simp_all
  next
    case (Some y)
    from loop [OF assms this] Some show ?thesis by (simp only:)
  qed
  then show ?thesis by (simp only: mplex_process_def)
qed

lemma mplex_agree:
  assumes "agree_on_ids db db' mk mk'"
  shows "mplex_on_data vdec hexenc db mk inner did bs st w = mplex_on_data vdec hexenc db' mk' inner did bs st w"
proof -
  have d: "mplex_deliver db inner did m st w = mplex_deliver db' inner did m st w" if "stream_id_ok (fst m)" for m st w
  proof -
    obtain s v where m: "m = (s, v)" by (cases m)
    with that have "db_add db s = db_add db' s" by (intro agreeD(3) [OF assms]) simp
    then show ?thesis by (simp only: m prod.case mplex_deliver_def mplex_store_def agreeD(1) [OF assms])
  qed
  have all: "mplex_deliver_all db inner did ms st w = mplex_deliver_all db' inner did ms st w"
    if "\<forall>m \<in> set ms. stream_id_ok (fst m)" for ms st w
    using that by (induction ms arbitrary: st w) (simp_all add: d Let_def split: prod.splits outcome.splits)
  show ?thesis
  proof (cases "mplex_process vdec hexenc mk (incoming did) st bs")
    case None
    with mplex_process_agree [OF assms] show ?thesis by (simp add: mplex_on_data_def)
  next
    case (Some y)
    have "\<forall>ms. fst y = Done ms \<longrightarrow> (\<forall>m \<in> set ms. stream_id_ok (fst m))"
      using mplex_loop_agree [OF assms _ Some [unfolded mplex_process_def]] by simp
    with Some all show ?thesis
      unfolding mplex_on_data_def mplex_process_agree [OF assms, symmetric]
      by (cases y) (auto split: outcome.split)
  qed
qed

text \<open>C21: The multiplexers use only stream ids that the coding of the database can represent: whatever
  the bytes of the peers, the result of a chunk does not depend on how another id would be stored or its
  handler made. So ids of different streams are never confused in the database.\<close>

theorem mux_stream_ids:
  assumes "agree_on_ids db db' mk mk'"
  shows "yamux_on_data db mk inner did bs yst w = yamux_on_data db' mk' inner did bs yst w \<and>
    mplex_on_data vdec hexenc db mk inner did bs mst w = mplex_on_data vdec hexenc db' mk' inner did bs mst w"
  using yamux_agree [OF assms] mplex_agree [OF assms] by blast

text \<open>A database that refuses other ids.\<close>

definition guard_ids :: "('e, 'w) db_ops \<Rightarrow> ('e, 'w) db_ops" where
  "guard_ids db = db\<lparr>db_add := (\<lambda>s did kind bs w.
     if stream_id_of_code (stream_id_code s) = s then db_add db s did kind bs w else (Panic, w))\<rparr>"

theorem mux_stream_ids_witness:
  "yamux_on_data list_db (\<lambda>s. [0]) (\<lambda>did bs i w. (Done (), i @ bs, w)) (sample_did True)
     (header_to_bytes \<lparr>h_version = 0, h_ty = Ping 7, h_flags = SYN, h_stream_id = 6\<rparr>)
     (yamux_new :: bytes yamux_state) [] =
   yamux_on_data (guard_ids list_db) (\<lambda>s. if stream_id_of_code (stream_id_code s) = s then [0] else [])
     (\<lambda>did bs i w. (Done (), i @ bs, w)) (sample_did True)
     (header_to_bytes \<lparr>h_version = 0, h_ty = Ping 7, h_flags = SYN, h_stream_id = 6\<rparr>) yamux_new []"
  by (rule mux_stream_ids [THEN conjunct1]) (simp add: agree_on_ids_def guard_ids_def list_db_def fun_eq_iff)

end
